(* ===== verification/Prelude.thy ===== *)
theory Prelude
  imports Main "HOL-Library.Word" "HOL-Library.AList"
begin

text \<open>
  The prelude of the development: what the components use of Rust and of its standard library,
  and the lemmas they share.

  \<^item> \<open>u64\<close> and \<open>usize\<close> values that are only compared, added and subtracted are \<open>nat\<close>, with the
    saturating and the wrapping operation written out (\<open>u64_sat_add\<close>, \<open>u64_sub\<close>); truncated
    subtraction on \<open>nat\<close> is \<open>saturating_sub\<close>. Values that are mixed bitwise are words.
  \<^item> \<open>outcome\<close> separates a panic from a returned value.
  \<^item> \<open>HashMap\<close> is an association list with distinct keys, in any order: a theorem about every
    such list covers every iteration order. \<open>BTreeMap\<close> is a list of pairs in key order. Both are
    interpretations of the locale \<open>map_impl\<close>.
  \<^item> \<open>Iterator::min_by_key\<close>, \<open>slice::partition_point\<close> and \<open>slice::binary_search_by\<close> are the
    executable routines, with the lemmas that say what they return.
\<close>

named_theorems map_laws \<open>lookup after the operations of the standard maps\<close>
named_theorems u64_simps \<open>definitions of the 64-bit operations\<close>

section \<open>Numbers, bytes, panics\<close>

type_synonym byte = "8 word"

datatype 'a outcome = Panic | Ret 'a

definition u64_max :: nat where
  "u64_max = 2 ^ 64 - 1"

definition u64_sat_add :: "nat \<Rightarrow> nat \<Rightarrow> nat" where
  "u64_sat_add a b = min (a + b) u64_max"

text \<open>The plain \<open>a - b\<close> of the release profile, which wraps.\<close>

definition u64_sub :: "nat \<Rightarrow> nat \<Rightarrow> nat" where
  "u64_sub a b = (a + 2 ^ 64 - b) mod 2 ^ 64"

declare u64_max_def [u64_simps] u64_sat_add_def [u64_simps]

lemma u64_sub_le: "b \<le> a \<Longrightarrow> a < 2 ^ 64 \<Longrightarrow> u64_sub a b = a - b"
  by (simp add: u64_sub_def mod_if)

text \<open>Little-endian encodings of fixed width (\<open>to_le_bytes\<close>, \<open>from_le_bytes\<close>).\<close>

fun to_le :: "nat \<Rightarrow> nat \<Rightarrow> byte list" where
  "to_le 0 n = []"
| "to_le (Suc w) n = word_of_nat (n mod 256) # to_le w (n div 256)"

fun from_le :: "byte list \<Rightarrow> nat" where
  "from_le [] = 0"
| "from_le (b # bs) = unat b + 256 * from_le bs"

lemma length_to_le [simp]: "length (to_le w n) = w"
  by (induction w n rule: to_le.induct) auto

lemma unat_word_of_nat_byte [simp]: "unat (word_of_nat (n mod 256) :: byte) = n mod 256"
  by (simp add: unat_of_nat)

lemma unat_byte_less: "unat (b :: byte) < 256"
  using unsigned_less [of b, where 'a = nat] by simp

lemma from_le_to_le: "n < 256 ^ w \<Longrightarrow> from_le (to_le w n) = n"
proof (induction w n rule: to_le.induct)
  case (2 w n)
  from "2.prems" have "n div 256 < 256 ^ w"
    by (simp add: less_mult_imp_div_less mult.commute)
  with "2.IH" show ?case by simp
qed simp

lemma from_le_bound: "from_le bs < 256 ^ length bs"
proof (induction bs)
  case (Cons b bs)
  have "unat b < 256" by (rule unat_byte_less)
  moreover from Cons have "from_le bs + 1 \<le> 256 ^ length bs" by simp
  then have "256 * (from_le bs + 1) \<le> 256 * 256 ^ length bs" by (rule mult_le_mono2)
  ultimately show ?case by simp
qed simp

lemma to_le_from_le: "length bs = w \<Longrightarrow> to_le w (from_le bs) = bs"
proof (induction bs arbitrary: w)
  case (Cons b bs)
  then obtain v where w: "w = Suc v" and v: "length bs = v" by (cases w) auto
  have "unat b < 256" by (rule unat_byte_less)
  then have "(unat b + 256 * from_le bs) mod 256 = unat b"
    and "(unat b + 256 * from_le bs) div 256 = from_le bs" by simp_all
  with w Cons.IH [OF v] show ?case by simp
qed simp

section \<open>Maps\<close>

text \<open>
  The laws a key-value map promises its clients. Inserting or removing a whole list of keys is
  what the hash ring does with the virtual nodes of a member, and is proved once for every map.
\<close>

locale map_impl =
  fixes get :: "'m \<Rightarrow> 'k \<Rightarrow> 'v option"
    and put :: "'k \<Rightarrow> 'v \<Rightarrow> 'm \<Rightarrow> 'm"
    and del :: "'k \<Rightarrow> 'm \<Rightarrow> 'm"
    and wf :: "'m \<Rightarrow> bool"
  assumes get_put: "wf m \<Longrightarrow> get (put k v m) k' = (if k' = k then Some v else get m k')"
    and get_del: "wf m \<Longrightarrow> get (del k m) k' = (if k' = k then None else get m k')"
    and wf_put: "wf m \<Longrightarrow> wf (put k v m)"
    and wf_del: "wf m \<Longrightarrow> wf (del k m)"
begin

lemma wf_put_all: "wf m \<Longrightarrow> wf (fold (\<lambda>k. put k v) ks m)"
  by (induction ks arbitrary: m) (auto intro: wf_put)

lemma wf_del_all: "wf m \<Longrightarrow> wf (fold del ks m)"
  by (induction ks arbitrary: m) (auto intro: wf_del)

lemma get_put_all: "wf m \<Longrightarrow>
    get (fold (\<lambda>k. put k v) ks m) k' = (if k' \<in> set ks then Some v else get m k')"
  by (induction ks arbitrary: m) (auto simp: get_put wf_put)

lemma get_del_all: "wf m \<Longrightarrow>
    get (fold del ks m) k' = (if k' \<in> set ks then None else get m k')"
  by (induction ks arbitrary: m) (auto simp: get_del wf_del)

end

subsection \<open>\<open>HashMap\<close>\<close>

type_synonym ('k, 'v) hash_map = "('k \<times> 'v) list"

definition hm_wf :: "('k, 'v) hash_map \<Rightarrow> bool" where
  "hm_wf m \<longleftrightarrow> distinct (map fst m)"

definition hm_get :: "('k, 'v) hash_map \<Rightarrow> 'k \<Rightarrow> 'v option" where
  "hm_get m k = map_of m k"

definition hm_insert :: "'k \<Rightarrow> 'v \<Rightarrow> ('k, 'v) hash_map \<Rightarrow> ('k, 'v) hash_map" where
  "hm_insert k v m = AList.update k v m"

definition hm_remove :: "'k \<Rightarrow> ('k, 'v) hash_map \<Rightarrow> ('k, 'v) hash_map" where
  "hm_remove k m = AList.delete k m"

text \<open>\<open>if let Some(v) = m.get_mut(k) { *v = f(*v) }\<close>\<close>

definition hm_modify :: "'k \<Rightarrow> ('v \<Rightarrow> 'v) \<Rightarrow> ('k, 'v) hash_map \<Rightarrow> ('k, 'v) hash_map" where
  "hm_modify k f m = map (\<lambda>(k', v). (k', if k' = k then f v else v)) m"

definition hm_values :: "('k, 'v) hash_map \<Rightarrow> 'v list" where
  "hm_values m = map snd m"

interpretation hm: map_impl hm_get hm_insert hm_remove hm_wf
  by unfold_locales
    (auto simp: hm_get_def hm_insert_def hm_remove_def hm_wf_def AList.update_conv'
      AList.delete_conv' AList.distinct_update AList.distinct_delete)

lemma map_fst_hm_modify [simp]: "map fst (hm_modify k f m) = map fst m"
  by (induction m) (auto simp: hm_modify_def)

lemma hm_wf_modify [simp]: "hm_wf (hm_modify k f m) = hm_wf m"
  by (simp add: hm_wf_def)

lemma length_hm_modify [simp]: "length (hm_modify k f m) = length m"
  by (simp add: hm_modify_def)

lemma hm_get_modify: "hm_get (hm_modify k f m) k' =
    (if k' = k then map_option f (hm_get m k) else hm_get m k')"
  by (induction m) (auto simp: hm_get_def hm_modify_def)

lemma hm_wf_Nil [simp]: "hm_wf []"
  by (simp add: hm_wf_def)

lemma hm_get_Nil [simp]: "hm_get [] k = None"
  by (simp add: hm_get_def)

lemma hm_get_Some_iff: "hm_wf m \<Longrightarrow> hm_get m k = Some v \<longleftrightarrow> (k, v) \<in> set m"
  by (simp add: hm_get_def hm_wf_def)

lemma hm_get_None_iff: "hm_get m k = None \<longleftrightarrow> k \<notin> fst ` set m"
  by (simp add: hm_get_def map_of_eq_None_iff)

lemma hm_get_SomeD: "hm_get m k = Some v \<Longrightarrow> (k, v) \<in> set m"
  by (simp add: hm_get_def map_of_SomeD)

lemma fst_hm_insert: "fst ` set (hm_insert k v m) = insert k (fst ` set m)"
  by (simp add: hm_insert_def AList.dom_update)

lemma fst_hm_remove: "fst ` set (hm_remove k m) = fst ` set m - {k}"
  by (auto simp: hm_remove_def AList.delete_eq)

lemma length_hm_insert: "length (hm_insert k v m) = (if k \<in> fst ` set m then length m else Suc (length m))"
  by (induction m) (auto simp: hm_insert_def)

lemma set_hm_insert: "hm_wf m \<Longrightarrow> set (hm_insert k v m) = insert (k, v) {p \<in> set m. fst p \<noteq> k}"
  by (induction m) (auto simp: hm_insert_def hm_wf_def image_iff)

lemma set_hm_remove: "set (hm_remove k m) = {p \<in> set m. fst p \<noteq> k}"
  by (auto simp: hm_remove_def AList.delete_eq)

declare hm.get_put [map_laws] hm.get_del [map_laws] hm_get_modify [map_laws]

subsection \<open>\<open>BTreeMap\<close>\<close>

type_synonym ('k, 'v) btree_map = "('k \<times> 'v) list"

definition bt_wf :: "('k::linorder, 'v) btree_map \<Rightarrow> bool" where
  "bt_wf m \<longleftrightarrow> sorted_wrt (<) (map fst m)"

fun bt_insert :: "'k::linorder \<Rightarrow> 'v \<Rightarrow> ('k, 'v) btree_map \<Rightarrow> ('k, 'v) btree_map" where
  "bt_insert k v [] = [(k, v)]"
| "bt_insert k v ((k', v') # m) =
     (if k < k' then (k, v) # (k', v') # m
      else if k = k' then (k, v) # m
      else (k', v') # bt_insert k v m)"

definition bt_remove :: "'k::linorder \<Rightarrow> ('k, 'v) btree_map \<Rightarrow> ('k, 'v) btree_map" where
  "bt_remove k m = filter (\<lambda>p. fst p \<noteq> k) m"

lemma fst_bt_insert: "fst ` set (bt_insert k v m) = insert k (fst ` set m)"
  by (induction k v m rule: bt_insert.induct) auto

lemma bt_wf_insert: "bt_wf m \<Longrightarrow> bt_wf (bt_insert k v m)"
proof (induction k v m rule: bt_insert.induct)
  case (2 k v k' v' m)
  have "x \<in> insert k (fst ` set m) \<Longrightarrow> k' < x" if "k' < k" for x
    using "2.prems" that by (auto simp: bt_wf_def)
  then have "\<forall>x \<in> set (map fst (bt_insert k v m)). k' < x" if "k' < k"
    using that fst_bt_insert [of k v m] by auto
  with 2 show ?case by (fastforce simp: bt_wf_def)
qed (simp add: bt_wf_def)

lemma bt_wf_remove: "bt_wf m \<Longrightarrow> bt_wf (bt_remove k m)"
  by (induction m) (auto simp: bt_wf_def bt_remove_def)

lemma bt_wf_distinct: "bt_wf m \<Longrightarrow> distinct (map fst m)"
  by (simp add: bt_wf_def strict_sorted_iff)

lemma map_of_bt_insert: "map_of (bt_insert k v m) = (map_of m)(k \<mapsto> v)"
  by (induction k v m rule: bt_insert.induct) (auto simp: fun_eq_iff)

lemma map_of_bt_remove: "map_of (bt_remove k m) k' = (if k' = k then None else map_of m k')"
  by (induction m) (auto simp: bt_remove_def)

interpretation bt: map_impl map_of bt_insert bt_remove bt_wf
  by unfold_locales (simp_all add: map_of_bt_insert map_of_bt_remove bt_wf_insert bt_wf_remove)

declare bt.get_put [map_laws] bt.get_del [map_laws]

lemma set_bt_insert: "bt_wf m \<Longrightarrow> set (bt_insert k v m) = insert (k, v) {p \<in> set m. fst p \<noteq> k}"
proof (induction k v m rule: bt_insert.induct)
  case (2 k v k' v' m)
  then have "p \<in> set m \<Longrightarrow> k' < fst p" for p by (auto simp: bt_wf_def)
  then have "p \<in> set m \<Longrightarrow> k \<le> k' \<Longrightarrow> fst p \<noteq> k" for p by (meson leD)
  with 2 show ?case by (auto simp: bt_wf_def)
qed simp

lemma set_bt_remove: "set (bt_remove k m) = {p \<in> set m. fst p \<noteq> k}"
  by (auto simp: bt_remove_def)

section \<open>Iterators and slices\<close>

text \<open>\<open>Iterator::min_by_key\<close> returns the first of several least elements.\<close>

fun min_by_key :: "('a \<Rightarrow> 'b::linorder) \<Rightarrow> 'a list \<Rightarrow> 'a option" where
  "min_by_key f [] = None"
| "min_by_key f (x # xs) = Some (fold (\<lambda>y acc. if f y < f acc then y else acc) xs x)"

lemma min_by_key_fold:
  "fold (\<lambda>y acc. if f y < f acc then y else acc) xs x \<in> insert x (set xs) \<and>
   (\<forall>y \<in> insert x (set xs). (f (fold (\<lambda>y acc. if f y < f acc then y else acc) xs x) :: 'b::linorder) \<le> f y)"
proof (induction xs arbitrary: x)
  case (Cons z xs)
  show ?case using Cons.IH [of "if f z < f x then z else x"] by (auto split: if_splits)
qed simp

lemma min_by_key_None [simp]: "min_by_key f xs = None \<longleftrightarrow> xs = []"
  by (cases xs) auto

lemma min_by_key_Some: "min_by_key f xs = Some x \<Longrightarrow> x \<in> set xs \<and> (\<forall>y \<in> set xs. f x \<le> f y)"
proof (cases xs)
  case (Cons z zs)
  then show "min_by_key f xs = Some x \<Longrightarrow> ?thesis" using min_by_key_fold [of f zs z] by auto
qed simp

lemma min_by_key_inj:
  assumes "inj_on f (set xs)" and "x \<in> set xs" and "\<And>y. y \<in> set xs \<Longrightarrow> f x \<le> f y"
  shows "min_by_key f xs = Some x"
proof -
  from assms(2) obtain z where z: "min_by_key f xs = Some z" by (cases xs) auto
  then have "z \<in> set xs" and "f z \<le> f x" using min_by_key_Some [OF z] assms(2) by auto
  with assms have "f z = f x" by (simp add: order.antisym)
  with assms(1,2) \<open>z \<in> set xs\<close> z show ?thesis by (auto dest: inj_onD)
qed

text \<open>The elements of a list at their first occurrence (a loop that keeps a \<open>seen\<close> set).\<close>

fun nub :: "'a list \<Rightarrow> 'a list" where
  "nub [] = []"
| "nub (x # xs) = x # filter (\<lambda>y. y \<noteq> x) (nub xs)"

lemma set_nub [simp]: "set (nub xs) = set xs"
  by (induction xs) auto

lemma distinct_nub [simp]: "distinct (nub xs)"
  by (induction xs) auto

lemma nub_filter: "nub (filter P xs) = filter P (nub xs)"
  by (induction xs) (auto simp: filter_filter conj_commute intro: filter_cong)

lemma length_nub: "length (nub xs) = card (set xs)"
  by (metis distinct_card distinct_nub set_nub)

text \<open>
  \<open>slice::partition_point\<close> and \<open>slice::binary_search_by\<close> halve the interval
  \<open>[lo, hi)\<close>. On a slice that is not partitioned (sorted) they still return an index; what
  index is only specified on a partitioned one.
\<close>

function pp_loop :: "('a \<Rightarrow> bool) \<Rightarrow> 'a list \<Rightarrow> nat \<Rightarrow> nat \<Rightarrow> nat" where
  "pp_loop P xs lo hi =
     (if lo < hi then
        let mid = lo + (hi - lo) div 2 in
        if P (xs ! mid) then pp_loop P xs (Suc mid) hi else pp_loop P xs lo mid
      else lo)"
  by pat_completeness auto
termination
  by (relation "measure (\<lambda>(P, xs, lo, hi). hi - lo)") auto

declare pp_loop.simps [simp del]

definition partition_point :: "('a \<Rightarrow> bool) \<Rightarrow> 'a list \<Rightarrow> nat" where
  "partition_point P xs = pp_loop P xs 0 (length xs)"

lemma pp_loop_step:
  assumes "lo < hi" and "mid = lo + (hi - lo) div 2"
  shows "pp_loop P xs lo hi = (if P (xs ! mid) then pp_loop P xs (Suc mid) hi else pp_loop P xs lo mid)"
  unfolding assms(2) using assms(1) by (subst pp_loop.simps) (simp add: Let_def)

lemma pp_loop_spec:
  assumes "lo \<le> n" "n \<le> hi" "\<And>i. i < n \<Longrightarrow> P (xs ! i)" "\<And>i. n \<le> i \<Longrightarrow> i < hi \<Longrightarrow> \<not> P (xs ! i)"
  shows "pp_loop P xs lo hi = n"
  using assms
proof (induction P xs lo hi rule: pp_loop.induct)
  case (1 P xs lo hi)
  show ?case
  proof (cases "lo < hi")
    case True
    define mid where "mid = lo + (hi - lo) div 2"
    from True have mid: "lo \<le> mid" "mid < hi" by (auto simp: mid_def)
    show ?thesis
    proof (cases "P (xs ! mid)")
      case P: True
      with "1.prems" mid have "Suc mid \<le> n" by (meson not_less_eq_eq)
      with P True "1.IH"(1) [OF True mid_def P] "1.prems" show ?thesis
        by (simp add: pp_loop_step [OF True mid_def])
    next
      case P: False
      with "1.prems" mid have "n \<le> mid" by (meson not_less)
      with P True "1.IH"(2) [OF True mid_def P] "1.prems" mid show ?thesis
        by (simp add: pp_loop_step [OF True mid_def])
    qed
  next
    case False
    with "1.prems" show ?thesis by (simp add: pp_loop.simps [of P xs lo hi])
  qed
qed

text \<open>On a partitioned slice the result is the number of leading elements that satisfy \<open>P\<close>.\<close>

definition partitioned :: "('a \<Rightarrow> bool) \<Rightarrow> 'a list \<Rightarrow> bool" where
  "partitioned P xs \<longleftrightarrow> (\<forall>x \<in> set (dropWhile P xs). \<not> P x)"

lemma partition_point_takeWhile:
  assumes "partitioned P xs"
  shows "partition_point P xs = length (takeWhile P xs)"
  unfolding partition_point_def
proof (rule pp_loop_spec)
  fix i assume "i < length (takeWhile P xs)"
  then show "P (xs ! i)" using nth_mem [of i "takeWhile P xs"]
    by (auto simp: takeWhile_nth dest: set_takeWhileD)
next
  fix i assume "length (takeWhile P xs) \<le> i" "i < length xs"
  then have "xs ! i = drop (length (takeWhile P xs)) xs ! (i - length (takeWhile P xs))"
    and "i - length (takeWhile P xs) < length (drop (length (takeWhile P xs)) xs)" by simp_all
  then have "xs ! i \<in> set (dropWhile P xs)" unfolding dropWhile_eq_drop by (metis nth_mem)
  then show "\<not> P (xs ! i)" using assms by (simp add: partitioned_def)
qed (simp_all add: length_takeWhile_le)

lemma partitioned_Cons:
  "partitioned P (x # xs) \<longleftrightarrow> (if P x then partitioned P xs else (\<forall>y \<in> set xs. \<not> P y))"
  unfolding partitioned_def dropWhile.simps by simp

lemma sorted_partitioned: "sorted (map f xs) \<Longrightarrow> partitioned (\<lambda>x. f x < t) xs"
proof (induction xs)
  case Nil
  show ?case by (simp add: partitioned_def)
next
  case (Cons x xs)
  have le: "y \<in> set xs \<Longrightarrow> f x \<le> f y" for y using Cons.prems by simp
  from Cons have "partitioned (\<lambda>x. f x < t) xs" by simp
  then show ?case using le unfolding partitioned_Cons by (auto dest: le_less_trans)
qed

datatype ordering = Less | Equal | Greater

definition cmp :: "'a::linorder \<Rightarrow> 'a \<Rightarrow> ordering" where
  "cmp a b = (if a < b then Less else if a = b then Equal else Greater)"

lemma cmp_simps [simp]:
  "a < b \<Longrightarrow> cmp a b = Less" "cmp a a = Equal" "b < a \<Longrightarrow> cmp a b = Greater"
  by (auto simp: cmp_def)

lemma cmp_Equal [simp]: "cmp a b = Equal \<longleftrightarrow> a = b"
  by (auto simp: cmp_def)

function bs_loop :: "('a \<Rightarrow> ordering) \<Rightarrow> 'a list \<Rightarrow> nat \<Rightarrow> nat \<Rightarrow> nat option" where
  "bs_loop c xs lo hi =
     (if lo < hi then
        let mid = lo + (hi - lo) div 2 in
        (case c (xs ! mid) of
           Equal \<Rightarrow> Some mid
         | Less \<Rightarrow> bs_loop c xs (Suc mid) hi
         | Greater \<Rightarrow> bs_loop c xs lo mid)
      else None)"
  by pat_completeness auto
termination
  by (relation "measure (\<lambda>(c, xs, lo, hi). hi - lo)") auto

declare bs_loop.simps [simp del]

text \<open>The \<open>Ok\<close> part of \<open>binary_search_by\<close>.\<close>

definition binary_search_by :: "('a \<Rightarrow> ordering) \<Rightarrow> 'a list \<Rightarrow> nat option" where
  "binary_search_by c xs = bs_loop c xs 0 (length xs)"

lemma bs_loop_step:
  assumes "lo < hi" and "mid = lo + (hi - lo) div 2"
  shows "bs_loop c xs lo hi =
    (case c (xs ! mid) of
       Equal \<Rightarrow> Some mid
     | Less \<Rightarrow> bs_loop c xs (Suc mid) hi
     | Greater \<Rightarrow> bs_loop c xs lo mid)"
  unfolding assms(2) using assms(1) by (subst bs_loop.simps) (simp add: Let_def)

lemma bs_loop_Some: "bs_loop c xs lo hi = Some i \<Longrightarrow> lo \<le> i \<and> i < hi \<and> c (xs ! i) = Equal"
proof (induction c xs lo hi rule: bs_loop.induct)
  case (1 c xs lo hi)
  define mid where "mid = lo + (hi - lo) div 2"
  show ?case
  proof (cases "lo < hi")
    case True
    then have mid: "lo \<le> mid" "mid < hi" by (auto simp: mid_def)
    with 1(1) [OF True mid_def] 1(2) [OF True mid_def] "1.prems" bs_loop_step [OF True mid_def, of c xs]
    show ?thesis by (cases "c (xs ! mid)") auto
  next
    case False
    with "1.prems" show ?thesis by (simp add: bs_loop.simps [of c xs lo hi])
  qed
qed

lemma bs_loop_None:
  assumes "bs_loop (\<lambda>x. cmp (f x) t) xs lo hi = None" and "lo \<le> i" "i < hi"
    and "\<And>j k. j \<le> k \<Longrightarrow> k < hi \<Longrightarrow> f (xs ! j) \<le> f (xs ! k)"
  shows "f (xs ! i) \<noteq> t"
  using assms
proof (induction "hi - lo" arbitrary: lo hi rule: less_induct)
  case less
  note mono = less.prems(4)
  define mid where "mid = lo + (hi - lo) div 2"
  have lt: "lo < hi" using less.prems(2,3) by simp
  then have mid: "lo \<le> mid" "mid < hi" by (auto simp: mid_def)
  note step = bs_loop_step [OF lt mid_def, of "\<lambda>x. cmp (f x) t" xs]
  consider (lt) "f (xs ! mid) < t" | (eq) "f (xs ! mid) = t" | (gt) "t < f (xs ! mid)"
    by (rule linorder_cases)
  then show ?case
  proof cases
    case lt
    with step less.prems(1) have rec: "bs_loop (\<lambda>x. cmp (f x) t) xs (Suc mid) hi = None" by simp
    show ?thesis
    proof (cases "i \<le> mid")
      case True
      from mono [OF True mid(2)] lt show ?thesis by simp
    next
      case False
      then show ?thesis
        using less.hyps [OF _ rec _ less.prems(3) mono] mid by simp
    qed
  next
    case eq
    with step less.prems(1) show ?thesis by simp
  next
    case gt
    with step less.prems(1) have rec: "bs_loop (\<lambda>x. cmp (f x) t) xs lo mid = None" by simp
    show ?thesis
    proof (cases "mid \<le> i")
      case True
      from mono [OF True less.prems(3)] gt show ?thesis by simp
    next
      case False
      have "\<And>j k. j \<le> k \<Longrightarrow> k < mid \<Longrightarrow> f (xs ! j) \<le> f (xs ! k)"
        using mono mid(2) less_trans by blast
      from less.hyps [OF _ rec less.prems(2) _ this] False mid show ?thesis by simp
    qed
  qed
qed

lemma binary_search_by_Some:
  "binary_search_by c xs = Some i \<Longrightarrow> i < length xs \<and> c (xs ! i) = Equal"
  unfolding binary_search_by_def by (drule bs_loop_Some) simp

lemma binary_search_sorted_None:
  assumes "sorted (map f xs)" and "binary_search_by (\<lambda>x. cmp (f x) t) xs = None" and "x \<in> set xs"
  shows "f x \<noteq> t"
proof -
  from assms(3) obtain i where i: "i < length xs" "x = xs ! i" by (auto simp: in_set_conv_nth)
  have le: "f (xs ! j) \<le> f (xs ! k)" if "j \<le> k" "k < length xs" for j k
    using sorted_nth_mono [OF assms(1) that(1)] that by simp
  from bs_loop_None [OF assms(2) [unfolded binary_search_by_def] _ i(1) le] i(2)
  show ?thesis by simp
qed

end
