(* ===== verification/Dfs_Types.thy ===== *)
theory Dfs_Types
  imports Prelude "HOL-Library.List_Lexorder"
begin

text \<open>
  The shared data types of \<^verbatim>\<open>dfs-common/src/types.rs\<close>: identifiers, cluster nodes, chunk locations
  and file metadata, with the operations that file gives them.

  A \<open>Uuid\<close> is a 128-bit word; its derived order on the sixteen bytes, which is also the order of its
  printed form, is the order of the word. A \<open>ChunkId\<close> (ordered like its printed form as well)
  holds the 32 bytes of its hash (\<open>wf_chunk_id\<close>). BLAKE3, bincode and the clock are parameters of the definitions that use them. Record fields carry a prefix (\<open>ni_\<close>, \<open>cl_\<close>, \<open>fm_\<close>)
  because several structs share field names.
\<close>

section \<open>Identifiers\<close>

type_synonym Uuid = "128 word"

type_synonym SocketAddr = "nat \<times> nat"

datatype NodeId = NodeId (node_uuid: Uuid)

datatype FileId = FileId (file_uuid: Uuid)

datatype ChunkId = ChunkId (hash: "byte list")

text \<open>The sixteen bytes of a \<open>Uuid\<close>, most significant first.\<close>

definition uuid_bytes :: "Uuid \<Rightarrow> byte list" where
  "uuid_bytes u = map (\<lambda>i. ucast (drop_bit (8 * (15 - i)) u)) [0..<16]"

lemma length_uuid_bytes [simp]: "length (uuid_bytes u) = 16"
  by (simp add: uuid_bytes_def)

instantiation NodeId :: linorder
begin

definition less_eq_NodeId :: "NodeId \<Rightarrow> NodeId \<Rightarrow> bool" where
  "less_eq_NodeId a b \<longleftrightarrow> node_uuid a \<le> node_uuid b"

definition less_NodeId :: "NodeId \<Rightarrow> NodeId \<Rightarrow> bool" where
  "less_NodeId a b \<longleftrightarrow> node_uuid a < node_uuid b"

instance
  by standard (auto simp: less_eq_NodeId_def less_NodeId_def NodeId.expand)

end

instantiation FileId :: linorder
begin

definition less_eq_FileId :: "FileId \<Rightarrow> FileId \<Rightarrow> bool" where
  "less_eq_FileId a b \<longleftrightarrow> file_uuid a \<le> file_uuid b"

definition less_FileId :: "FileId \<Rightarrow> FileId \<Rightarrow> bool" where
  "less_FileId a b \<longleftrightarrow> file_uuid a < file_uuid b"

instance
  by standard (auto simp: less_eq_FileId_def less_FileId_def FileId.expand)

end

instantiation ChunkId :: linorder
begin

definition less_eq_ChunkId :: "ChunkId \<Rightarrow> ChunkId \<Rightarrow> bool" where
  "less_eq_ChunkId a b \<longleftrightarrow> hash a \<le> hash b"

definition less_ChunkId :: "ChunkId \<Rightarrow> ChunkId \<Rightarrow> bool" where
  "less_ChunkId a b \<longleftrightarrow> hash a < hash b"

instance
  by standard (auto simp: less_eq_ChunkId_def less_ChunkId_def ChunkId.expand)

end

definition wf_chunk_id :: "ChunkId \<Rightarrow> bool" where
  "wf_chunk_id c \<longleftrightarrow> length (hash c) = 32"

definition PATCH_TOKEN_MARKER :: "byte list" where
  "PATCH_TOKEN_MARKER = [0xDF, 0x7C]"

definition looks_like_patch_token :: "ChunkId \<Rightarrow> bool" where
  "looks_like_patch_token c \<longleftrightarrow>
     hash c ! 0 = PATCH_TOKEN_MARKER ! 0 \<and> hash c ! 1 = PATCH_TOKEN_MARKER ! 1"

text \<open>\<open>blake3 bs\<close> is the digest of the concatenation of all updates of the hasher.\<close>

definition ascii_bytes :: "string \<Rightarrow> byte list" where
  "ascii_bytes s = map (\<lambda>c. word_of_nat (of_char c)) s"

definition patch_token_identity :: "(byte list \<Rightarrow> byte list) \<Rightarrow> ChunkId \<Rightarrow> ChunkId" where
  "patch_token_identity blake3 delta =
     (let h = blake3 (ascii_bytes ''dfs-patch-token'' @ hash delta) in
      ChunkId (h[0 := PATCH_TOKEN_MARKER ! 0, 1 := PATCH_TOKEN_MARKER ! 1]))"

definition from_bytes :: "byte list \<Rightarrow> ChunkId option" where
  "from_bytes bs = (if length bs = 32 then Some (ChunkId bs) else None)"

definition write_quorum :: "nat \<Rightarrow> nat" where
  "write_quorum rf = (if rf \<ge> 2 then 2 else max rf 1)"

section \<open>Cluster nodes\<close>

datatype NodeStatus = Online | Suspected | Failed | Leaving

datatype LeaveReason = Shutdown | ConnectionPressure | PlannedCompaction

record NodeInfo =
  ni_id :: NodeId
  ni_addr :: SocketAddr
  ni_name :: "string option"
  ni_status :: NodeStatus
  ni_last_heartbeat :: nat
  ni_leaving_at :: nat
  ni_leave_reason :: "LeaveReason option"
  ni_available_bytes :: nat
  ni_total_bytes :: nat

definition new_NodeInfo :: "nat \<Rightarrow> NodeId \<Rightarrow> SocketAddr \<Rightarrow> string option \<Rightarrow> NodeInfo" where
  "new_NodeInfo now nid addr name =
     \<lparr>ni_id = nid, ni_addr = addr, ni_name = name, ni_status = Online,
      ni_last_heartbeat = now, ni_leaving_at = 0, ni_leave_reason = None,
      ni_available_bytes = 0, ni_total_bytes = 0\<rparr>"

definition ni_update_heartbeat :: "nat \<Rightarrow> NodeInfo \<Rightarrow> NodeInfo" where
  "ni_update_heartbeat now n = n\<lparr>ni_last_heartbeat := now\<rparr>"

text \<open>A plain subtraction: a heartbeat stamped later than \<open>now\<close> wraps.\<close>

definition is_failed :: "nat \<Rightarrow> NodeInfo \<Rightarrow> nat \<Rightarrow> bool" where
  "is_failed now n timeout_secs \<longleftrightarrow> u64_sub now (ni_last_heartbeat n) > timeout_secs"

record NodeHealthGossip =
  g_node_id :: NodeId
  g_last_seen :: nat
  g_status :: NodeStatus

section \<open>Chunk locations and file metadata\<close>

definition CHUNK_SIZE :: nat where
  "CHUNK_SIZE = 4 * 1024 * 1024"

lemma CHUNK_SIZE_pos [simp]: "0 < CHUNK_SIZE"
  by (simp add: CHUNK_SIZE_def)

record ChunkLocation =
  cl_chunk_id :: ChunkId
  cl_nodes :: "NodeId list"
  cl_size :: nat
  cl_checksum :: "byte list"
  cl_file_offset :: "nat option"
  cl_written_at :: "nat option"
  cl_client_write_seq :: "nat option"
  cl_file_id :: "FileId option"

definition unwrap_or :: "'a \<Rightarrow> 'a option \<Rightarrow> 'a" where
  "unwrap_or d x = (case x of None \<Rightarrow> d | Some y \<Rightarrow> y)"

lemma unwrap_or_simps [simp]: "unwrap_or d None = d" "unwrap_or d (Some y) = y"
  by (simp_all add: unwrap_or_def)

definition written_at_secs :: "ChunkLocation \<Rightarrow> nat" where
  "written_at_secs l = unwrap_or 0 (cl_written_at l)"

datatype FileType = RegularFile | Directory | Symlink

record FileMetadata =
  fm_id :: FileId
  fm_path :: string
  fm_size :: nat
  fm_created_at :: nat
  fm_modified_at :: nat
  fm_mode :: nat
  fm_uid :: nat
  fm_gid :: nat
  fm_file_type :: FileType
  fm_chunk_locations :: "ChunkLocation list"
  fm_write_seq :: nat
  fm_symlink_target :: "string option"

definition new_FileMetadata :: "nat \<Rightarrow> FileId \<Rightarrow> string \<Rightarrow> FileType \<Rightarrow> FileMetadata" where
  "new_FileMetadata now fid path ft =
     \<lparr>fm_id = fid, fm_path = path, fm_size = 0, fm_created_at = now, fm_modified_at = now,
      fm_mode = (if ft = Directory then 7 * 64 + 5 * 8 + 5 else 6 * 64 + 4 * 8 + 4), fm_uid = 0, fm_gid = 0,
      fm_file_type = ft, fm_chunk_locations = [], fm_write_seq = 0, fm_symlink_target = None\<rparr>"

definition get_chunk_ids :: "FileMetadata \<Rightarrow> ChunkId list" where
  "get_chunk_ids m = map cl_chunk_id (fm_chunk_locations m)"

definition get_chunk_sizes :: "FileMetadata \<Rightarrow> nat list" where
  "get_chunk_sizes m = map cl_size (fm_chunk_locations m)"

definition offset_key :: "ChunkLocation \<Rightarrow> nat" where
  "offset_key l = unwrap_or u64_max (cl_file_offset l)"

definition chunk_pos_for_idx :: "ChunkLocation list \<Rightarrow> nat \<Rightarrow> nat option" where
  "chunk_pos_for_idx locs chunk_idx =
     binary_search_by (\<lambda>l. cmp (offset_key l) ((chunk_idx * CHUNK_SIZE) mod 2 ^ 64)) locs"

definition chunk_location_for_idx :: "FileMetadata \<Rightarrow> nat \<Rightarrow> ChunkLocation option" where
  "chunk_location_for_idx m chunk_idx =
     map_option (\<lambda>pos. fm_chunk_locations m ! pos) (chunk_pos_for_idx (fm_chunk_locations m) chunk_idx)"

text \<open>The mutable variant: \<open>f\<close> is what the caller does through the returned reference.\<close>

definition chunk_location_for_idx_mut ::
    "(ChunkLocation \<Rightarrow> ChunkLocation) \<Rightarrow> FileMetadata \<Rightarrow> nat \<Rightarrow> FileMetadata option" where
  "chunk_location_for_idx_mut f m chunk_idx =
     map_option (\<lambda>pos. m\<lparr>fm_chunk_locations := (fm_chunk_locations m)[pos := f (fm_chunk_locations m ! pos)]\<rparr>)
       (chunk_pos_for_idx (fm_chunk_locations m) chunk_idx)"

record FileMetadataLegacyV0 =
  v0_id :: FileId
  v0_path :: string
  v0_size :: nat
  v0_created_at :: nat
  v0_modified_at :: nat
  v0_mode :: nat
  v0_uid :: nat
  v0_gid :: nat
  v0_file_type :: FileType
  v0_chunk_locations :: "ChunkLocation list"
  v0_write_seq :: nat

definition from_legacy_v0 :: "FileMetadataLegacyV0 \<Rightarrow> FileMetadata" where
  "from_legacy_v0 v =
     \<lparr>fm_id = v0_id v, fm_path = v0_path v, fm_size = v0_size v,
      fm_created_at = v0_created_at v, fm_modified_at = v0_modified_at v, fm_mode = v0_mode v,
      fm_uid = v0_uid v, fm_gid = v0_gid v, fm_file_type = v0_file_type v,
      fm_chunk_locations = v0_chunk_locations v, fm_write_seq = v0_write_seq v,
      fm_symlink_target = None\<rparr>"

text \<open>\<open>de\<close> and \<open>de_v0\<close> are \<open>bincode::deserialize\<close> at the two record types.\<close>

definition deserialize_file_metadata ::
    "(byte list \<Rightarrow> 'e + FileMetadata) \<Rightarrow> (byte list \<Rightarrow> 'e + FileMetadataLegacyV0) \<Rightarrow>
     byte list \<Rightarrow> 'e + FileMetadata" where
  "deserialize_file_metadata de de_v0 bs =
     (case de bs of
        Inr m \<Rightarrow> Inr m
      | Inl _ \<Rightarrow> (case de_v0 bs of Inl e \<Rightarrow> Inl e | Inr v \<Rightarrow> Inr (from_legacy_v0 v)))"

section \<open>Properties\<close>

lemma length_patch_token:
  "length (blake3 (ascii_bytes ''dfs-patch-token'' @ hash delta)) = 32 \<Longrightarrow>
   wf_chunk_id (patch_token_identity blake3 delta)"
  by (simp add: patch_token_identity_def wf_chunk_id_def Let_def)

lemma patch_token_marked:
  "length (blake3 (ascii_bytes ''dfs-patch-token'' @ hash delta)) = 32 \<Longrightarrow>
   looks_like_patch_token (patch_token_identity blake3 delta)"
  by (simp add: patch_token_identity_def looks_like_patch_token_def Let_def)

lemma write_quorum_bounds: "1 \<le> write_quorum rf \<and> write_quorum rf \<le> max rf 1"
  by (simp add: write_quorum_def)

text \<open>
  The index lookup on a map sorted by offset, with the offset-less rows at the end: it finds the
  row at exactly \<open>chunk_idx * CHUNK_SIZE\<close>, and never an offset-less row.
\<close>

definition locs_sorted :: "ChunkLocation list \<Rightarrow> bool" where
  "locs_sorted locs \<longleftrightarrow> sorted (map offset_key locs)"

lemma target_not_max: "(chunk_idx * CHUNK_SIZE) mod 2 ^ 64 \<noteq> u64_max"
proof
  assume eq: "(chunk_idx * CHUNK_SIZE) mod 2 ^ 64 = u64_max"
  have "(chunk_idx * CHUNK_SIZE) mod 2 ^ 64 mod 2 = (0 :: nat)"
    by (simp add: CHUNK_SIZE_def mod_mod_cancel)
  with eq show False by (simp add: u64_max_def)
qed

lemma chunk_location_for_idx_Some:
  assumes "chunk_location_for_idx m chunk_idx = Some l" and "chunk_idx * CHUNK_SIZE < 2 ^ 64"
  shows "l \<in> set (fm_chunk_locations m) \<and> cl_file_offset l = Some (chunk_idx * CHUNK_SIZE)"
proof -
  from assms(1) obtain pos where pos: "chunk_pos_for_idx (fm_chunk_locations m) chunk_idx = Some pos"
    and l: "l = fm_chunk_locations m ! pos"
    by (auto simp: chunk_location_for_idx_def)
  from binary_search_by_Some [OF pos [unfolded chunk_pos_for_idx_def]]
  have "pos < length (fm_chunk_locations m)" and key: "offset_key l = (chunk_idx * CHUNK_SIZE) mod 2 ^ 64"
    using l by auto
  moreover from key have "cl_file_offset l = Some ((chunk_idx * CHUNK_SIZE) mod 2 ^ 64)"
    using target_not_max [of chunk_idx, symmetric]
    by (cases "cl_file_offset l") (simp_all add: offset_key_def)
  ultimately show ?thesis using l assms(2) by simp
qed

lemma chunk_location_for_idx_None:
  assumes "locs_sorted (fm_chunk_locations m)" and "chunk_location_for_idx m chunk_idx = None"
    and "chunk_idx * CHUNK_SIZE < 2 ^ 64" and "l \<in> set (fm_chunk_locations m)"
  shows "cl_file_offset l \<noteq> Some (chunk_idx * CHUNK_SIZE)"
proof -
  from assms(2) have "binary_search_by (\<lambda>l. cmp (offset_key l) (chunk_idx * CHUNK_SIZE))
      (fm_chunk_locations m) = None"
    using assms(3) by (simp add: chunk_location_for_idx_def chunk_pos_for_idx_def)
  from binary_search_sorted_None [OF assms(1) [unfolded locs_sorted_def] this assms(4)]
  show ?thesis by (auto simp: offset_key_def)
qed

end
