(* ===== verification/Hex_Codec.thy ===== *)
theory Hex_Codec
  imports Dfs_Types
begin

text \<open>
  The hexadecimal names of chunks: \<open>ChunkId::to_hex\<close> and \<open>storage_path_components\<close>
  (\<^verbatim>\<open>dfs-common/src/types.rs\<close>) and the two decoders, \<open>decode_hex_32\<close> of the metadata store and
  \<open>hex_to_bytes\<close> of the chunk store. A \<open>str\<close> is the list of its UTF-8 bytes; slicing inside a
  character panics, and so does slicing past the end.
\<close>

section \<open>Encoding\<close>

definition hex_digit :: "nat \<Rightarrow> char" where
  "hex_digit n = ''0123456789abcdef'' ! n"

definition hex_byte :: "byte \<Rightarrow> string" where
  "hex_byte b = [hex_digit (unat b div 16), hex_digit (unat b mod 16)]"

definition hex_encode :: "byte list \<Rightarrow> string" where
  "hex_encode bs = concat (map hex_byte bs)"

definition to_hex :: "ChunkId \<Rightarrow> string" where
  "to_hex c = hex_encode (hash c)"

definition storage_path_components :: "ChunkId \<Rightarrow> string \<times> string \<times> string" where
  "storage_path_components c =
     (let hex = to_hex c in (take 2 hex, take 2 (drop 2 hex), hex))"

section \<open>Decoding\<close>

definition to_digit16 :: "char \<Rightarrow> nat option" where
  "to_digit16 c =
     (let n = (of_char c :: nat) in
      if 48 \<le> n \<and> n \<le> 57 then Some (n - 48)
      else if 97 \<le> n \<and> n \<le> 102 then Some (n - 87)
      else if 65 \<le> n \<and> n \<le> 70 then Some (n - 55)
      else None)"

text \<open>\<open>u8::from_str_radix(_, 16)\<close> on a two-byte string: a leading \<open>+\<close> is accepted.\<close>

definition u8_from_hex2 :: "char \<Rightarrow> char \<Rightarrow> byte option" where
  "u8_from_hex2 a b =
     (if a = CHR ''+'' then map_option word_of_nat (to_digit16 b)
      else (case (to_digit16 a, to_digit16 b) of
              (Some x, Some y) \<Rightarrow> Some (word_of_nat (16 * x + y))
            | _ \<Rightarrow> None))"

text \<open>A byte that continues a multi-byte character is not a character boundary.\<close>

definition continuation :: "char \<Rightarrow> bool" where
  "continuation c \<longleftrightarrow> 128 \<le> (of_char c :: nat) \<and> (of_char c :: nat) < 192"

definition boundary :: "string \<Rightarrow> bool" where
  "boundary rest \<longleftrightarrow> (case rest of [] \<Rightarrow> True | c # _ \<Rightarrow> \<not> continuation c)"

fun hex_pairs :: "string \<Rightarrow> byte list option outcome" where
  "hex_pairs [] = Ret (Some [])"
| "hex_pairs [a] = Panic"
| "hex_pairs (a # b # rest) =
     (if boundary (a # b # rest) \<and> boundary rest then
        (case u8_from_hex2 a b of
           None \<Rightarrow> Ret None
         | Some x \<Rightarrow> (case hex_pairs rest of
                       Panic \<Rightarrow> Panic
                     | Ret r \<Rightarrow> Ret (map_option ((#) x) r)))
      else Panic)"

definition decode_hex_32 :: "string \<Rightarrow> byte list option outcome" where
  "decode_hex_32 s = (if length s \<noteq> 64 then Ret None else hex_pairs s)"

definition hex_to_bytes :: "string \<Rightarrow> byte list option outcome" where
  "hex_to_bytes s = hex_pairs s"

section \<open>Round trips\<close>

lemma digit_roundtrip: "n < 16 \<Longrightarrow> to_digit16 (hex_digit n) = Some n"
proof -
  have "\<forall>n \<in> set [0..<16]. to_digit16 (hex_digit n) = Some n" by code_simp
  then show "n < 16 \<Longrightarrow> ?thesis" by simp
qed

lemma hex_digit_ascii: "n < 16 \<Longrightarrow> \<not> continuation (hex_digit n) \<and> hex_digit n \<noteq> CHR ''+''"
proof -
  have "\<forall>n \<in> set [0..<16]. \<not> continuation (hex_digit n) \<and> hex_digit n \<noteq> CHR ''+''" by code_simp
  then show "n < 16 \<Longrightarrow> ?thesis" by simp
qed

lemma nibbles: "unat (b :: byte) div 16 < 16" "unat b mod 16 < 16"
  using unat_byte_less [of b] by (simp_all add: less_mult_imp_div_less)

lemma u8_roundtrip:
  "u8_from_hex2 (hex_digit (unat b div 16)) (hex_digit (unat b mod 16)) = Some b"
  using nibbles [of b] by (simp add: u8_from_hex2_def digit_roundtrip hex_digit_ascii)

lemma boundary_hex_encode: "boundary (hex_encode bs)"
  by (cases bs) (simp_all add: boundary_def hex_encode_def hex_byte_def hex_digit_ascii nibbles)

lemma length_hex_encode: "length (hex_encode bs) = 2 * length bs"
  by (induction bs) (simp_all add: hex_encode_def hex_byte_def)

lemma hex_pairs_encode: "hex_pairs (hex_encode bs) = Ret (Some bs)"
proof (induction bs)
  case (Cons b bs)
  have "hex_encode (b # bs) =
      hex_digit (unat b div 16) # hex_digit (unat b mod 16) # hex_encode bs"
    by (simp add: hex_encode_def hex_byte_def)
  with Cons boundary_hex_encode [of bs] boundary_hex_encode [of "b # bs"] show ?case
    by (simp add: u8_roundtrip)
qed (simp add: hex_encode_def)

text \<open>
  every chunk name the stores write is read back: both decoders invert \<open>to_hex\<close>, so two
  chunks never share a file name or a table key.
\<close>

theorem hex_roundtrip:
  assumes "wf_chunk_id c"
  shows "decode_hex_32 (to_hex c) = Ret (Some (hash c)) \<and> hex_to_bytes (to_hex c) = Ret (Some (hash c))"
  using assms
  by (simp add: decode_hex_32_def hex_to_bytes_def to_hex_def length_hex_encode hex_pairs_encode wf_chunk_id_def)

theorem hex_roundtrip_witness:
  "decode_hex_32 (to_hex (ChunkId (replicate 32 0xAB))) = Ret (Some (replicate 32 0xAB))"
  using hex_roundtrip [of "ChunkId (replicate 32 0xAB)"] by (simp add: wf_chunk_id_def)

end
