(* ===== verification/Hash_Ring.thy ===== *)
theory Hash_Ring
  imports Dfs_Types
begin

text \<open>
  The consistent hash ring of \<^verbatim>\<open>dfs-common/src/hash.rs\<close>. The ring is a \<open>BTreeMap\<close> from 64-bit
  positions to nodes; every member has \<open>virtual_nodes\<close> positions, the first eight bytes of
  BLAKE3 over its id and the index. BLAKE3 is the parameter \<open>blake3\<close>; no theorem assumes that it
  has no collisions unless it says so.

  Shown: the ring invariant and that every operation keeps it; that the replica walk equals a
  short reference definition (the distinct owners in ring order); and that removing a member
  leaves the order of the others unchanged.
\<close>

section \<open>Definitions\<close>

record ConsistentHashRing =
  hr_ring :: "(nat, NodeId) btree_map"
  hr_virtual_nodes :: nat
  hr_nodes :: "NodeId list"

definition new_ring :: "nat \<Rightarrow> ConsistentHashRing" where
  "new_ring v = \<lparr>hr_ring = [], hr_virtual_nodes = v, hr_nodes = []\<rparr>"

definition hash_node :: "(byte list \<Rightarrow> byte list) \<Rightarrow> NodeId \<Rightarrow> nat \<Rightarrow> nat" where
  "hash_node blake3 n i = from_le (take 8 (blake3 (uuid_bytes (node_uuid n) @ to_le 8 i)))"

definition hash_chunk :: "ChunkId \<Rightarrow> nat" where
  "hash_chunk c = from_le (take 8 (hash c))"

definition vnode_keys :: "(byte list \<Rightarrow> byte list) \<Rightarrow> nat \<Rightarrow> NodeId \<Rightarrow> nat list" where
  "vnode_keys blake3 v n = map (hash_node blake3 n) [0..<v]"

definition ring_add_node ::
    "(byte list \<Rightarrow> byte list) \<Rightarrow> NodeId \<Rightarrow> ConsistentHashRing \<Rightarrow> ConsistentHashRing" where
  "ring_add_node blake3 n r =
     r\<lparr>hr_nodes := (if n \<in> set (hr_nodes r) then hr_nodes r else hr_nodes r @ [n]),
       hr_ring := fold (\<lambda>k. bt_insert k n) (vnode_keys blake3 (hr_virtual_nodes r) n) (hr_ring r)\<rparr>"

definition ring_remove_node ::
    "(byte list \<Rightarrow> byte list) \<Rightarrow> NodeId \<Rightarrow> ConsistentHashRing \<Rightarrow> ConsistentHashRing" where
  "ring_remove_node blake3 n r =
     r\<lparr>hr_nodes := filter (\<lambda>m. m \<noteq> n) (hr_nodes r),
       hr_ring := fold bt_remove (vnode_keys blake3 (hr_virtual_nodes r) n) (hr_ring r)\<rparr>"

text \<open>\<open>self.ring.range(hash..).chain(self.ring.range(..))\<close>\<close>

definition ring_order :: "(nat, NodeId) btree_map \<Rightarrow> nat \<Rightarrow> NodeId list" where
  "ring_order ring h = map snd (filter (\<lambda>p. h \<le> fst p) ring) @ map snd ring"

text \<open>The loop of \<open>get_nodes\<close>: \<open>seen\<close> holds exactly the elements of \<open>result\<close>.\<close>

fun get_nodes_loop :: "nat \<Rightarrow> nat \<Rightarrow> NodeId list \<Rightarrow> NodeId list \<Rightarrow> NodeId list" where
  "get_nodes_loop n cnt [] result = result"
| "get_nodes_loop n cnt (node # rest) result =
     (if node \<notin> set result then
        let result' = result @ [node] in
        if length result' \<ge> n then result'
        else if length result' \<ge> cnt then result'
        else get_nodes_loop n cnt rest result'
      else if length result \<ge> cnt then result
      else get_nodes_loop n cnt rest result)"

definition get_nodes :: "ConsistentHashRing \<Rightarrow> ChunkId \<Rightarrow> nat \<Rightarrow> NodeId list" where
  "get_nodes r c n =
     (if hr_ring r = [] then []
      else get_nodes_loop n (length (hr_nodes r)) (ring_order (hr_ring r) (hash_chunk c)) [])"

definition get_primary_node :: "ConsistentHashRing \<Rightarrow> ChunkId \<Rightarrow> NodeId option" where
  "get_primary_node r c = (case get_nodes r c 1 of [] \<Rightarrow> None | x # _ \<Rightarrow> Some x)"

definition node_count :: "ConsistentHashRing \<Rightarrow> nat" where
  "node_count r = length (hr_nodes r)"

section \<open>The ring invariant\<close>

text \<open>
  Positions are in order, members are listed once, and every position belongs to a listed member
  and is one of that member's own hashes.
\<close>

definition ring_inv :: "(byte list \<Rightarrow> byte list) \<Rightarrow> ConsistentHashRing \<Rightarrow> bool" where
  "ring_inv blake3 r \<longleftrightarrow>
     bt_wf (hr_ring r) \<and> distinct (hr_nodes r) \<and>
     (\<forall>(k, n) \<in> set (hr_ring r). n \<in> set (hr_nodes r) \<and> k \<in> set (vnode_keys blake3 (hr_virtual_nodes r) n))"

lemma set_put_all: "bt_wf m \<Longrightarrow>
    set (fold (\<lambda>k. bt_insert k v) ks m) = {p \<in> set m. fst p \<notin> set ks} \<union> (\<lambda>k. (k, v)) ` set ks"
  by (induction ks arbitrary: m) (auto simp: set_bt_insert bt_wf_insert)

lemma set_del_all: "set (fold bt_remove ks m) = {p \<in> set m. fst p \<notin> set ks}"
  by (induction ks arbitrary: m) (auto simp: set_bt_remove)

lemma del_all_filter: "fold bt_remove ks m = filter (\<lambda>p. fst p \<notin> set ks) m"
  by (induction ks arbitrary: m) (auto simp: bt_remove_def intro: filter_cong)

lemma new_ring_inv: "ring_inv blake3 (new_ring v)"
  by (simp add: ring_inv_def new_ring_def bt_wf_def)

lemma ring_add_inv: "ring_inv blake3 r \<Longrightarrow> ring_inv blake3 (ring_add_node blake3 n r)"
  by (auto simp: ring_inv_def ring_add_node_def set_put_all bt.wf_put_all)

lemma ring_remove_inv: "ring_inv blake3 r \<Longrightarrow> ring_inv blake3 (ring_remove_node blake3 n r)"
  by (auto simp: ring_inv_def ring_remove_node_def set_del_all bt.wf_del_all)

section \<open>The replica walk\<close>

lemma nub_not_in_Cons: "filter (\<lambda>y. y \<notin> set acc) (nub (x # xs)) =
    (if x \<in> set acc then filter (\<lambda>y. y \<notin> set acc) (nub xs)
     else x # filter (\<lambda>y. y \<notin> set (acc @ [x])) (nub xs))"
  by (auto simp: filter_filter intro: filter_cong)

lemma get_nodes_loop_nub:
  assumes "length acc < max 1 n" and "distinct acc" and "set acc \<union> set xs \<subseteq> set members"
    and "distinct members" and "members \<noteq> []"
  shows "get_nodes_loop n (length members) xs acc =
         acc @ take (max 1 n - length acc) (filter (\<lambda>y. y \<notin> set acc) (nub xs))"
  using assms
proof (induction n "length members" xs acc rule: get_nodes_loop.induct)
  case (1 n result)
  then show ?case by simp
next
  case (2 n node rest result)
  have full: "set ys \<subseteq> set acc" if "length members \<le> length acc" "distinct acc"
    "set acc \<subseteq> set members" "set ys \<subseteq> set members" for ys acc
  proof -
    have "card (set members) \<le> card (set acc)" using that \<open>distinct members\<close>
      by (simp add: distinct_card)
    then have "set acc = set members" using that(3) by (meson card_seteq finite_set)
    with that(4) show ?thesis by simp
  qed
  have none: "filter (\<lambda>y. y \<notin> set acc) (nub ys) = []" if "set ys \<subseteq> set acc" for ys acc
    using that by (auto simp: filter_empty_conv)
  show ?case
  proof (cases "node \<in> set result")
    case True
    show ?thesis
    proof (cases "length members \<le> length result")
      case tot: True
      from full [OF tot 2(4), of "node # rest"] 2(5) have "set (node # rest) \<subseteq> set result" by simp
      from none [OF this] True tot show ?thesis by (simp del: nub.simps)
    next
      case False
      with True 2(2) 2(3-) show ?thesis by (simp add: nub_not_in_Cons del: nub.simps)
    qed
  next
    case False
    let ?r = "result @ [node]"
    have r: "distinct ?r" "set ?r \<subseteq> set members" "set rest \<subseteq> set members" using False 2(4,5) by auto
    consider (n) "n \<le> length ?r" | (tot) "\<not> n \<le> length ?r" "length members \<le> length ?r"
      | (go) "\<not> n \<le> length ?r" "\<not> length members \<le> length ?r" by blast
    then show ?thesis
    proof cases
      case n
      with 2(3) have "max 1 n - length result = 1" by auto
      with n False show ?thesis by (simp add: nub_not_in_Cons del: nub.simps)
    next
      case tot
      then have "filter (\<lambda>y. y \<notin> set ?r) (nub rest) = []" using full [OF tot(2) r(1,2,3)] none by blast
      with tot False 2(3) show ?thesis by (simp add: nub_not_in_Cons Let_def del: nub.simps)
    next
      case go
      with 2(1) [OF False, of ?r] r 2(3-) have
        "get_nodes_loop n (length members) rest ?r =
           ?r @ take (max 1 n - length ?r) (filter (\<lambda>y. y \<notin> set ?r) (nub rest))" by simp
      moreover have "max 1 n - length result = Suc (max 1 n - length ?r)" using go by simp
      ultimately show ?thesis using go False
        by (simp add: nub_not_in_Cons Let_def del: nub.simps)
    qed
  qed
qed

text \<open>The preference list of a chunk: every owner once, in ring order from the chunk's position.\<close>

definition preference :: "ConsistentHashRing \<Rightarrow> ChunkId \<Rightarrow> NodeId list" where
  "preference r c = nub (ring_order (hr_ring r) (hash_chunk c))"

lemma get_nodes_preference:
  assumes "ring_inv blake3 r"
  shows "get_nodes r c n = take (max 1 n) (preference r c)"
proof (cases "hr_ring r = []")
  case True
  then show ?thesis by (simp add: get_nodes_def preference_def ring_order_def)
next
  case False
  have sub: "set (ring_order (hr_ring r) (hash_chunk c)) \<subseteq> set (hr_nodes r)"
    using assms by (fastforce simp: ring_order_def ring_inv_def)
  moreover from False have "ring_order (hr_ring r) (hash_chunk c) \<noteq> []" by (simp add: ring_order_def)
  ultimately have "hr_nodes r \<noteq> []" by auto
  with sub False assms show ?thesis
    by (simp add: get_nodes_def preference_def ring_inv_def get_nodes_loop_nub)
qed

lemma preference_subset:
  "ring_inv blake3 r \<Longrightarrow> set (preference r c) = snd ` set (hr_ring r) \<and> set (preference r c) \<subseteq> set (hr_nodes r)"
  by (auto simp: preference_def ring_order_def ring_inv_def)

text \<open>
  C4: the replica walk of the ring returns distinct members in preference order, and exactly as
  many as were asked for as long as that many members own a position (at least one, even when none
  is asked for).
\<close>

theorem get_nodes_correct:
  assumes "ring_inv blake3 r"
  shows "get_nodes r c n = take (max 1 n) (preference r c) \<and>
         distinct (get_nodes r c n) \<and> set (get_nodes r c n) \<subseteq> set (hr_nodes r) \<and>
         length (get_nodes r c n) = min (max 1 n) (card (snd ` set (hr_ring r)))"
proof -
  have "length (preference r c) = card (snd ` set (hr_ring r))"
    using preference_subset [OF assms] by (metis distinct_card distinct_nub preference_def)
  then show ?thesis
    using get_nodes_preference [OF assms] preference_subset [OF assms, of c]
      set_take_subset [of "max 1 n" "preference r c"]
    by (auto simp: preference_def)
qed

section \<open>Membership changes\<close>

text \<open>No two different members share a position.\<close>

definition no_collision :: "(byte list \<Rightarrow> byte list) \<Rightarrow> nat \<Rightarrow> NodeId set \<Rightarrow> bool" where
  "no_collision blake3 v ns \<longleftrightarrow>
     (\<forall>m \<in> ns. \<forall>n \<in> ns. m \<noteq> n \<longrightarrow> set (vnode_keys blake3 v m) \<inter> set (vnode_keys blake3 v n) = {})"

lemma ring_remove_filter:
  assumes "ring_inv blake3 r" and "no_collision blake3 (hr_virtual_nodes r) (insert x (set (hr_nodes r)))"
  shows "hr_ring (ring_remove_node blake3 x r) = filter (\<lambda>p. snd p \<noteq> x) (hr_ring r)"
proof -
  have "k \<notin> set (vnode_keys blake3 (hr_virtual_nodes r) x) \<longleftrightarrow> n \<noteq> x"
    if "(k, n) \<in> set (hr_ring r)" for k n
  proof -
    from that assms(1) have n: "n \<in> set (hr_nodes r)" "k \<in> set (vnode_keys blake3 (hr_virtual_nodes r) n)"
      by (auto simp: ring_inv_def)
    show ?thesis
    proof (cases "n = x")
      case False
      with n assms(2) have "set (vnode_keys blake3 (hr_virtual_nodes r) n)
          \<inter> set (vnode_keys blake3 (hr_virtual_nodes r) x) = {}"
        unfolding no_collision_def by blast
      with n False show ?thesis by blast
    qed (use n in simp)
  qed
  then show ?thesis
    by (auto simp: ring_remove_node_def del_all_filter intro!: filter_cong)
qed

lemma ring_order_filter: "ring_order (filter (\<lambda>p. P (snd p)) ring) h = filter P (ring_order ring h)"
  by (simp add: ring_order_def filter_map comp_def filter_filter conj_commute)

text \<open>
  C5: removing a member never moves a chunk between the surviving members: the new replica list is
  the old preference list without the removed member, as long as no two members collide on a
  position.
\<close>

theorem remove_node_stable:
  assumes "ring_inv blake3 r" and "no_collision blake3 (hr_virtual_nodes r) (insert x (set (hr_nodes r)))"
  shows "get_nodes (ring_remove_node blake3 x r) c n =
         take (max 1 n) (filter (\<lambda>m. m \<noteq> x) (preference r c))"
proof -
  have "preference (ring_remove_node blake3 x r) c = filter (\<lambda>m. m \<noteq> x) (preference r c)"
    using ring_remove_filter [OF assms] ring_order_filter [of "\<lambda>m. m \<noteq> x"]
    by (simp add: preference_def nub_filter)
  with get_nodes_preference [OF ring_remove_inv [OF assms(1)]] show ?thesis by simp
qed

lemma ring_add_remove:
  assumes "ring_inv blake3 r" and "x \<notin> set (hr_nodes r)"
    and "no_collision blake3 (hr_virtual_nodes r) (insert x (set (hr_nodes r)))"
  shows "filter (\<lambda>p. snd p \<noteq> x) (hr_ring (ring_add_node blake3 x r)) = hr_ring r"
    (is "filter ?P ?ring = _")
proof -
  have dj: "k \<notin> set (vnode_keys blake3 (hr_virtual_nodes r) x) \<and> n \<noteq> x"
    if "(k, n) \<in> set (hr_ring r)" for k n
  proof -
    from that assms(1) have n: "n \<in> set (hr_nodes r)" "k \<in> set (vnode_keys blake3 (hr_virtual_nodes r) n)"
      by (auto simp: ring_inv_def)
    with assms(2) have "n \<noteq> x" by blast
    with n assms(3) have "set (vnode_keys blake3 (hr_virtual_nodes r) n)
        \<inter> set (vnode_keys blake3 (hr_virtual_nodes r) x) = {}"
      unfolding no_collision_def by blast
    with n \<open>n \<noteq> x\<close> show ?thesis by blast
  qed
  have wf: "bt_wf (hr_ring r)" "bt_wf ?ring"
    using assms(1) ring_add_inv [OF assms(1), of x] by (auto simp: ring_inv_def)
  have "sorted_wrt (<) (map fst (filter ?P ?ring))"
    using wf(2) unfolding bt_wf_def by (simp add: sorted_wrt_map sorted_wrt_filter)
  moreover have "set (filter ?P ?ring) = set (hr_ring r)"
    using wf(1) by (auto simp: ring_add_node_def set_put_all dest: dj)
  ultimately show ?thesis
    using wf(1) map_sorted_distinct_set_unique [of fst "filter ?P ?ring" "hr_ring r"]
    by (simp add: bt_wf_def strict_sorted_iff distinct_map)
qed

text \<open>
  adding a member only inserts it into the preference list of a chunk: the other members keep
  their order, so the replica list changes by at most the newcomer and what it pushes out.
\<close>

theorem add_node_stable:
  assumes "ring_inv blake3 r" and "x \<notin> set (hr_nodes r)"
    and "no_collision blake3 (hr_virtual_nodes r) (insert x (set (hr_nodes r)))"
  shows "filter (\<lambda>m. m \<noteq> x) (preference (ring_add_node blake3 x r) c) = preference r c"
proof -
  have "filter (\<lambda>m. m \<noteq> x) (ring_order (hr_ring (ring_add_node blake3 x r)) (hash_chunk c))
      = ring_order (hr_ring r) (hash_chunk c)"
    unfolding ring_order_filter [of "\<lambda>m. m \<noteq> x", symmetric] using ring_add_remove [OF assms] by simp
  then show ?thesis by (simp add: preference_def nub_filter [symmetric])
qed

section \<open>The interface to the cluster manager\<close>

text \<open>What the cluster manager relies on: who is a member after an addition or a removal.\<close>

locale ring_membership =
  fixes add :: "'n \<Rightarrow> 'r \<Rightarrow> 'r"
    and remove :: "'n \<Rightarrow> 'r \<Rightarrow> 'r"
    and members :: "'r \<Rightarrow> 'n list"
  assumes set_add: "set (members (add n r)) = insert n (set (members r))"
    and set_remove: "set (members (remove n r)) = set (members r) - {n}"
    and distinct_add: "distinct (members r) \<Longrightarrow> distinct (members (add n r))"
    and distinct_remove: "distinct (members r) \<Longrightarrow> distinct (members (remove n r))"
begin

lemma set_add_all: "set (members (fold add ns r)) = set ns \<union> set (members r)"
  by (induction ns arbitrary: r) (auto simp: set_add)

lemma set_remove_all: "set (members (fold remove ns r)) = set (members r) - set ns"
  by (induction ns arbitrary: r) (auto simp: set_remove)

lemma distinct_add_all: "distinct (members r) \<Longrightarrow> distinct (members (fold add ns r))"
  by (induction ns arbitrary: r) (auto simp: distinct_add)

lemma distinct_remove_all: "distinct (members r) \<Longrightarrow> distinct (members (fold remove ns r))"
  by (induction ns arbitrary: r) (auto simp: distinct_remove)

end

interpretation hr: ring_membership "ring_add_node blake3" "ring_remove_node blake3" hr_nodes for blake3
  by unfold_locales (auto simp: ring_add_node_def ring_remove_node_def)

lemma ring_add_all_inv: "ring_inv blake3 r \<Longrightarrow> ring_inv blake3 (fold (ring_add_node blake3) ns r)"
  by (induction ns arbitrary: r) (auto simp: ring_add_inv)

lemma ring_remove_all_inv: "ring_inv blake3 r \<Longrightarrow> ring_inv blake3 (fold (ring_remove_node blake3) ns r)"
  by (induction ns arbitrary: r) (auto simp: ring_remove_inv)

section \<open>Witnesses\<close>

text \<open>A concrete digest (the last id byte and the index) and a ring of two members with two positions each.\<close>

definition demo_hash :: "byte list \<Rightarrow> byte list" where
  "demo_hash bs = [bs ! 15, bs ! 16] @ replicate 30 0"

definition demo_ring :: ConsistentHashRing where
  "demo_ring = ring_add_node demo_hash (NodeId 2) (ring_add_node demo_hash (NodeId 1) (new_ring 2))"

lemma demo_ring_inv: "ring_inv demo_hash demo_ring"
  unfolding demo_ring_def by (intro ring_add_inv new_ring_inv)

lemma demo_keys: "vnode_keys demo_hash 2 (NodeId 1) = [1, 257]" "vnode_keys demo_hash 2 (NodeId 2) = [2, 258]"
  "vnode_keys demo_hash 2 (NodeId 3) = [3, 259]"
  by code_simp+

lemma demo_ring_eq: "demo_ring =
    \<lparr>hr_ring = [(1, NodeId 1), (2, NodeId 2), (257, NodeId 1), (258, NodeId 2)],
     hr_virtual_nodes = 2, hr_nodes = [NodeId 1, NodeId 2]\<rparr>"
  by (simp add: demo_ring_def ring_add_node_def new_ring_def demo_keys)

theorem get_nodes_correct_witness:
  "ring_inv demo_hash demo_ring \<and>
   length (get_nodes demo_ring (ChunkId (2 # replicate 31 0)) 5) = 2 \<and>
   distinct (get_nodes demo_ring (ChunkId (2 # replicate 31 0)) 5)"
proof -
  have "snd ` set (hr_ring demo_ring) = {NodeId 1, NodeId 2}" by (auto simp: demo_ring_eq)
  then have "card (snd ` set (hr_ring demo_ring)) = 2" by simp
  moreover from get_nodes_correct [OF demo_ring_inv]
  have "distinct (get_nodes demo_ring (ChunkId (2 # replicate 31 0)) 5)"
    and "length (get_nodes demo_ring (ChunkId (2 # replicate 31 0)) 5) =
      min (max 1 5) (card (snd ` set (hr_ring demo_ring)))" by blast+
  ultimately show ?thesis using demo_ring_inv by simp
qed

theorem remove_node_stable_witness:
  "get_nodes (ring_remove_node demo_hash (NodeId 2) demo_ring) (ChunkId (2 # replicate 31 0)) 2 = [NodeId 1]"
proof -
  have "no_collision demo_hash (hr_virtual_nodes demo_ring) (insert (NodeId 2) (set (hr_nodes demo_ring)))"
    by (simp add: no_collision_def demo_ring_eq demo_keys)
  moreover have "preference demo_ring (ChunkId (2 # replicate 31 0)) = [NodeId 2, NodeId 1]"
    by (simp add: preference_def ring_order_def demo_ring_eq hash_chunk_def) code_simp
  ultimately show ?thesis
    using remove_node_stable [OF demo_ring_inv, of "NodeId 2" "ChunkId (2 # replicate 31 0)" 2] by simp
qed

theorem add_node_stable_witness:
  "filter (\<lambda>m. m \<noteq> NodeId 3) (preference (ring_add_node demo_hash (NodeId 3) demo_ring) (ChunkId (replicate 32 0)))
     = preference demo_ring (ChunkId (replicate 32 0)) \<and> NodeId 3 \<notin> set (hr_nodes demo_ring)"
proof -
  have "no_collision demo_hash (hr_virtual_nodes demo_ring) (insert (NodeId 3) (set (hr_nodes demo_ring)))"
    by (simp add: no_collision_def demo_ring_eq demo_keys)
  moreover have "NodeId 3 \<notin> set (hr_nodes demo_ring)" by (simp add: demo_ring_eq)
  ultimately show ?thesis
    using add_node_stable [OF demo_ring_inv, of "NodeId 3" "ChunkId (replicate 32 0)"] by simp
qed

end
