(* ===== verification/Cluster.thy ===== *)
theory Cluster
  imports Hash_Ring
begin

text \<open>
  The cluster manager of \<^verbatim>\<open>dfs-server/src/cluster.rs\<close>: membership, heartbeats, gossip, leadership
  and quorum, graceful leave and the failure detector. Each operation runs under the manager's
  write locks and is one function on the state; \<open>now\<close> is the clock it reads. \<open>io\<close> says whether the
  write of \<^verbatim>\<open>cluster_size.json\<close> succeeds, \<open>blake3\<close> is the hash of the ring.

  Fields: the sockets, the connection pool and the log are left out; \<open>cm_size_file\<close> says whether
  \<^verbatim>\<open>known_cluster_size_file\<close> was set and \<open>cm_size_on_disk\<close> is the content of that file;
  \<open>cm_recovered\<close> counts the wake-ups of \<open>node_recovered_notify\<close>; the \<open>Instant\<close> in
  \<open>became_leader_at\<close> is a second on the monotonic clock.
\<close>

section \<open>State\<close>

record NodeCapacity =
  nc_available :: nat
  nc_total :: nat
  nc_last_updated :: nat

record ClusterManager =
  cm_local_node_id :: NodeId
  cm_local_addr :: SocketAddr
  cm_nodes :: "(NodeId, NodeInfo) hash_map"
  cm_hash_ring :: ConsistentHashRing
  cm_node_capacities :: "(NodeId, NodeCapacity) hash_map"
  cm_heartbeat_interval :: nat
  cm_failure_timeout :: nat
  cm_recovered :: nat
  cm_became_leader_at :: "nat option"
  cm_local_heal_bandwidth_mb :: nat
  cm_compaction_intents :: "(NodeId, nat) hash_map"
  cm_heartbeat_paused :: bool
  cm_known_cluster_size :: nat
  cm_size_file :: bool
  cm_size_on_disk :: "nat option"

definition resolve_became_leader_epoch ::
    "NodeId option \<Rightarrow> nat option \<Rightarrow> NodeId \<Rightarrow> nat \<Rightarrow> nat" where
  "resolve_became_leader_epoch prev_leader prev_since local_id now =
     (if prev_leader = Some local_id then unwrap_or now prev_since else now)"

definition new_cluster ::
    "(byte list \<Rightarrow> byte list) \<Rightarrow> nat \<Rightarrow> NodeId \<Rightarrow> SocketAddr \<Rightarrow> nat \<Rightarrow> nat \<Rightarrow> nat option \<Rightarrow> ClusterManager" where
  "new_cluster blake3 now local_id addr hb_interval ftimeout disk =
     \<lparr>cm_local_node_id = local_id, cm_local_addr = addr,
      cm_nodes = [(local_id, new_NodeInfo now local_id addr None)],
      cm_hash_ring = ring_add_node blake3 local_id (new_ring 100),
      cm_node_capacities = [], cm_heartbeat_interval = hb_interval, cm_failure_timeout = ftimeout,
      cm_recovered = 0, cm_became_leader_at = None, cm_local_heal_bandwidth_mb = 0,
      cm_compaction_intents = [], cm_heartbeat_paused = False,
      cm_known_cluster_size = 1, cm_size_file = False, cm_size_on_disk = disk\<rparr>"

section \<open>Known cluster size and quorum\<close>

definition persist_known_cluster_size :: "bool \<Rightarrow> ClusterManager \<Rightarrow> ClusterManager" where
  "persist_known_cluster_size io s =
     (if cm_size_file s \<and> io then s\<lparr>cm_size_on_disk := Some (cm_known_cluster_size s)\<rparr> else s)"

definition note_cluster_size :: "bool \<Rightarrow> nat \<Rightarrow> ClusterManager \<Rightarrow> ClusterManager" where
  "note_cluster_size io n s =
     (let prev = cm_known_cluster_size s;
          s' = s\<lparr>cm_known_cluster_size := max prev n\<rparr>
      in if n > prev then persist_known_cluster_size io s' else s')"

text \<open>\<open>file\<close> is the parsed content of the size file, \<open>None\<close> when it is missing or malformed.\<close>

definition init_known_cluster_size :: "bool \<Rightarrow> nat option \<Rightarrow> nat \<Rightarrow> ClusterManager \<Rightarrow> ClusterManager" where
  "init_known_cluster_size io file members_hint s =
     (let persisted = unwrap_or 0 file;
          s1 = s\<lparr>cm_size_file := True\<rparr>;
          s2 = s1\<lparr>cm_known_cluster_size := max (cm_known_cluster_size s1) persisted\<rparr>;
          seen = length (cm_nodes s2)
      in note_cluster_size io (max members_hint seen) s2)"

definition forget_cluster_member :: "bool \<Rightarrow> ClusterManager \<Rightarrow> ClusterManager" where
  "forget_cluster_member io s =
     (let seen = length (cm_nodes s); cur = cm_known_cluster_size s;
          nxt = max (max (cur - 1) seen) 1
      in persist_known_cluster_size io (s\<lparr>cm_known_cluster_size := nxt\<rparr>))"

definition quorum_of :: "ClusterManager \<Rightarrow> nat \<Rightarrow> nat" where
  "quorum_of s members_seen = max members_seen (cm_known_cluster_size s) div 2 + 1"

definition set_local_heal_bandwidth_target :: "nat \<Rightarrow> ClusterManager \<Rightarrow> ClusterManager" where
  "set_local_heal_bandwidth_target mb s = s\<lparr>cm_local_heal_bandwidth_mb := mb\<rparr>"

section \<open>Membership\<close>

definition notify_recovered :: "ClusterManager \<Rightarrow> ClusterManager" where
  "notify_recovered s = s\<lparr>cm_recovered := Suc (cm_recovered s)\<rparr>"

definition add_node ::
    "(byte list \<Rightarrow> byte list) \<Rightarrow> bool \<Rightarrow> NodeInfo \<Rightarrow> ClusterManager \<Rightarrow> ClusterManager" where
  "add_node blake3 io info s =
     (let is_new = (hm_get (cm_nodes s) (ni_id info) = None);
          was_in_ring = (ni_id info \<in> set (hr_nodes (cm_hash_ring s)));
          s1 = s\<lparr>cm_hash_ring := ring_add_node blake3 (ni_id info) (cm_hash_ring s),
                 cm_nodes := hm_insert (ni_id info) info (cm_nodes s)\<rparr>;
          members_seen = length (cm_nodes s1);
          s2 = note_cluster_size io members_seen s1
      in if is_new \<or> \<not> was_in_ring then notify_recovered s2 else s2)"

definition remove_node :: "(byte list \<Rightarrow> byte list) \<Rightarrow> NodeId \<Rightarrow> ClusterManager \<Rightarrow> ClusterManager" where
  "remove_node blake3 n s =
     (case hm_get (cm_nodes s) n of
        None \<Rightarrow> s
      | Some _ \<Rightarrow> s\<lparr>cm_nodes := hm_remove n (cm_nodes s),
                    cm_hash_ring := ring_remove_node blake3 n (cm_hash_ring s)\<rparr>)"

definition update_heartbeat :: "nat \<Rightarrow> NodeId \<Rightarrow> ClusterManager \<Rightarrow> ClusterManager" where
  "update_heartbeat now n s =
     s\<lparr>cm_nodes := hm_modify n (\<lambda>i. (ni_update_heartbeat now i)\<lparr>ni_status := Online\<rparr>) (cm_nodes s)\<rparr>"

definition merge_gossip_entry ::
    "(byte list \<Rightarrow> byte list) \<Rightarrow> NodeHealthGossip \<Rightarrow> ClusterManager \<Rightarrow> ClusterManager" where
  "merge_gossip_entry blake3 g s =
     (if g_node_id g = cm_local_node_id s then s
      else (case hm_get (cm_nodes s) (g_node_id g) of
        None \<Rightarrow> s
      | Some n \<Rightarrow>
          if g_last_seen g > ni_last_heartbeat n then
            let s1 = s\<lparr>cm_nodes := hm_modify (g_node_id g)
                         (\<lambda>i. i\<lparr>ni_last_heartbeat := g_last_seen g\<rparr>) (cm_nodes s)\<rparr>
            in if g_status g = Online then
                 if ni_status n = Failed then
                   s1\<lparr>cm_nodes := hm_modify (g_node_id g) (\<lambda>i. i\<lparr>ni_status := Online\<rparr>) (cm_nodes s1),
                      cm_hash_ring := ring_add_node blake3 (g_node_id g) (cm_hash_ring s1)\<rparr>
                 else if ni_status n = Suspected then
                   s1\<lparr>cm_nodes := hm_modify (g_node_id g) (\<lambda>i. i\<lparr>ni_status := Online\<rparr>) (cm_nodes s1)\<rparr>
                 else s1
               else s1
          else s))"

definition merge_cluster_gossip ::
    "(byte list \<Rightarrow> byte list) \<Rightarrow> NodeHealthGossip list \<Rightarrow> ClusterManager \<Rightarrow> ClusterManager" where
  "merge_cluster_gossip blake3 gossip s = fold (merge_gossip_entry blake3) gossip s"

definition get_node :: "ClusterManager \<Rightarrow> NodeId \<Rightarrow> NodeInfo option" where
  "get_node s n = hm_get (cm_nodes s) n"

definition get_all_nodes :: "nat \<Rightarrow> ClusterManager \<Rightarrow> NodeInfo list" where
  "get_all_nodes now s =
     map (\<lambda>n. case hm_get (cm_node_capacities s) (ni_id n) of
                None \<Rightarrow> n
              | Some cap \<Rightarrow>
                  if nc_total cap > 0 \<and> now - nc_last_updated cap < 120
                  then n\<lparr>ni_available_bytes := nc_available cap, ni_total_bytes := nc_total cap\<rparr>
                  else n)
       (hm_values (cm_nodes s))"

definition mark_node_recovered ::
    "(byte list \<Rightarrow> byte list) \<Rightarrow> nat \<Rightarrow> NodeId \<Rightarrow> ClusterManager \<Rightarrow> ClusterManager" where
  "mark_node_recovered blake3 now n s =
     (case hm_get (cm_nodes s) n of
        None \<Rightarrow> s
      | Some i \<Rightarrow>
          if ni_status i = Failed then
            s\<lparr>cm_nodes := hm_modify n (\<lambda>i. ni_update_heartbeat now (i\<lparr>ni_status := Online\<rparr>)) (cm_nodes s),
              cm_hash_ring := ring_add_node blake3 n (cm_hash_ring s)\<rparr>
          else s)"

definition get_all_peer_addrs :: "ClusterManager \<Rightarrow> SocketAddr list" where
  "get_all_peer_addrs s =
     map ni_addr (filter (\<lambda>n. ni_id n \<noteq> cm_local_node_id s) (hm_values (cm_nodes s)))"

section \<open>Leadership\<close>

definition online_infos :: "ClusterManager \<Rightarrow> NodeInfo list" where
  "online_infos s = filter (\<lambda>n. ni_status n = Online) (hm_values (cm_nodes s))"

definition leader_with_quorum :: "ClusterManager \<Rightarrow> NodeId option" where
  "leader_with_quorum s =
     (let online_ids = map ni_id (online_infos s) in
      if length online_ids < quorum_of s (length (cm_nodes s)) then None
      else min_by_key (\<lambda>n. n) online_ids)"

definition is_leader :: "ClusterManager \<Rightarrow> bool" where
  "is_leader s \<longleftrightarrow> leader_with_quorum s = Some (cm_local_node_id s)"

definition get_leader_addr :: "ClusterManager \<Rightarrow> SocketAddr option" where
  "get_leader_addr s = map_option ni_addr (min_by_key ni_id (online_infos s))"

definition is_leader_id :: "NodeId \<Rightarrow> ClusterManager \<Rightarrow> bool" where
  "is_leader_id n s \<longleftrightarrow> min_by_key (\<lambda>m. m) (map ni_id (online_infos s)) = Some n"

definition has_quorum :: "ClusterManager \<Rightarrow> bool" where
  "has_quorum s \<longleftrightarrow> length (online_infos s) \<ge> quorum_of s (length (cm_nodes s))"

definition online_node_count :: "ClusterManager \<Rightarrow> nat" where
  "online_node_count s = length (online_infos s)"

definition all_members_online :: "ClusterManager \<Rightarrow> bool" where
  "all_members_online s \<longleftrightarrow>
     list_all (\<lambda>n. ni_status n = Online) (filter (\<lambda>n. ni_id n \<noteq> cm_local_node_id s) (hm_values (cm_nodes s)))"

definition notify_became_leader :: "nat \<Rightarrow> ClusterManager \<Rightarrow> ClusterManager" where
  "notify_became_leader inst s = s\<lparr>cm_became_leader_at := Some inst\<rparr>"

definition time_since_became_leader :: "nat \<Rightarrow> ClusterManager \<Rightarrow> nat option" where
  "time_since_became_leader inst s = map_option (\<lambda>t. inst - t) (cm_became_leader_at s)"

text \<open>\<open>Instant::checked_sub\<close> fails before the origin of the monotonic clock.\<close>

definition set_became_leader_epoch :: "nat \<Rightarrow> nat \<Rightarrow> nat \<Rightarrow> ClusterManager \<Rightarrow> ClusterManager" where
  "set_became_leader_epoch inst became_secs now_secs s =
     (let age = now_secs - became_secs in
      s\<lparr>cm_became_leader_at := Some (if age \<le> inst then inst - age else inst)\<rparr>)"

record ClusterStats =
  cs_total_nodes :: nat
  cs_online_nodes :: nat
  cs_failed_nodes :: nat

definition get_stats :: "ClusterManager \<Rightarrow> ClusterStats" where
  "get_stats s =
     \<lparr>cs_total_nodes = length (cm_nodes s), cs_online_nodes = length (online_infos s),
      cs_failed_nodes = length (filter (\<lambda>n. ni_status n = Failed) (hm_values (cm_nodes s)))\<rparr>"

section \<open>Graceful leave and planned compaction\<close>

definition LEAVING_GRACE_SECS :: nat where
  "LEAVING_GRACE_SECS = 60"

definition set_leaving ::
    "(byte list \<Rightarrow> byte list) \<Rightarrow> nat \<Rightarrow> NodeId \<Rightarrow> LeaveReason \<Rightarrow> ClusterManager \<Rightarrow> ClusterManager" where
  "set_leaving blake3 now n reason s =
     s\<lparr>cm_nodes := hm_modify n (\<lambda>i. i\<lparr>ni_status := Leaving, ni_leaving_at := now,
                                      ni_leave_reason := Some reason, ni_last_heartbeat := 0\<rparr>) (cm_nodes s),
       cm_hash_ring := ring_remove_node blake3 n (cm_hash_ring s)\<rparr>"

text \<open>The new state and the peers that are sent the \<open>GracefulLeave\<close> message.\<close>

definition announce_leaving :: "nat \<Rightarrow> LeaveReason \<Rightarrow> ClusterManager \<Rightarrow> ClusterManager \<times> SocketAddr list" where
  "announce_leaving now reason s =
     (let s' = s\<lparr>cm_nodes := hm_modify (cm_local_node_id s)
                   (\<lambda>i. i\<lparr>ni_status := Leaving, ni_leaving_at := now, ni_leave_reason := Some reason\<rparr>) (cm_nodes s)\<rparr>
      in (s', map ni_addr (filter (\<lambda>n. ni_id n \<noteq> cm_local_node_id s \<and> ni_status n \<noteq> Failed)
                (hm_values (cm_nodes s')))))"

definition announce_recovery :: "(byte list \<Rightarrow> byte list) \<Rightarrow> ClusterManager \<Rightarrow> ClusterManager" where
  "announce_recovery blake3 s =
     notify_recovered
      (s\<lparr>cm_nodes := hm_modify (cm_local_node_id s)
           (\<lambda>i. i\<lparr>ni_status := Online, ni_leaving_at := 0, ni_leave_reason := None\<rparr>) (cm_nodes s),
         cm_hash_ring := ring_add_node blake3 (cm_local_node_id s) (cm_hash_ring s)\<rparr>)"

definition record_compaction_intent :: "NodeId \<Rightarrow> nat \<Rightarrow> ClusterManager \<Rightarrow> ClusterManager" where
  "record_compaction_intent n ms s =
     s\<lparr>cm_compaction_intents := hm_insert n ms (cm_compaction_intents s)\<rparr>"

definition pause_heartbeats :: "ClusterManager \<Rightarrow> ClusterManager" where
  "pause_heartbeats s = s\<lparr>cm_heartbeat_paused := True\<rparr>"

definition resume_heartbeats :: "ClusterManager \<Rightarrow> ClusterManager" where
  "resume_heartbeats s = s\<lparr>cm_heartbeat_paused := False\<rparr>"

section \<open>Capacity records\<close>

definition update_node_capacity :: "nat \<Rightarrow> NodeId \<Rightarrow> nat \<Rightarrow> nat \<Rightarrow> ClusterManager \<Rightarrow> ClusterManager" where
  "update_node_capacity now n available total_b s =
     s\<lparr>cm_node_capacities := hm_insert n \<lparr>nc_available = available, nc_total = total_b, nc_last_updated = now\<rparr>
         (cm_node_capacities s)\<rparr>"

definition cleanup_stale_capacities :: "ClusterManager \<Rightarrow> ClusterManager" where
  "cleanup_stale_capacities s =
     s\<lparr>cm_node_capacities :=
         fold (\<lambda>n caps. if n \<in> fst ` set (cm_nodes s) then caps else hm_remove n caps)
           (map fst (cm_node_capacities s)) (cm_node_capacities s)\<rparr>"

section \<open>The failure detector\<close>

datatype verdict = Keep | MarkedFailed | Recovered | Purge

definition check_node :: "nat \<Rightarrow> nat \<Rightarrow> nat \<Rightarrow> NodeInfo \<Rightarrow> NodeInfo \<times> verdict" where
  "check_node now ftimeout purge_threshold n =
     (let is_timed_out = now - ni_last_heartbeat n > ftimeout in
      case ni_status n of
        Online \<Rightarrow> if is_timed_out then (n\<lparr>ni_status := Suspected\<rparr>, Keep) else (n, Keep)
      | Suspected \<Rightarrow>
          if is_timed_out then (n\<lparr>ni_status := Failed\<rparr>, MarkedFailed)
          else (n\<lparr>ni_status := Online\<rparr>, Recovered)
      | Failed \<Rightarrow>
          if \<not> is_timed_out then (n\<lparr>ni_status := Online\<rparr>, Recovered)
          else if is_failed now n purge_threshold then (n, Purge) else (n, Keep)
      | Leaving \<Rightarrow>
          let grace_expired = (ni_leaving_at n > 0 \<and> now - ni_leaving_at n > LEAVING_GRACE_SECS) in
          if grace_expired then (n\<lparr>ni_status := Failed\<rparr>, MarkedFailed)
          else if \<not> is_timed_out then
            (n\<lparr>ni_status := Online, ni_leaving_at := 0, ni_leave_reason := None\<rparr>, Recovered)
          else (n, Keep))"

text \<open>\<open>self.failure_timeout * 24 * 3600 / self.failure_timeout\<close>, on 64 bits.\<close>

definition purge_threshold :: "nat \<Rightarrow> nat" where
  "purge_threshold ftimeout = ((ftimeout * 24 mod 2 ^ 64) * 3600 mod 2 ^ 64) div ftimeout"

definition verdicts :: "nat \<Rightarrow> ClusterManager \<Rightarrow> (NodeId \<times> NodeInfo \<times> verdict) list" where
  "verdicts now s =
     map (\<lambda>(k, n). (k, if k = cm_local_node_id s then (n, Keep)
                        else check_node now (cm_failure_timeout s) (purge_threshold (cm_failure_timeout s)) n))
       (cm_nodes s)"

definition with_verdict :: "verdict \<Rightarrow> (NodeId \<times> NodeInfo \<times> verdict) list \<Rightarrow> NodeId list" where
  "with_verdict v vs = map fst (filter (\<lambda>p. snd (snd p) = v) vs)"

definition check_failed_nodes ::
    "(byte list \<Rightarrow> byte list) \<Rightarrow> nat \<Rightarrow> ClusterManager \<Rightarrow> ClusterManager outcome" where
  "check_failed_nodes blake3 now s =
     (if cm_failure_timeout s = 0 then Panic
      else
        let vs = verdicts now s;
            nodes1 = map (\<lambda>(k, n, _). (k, n)) vs;
            ring1 = fold (ring_remove_node blake3) (with_verdict MarkedFailed vs) (cm_hash_ring s);
            recovered = with_verdict Recovered vs;
            ring2 = fold (ring_add_node blake3) recovered ring1;
            s1 = s\<lparr>cm_nodes := fold hm_remove (with_verdict Purge vs) nodes1, cm_hash_ring := ring2\<rparr>
        in Ret (if recovered = [] then s1 else notify_recovered s1))"

text \<open>One tick of the detector task: every tenth tick also drops the capacities of nodes that are gone.\<close>

definition detector_tick ::
    "(byte list \<Rightarrow> byte list) \<Rightarrow> nat \<Rightarrow> nat \<times> ClusterManager \<Rightarrow> (nat \<times> ClusterManager) outcome" where
  "detector_tick blake3 now st =
     (case st of (cleanup_counter, s) \<Rightarrow>
        (case check_failed_nodes blake3 now s of
           Panic \<Rightarrow> Panic
         | Ret s' \<Rightarrow>
             if cleanup_counter + 1 \<ge> 10 then Ret (0, cleanup_stale_capacities s')
             else Ret (cleanup_counter + 1, s')))"

section \<open>Outgoing heartbeats\<close>

record Heartbeat =
  hb_node_info :: NodeInfo
  hb_cluster_view :: "NodeHealthGossip list"
  hb_heal_bandwidth_target_mb :: "nat option"

definition send_heartbeats :: "nat \<Rightarrow> bool \<Rightarrow> ClusterManager \<Rightarrow> (SocketAddr \<times> Heartbeat) list" where
  "send_heartbeats now probe_failed s =
     (let cluster_view = map (\<lambda>n. \<lparr>g_node_id = ni_id n, g_last_seen = ni_last_heartbeat n,
                                   g_status = ni_status n\<rparr>) (hm_values (cm_nodes s));
          (avail, tot) = (case hm_get (cm_node_capacities s) (cm_local_node_id s) of
                            None \<Rightarrow> (0, 0) | Some cap \<Rightarrow> (nc_available cap, nc_total cap));
          target = (if is_leader s then Some (cm_local_heal_bandwidth_mb s) else None);
          info = (new_NodeInfo now (cm_local_node_id s) (cm_local_addr s) None)
                   \<lparr>ni_available_bytes := avail, ni_total_bytes := tot\<rparr>
      in map (\<lambda>(k, n). (ni_addr n, \<lparr>hb_node_info = info, hb_cluster_view = cluster_view,
                                    hb_heal_bandwidth_target_mb = target\<rparr>))
           (filter (\<lambda>(k, n). k \<noteq> cm_local_node_id s \<and> \<not> (ni_status n = Failed \<and> \<not> probe_failed)) (cm_nodes s)))"

text \<open>One tick of the sender task: the new probe counter (32 bits) and what is sent.\<close>

definition heartbeat_tick :: "nat \<Rightarrow> nat \<Rightarrow> ClusterManager \<Rightarrow> nat \<times> (SocketAddr \<times> Heartbeat) list" where
  "heartbeat_tick now probe_counter s =
     (if cm_heartbeat_paused s then (probe_counter, [])
      else let c = (probe_counter + 1) mod 2 ^ 32 in (c, send_heartbeats now (c mod 6 = 0) s))"

end
