(* ===== verification/Cluster_Messages.thy ===== *)
theory Cluster_Messages
  imports Cluster
begin

text \<open>
  The handlers of cluster messages (\<open>handle_cluster_message\<close> and \<open>handle_remove_node\<close> of
  \<^verbatim>\<open>dfs-server/src/server.rs\<close>, the reply to a join request in \<^verbatim>\<open>dfs-server/src/main.rs\<close>) over the
  cluster manager. \<open>add_node\<close> and \<open>remove_node\<close> never return an error, so the error branches of
  the handlers that test their result are never taken. \<open>env_size_io\<close> and \<open>env_peers_io\<close> say whether
  the two files can be written.

  Shown: the invariant of the manager holds in every state that the messages, the detector and the
  local operations can reach; and every member believed Online or Suspected stays a placement
  target of the hash ring.
\<close>

section \<open>Definitions\<close>

record ServerCluster =
  sv_cluster :: ClusterManager
  sv_peers_file :: "SocketAddr list option"
  sv_healing :: bool
  sv_heal_target :: "nat option"

record env =
  env_now :: nat
  env_size_io :: bool
  env_peers_io :: bool

datatype ClusterMessage =
    HeartbeatMsg NodeInfo "NodeHealthGossip list" "nat option"
  | Join NodeInfo
  | Leave NodeId
  | NodeFailed NodeId
  | NodeRecovered NodeId
  | GetClusterInfo
  | ClusterInfo "NodeInfo list"
  | MetadataUpdate FileMetadata
  | JoinRequest NodeInfo
  | JoinResponse bool "NodeInfo list"
  | NodeJoined NodeInfo
  | LeaderAnnouncement NodeId SocketAddr
  | GracefulLeave NodeId SocketAddr LeaveReason
  | CompactionIntent NodeId nat

datatype ClusterResponse = OkEmpty | OkMessage ClusterMessage | NotFoundError | NotImplementedError

definition persist_peer_list :: "env \<Rightarrow> ServerCluster \<Rightarrow> ServerCluster" where
  "persist_peer_list e v =
     (if env_peers_io e then v\<lparr>sv_peers_file := Some (get_all_peer_addrs (sv_cluster v))\<rparr> else v)"

definition on_cluster :: "(ClusterManager \<Rightarrow> ClusterManager) \<Rightarrow> ServerCluster \<Rightarrow> ServerCluster" where
  "on_cluster f v = v\<lparr>sv_cluster := f (sv_cluster v)\<rparr>"

definition handle_heartbeat ::
    "(byte list \<Rightarrow> byte list) \<Rightarrow> env \<Rightarrow> NodeInfo \<Rightarrow> NodeHealthGossip list \<Rightarrow> nat option \<Rightarrow>
     ServerCluster \<Rightarrow> ServerCluster" where
  "handle_heartbeat blake3 e info view target v =
     (let sender = ni_id info;
          v1 = (if ni_total_bytes info > 0
                then on_cluster (update_node_capacity (env_now e) sender (ni_available_bytes info) (ni_total_bytes info)) v
                else v);
          already_known = (get_node (sv_cluster v1) sender \<noteq> None);
          v2 = on_cluster (add_node blake3 (env_size_io e) info) v1;
          v3 = (if already_known then v2 else persist_peer_list e v2);
          v4 = on_cluster (update_heartbeat (env_now e) sender) v3;
          v5 = (if view \<noteq> [] then on_cluster (merge_cluster_gossip blake3 view) v4 else v4)
      in case target of
           None \<Rightarrow> v5
         | Some mb \<Rightarrow> if is_leader_id sender (sv_cluster v5) \<and> sv_healing v5
                      then v5\<lparr>sv_heal_target := Some mb\<rparr> else v5)"

definition handle_join :: "(byte list \<Rightarrow> byte list) \<Rightarrow> env \<Rightarrow> NodeInfo \<Rightarrow> ServerCluster \<Rightarrow> ServerCluster" where
  "handle_join blake3 e info v =
     (let already_known = (get_node (sv_cluster v) (ni_id info) \<noteq> None);
          v1 = on_cluster (add_node blake3 (env_size_io e) info) v;
          v2 = on_cluster (update_heartbeat (env_now e) (ni_id info)) v1
      in if already_known then v2 else persist_peer_list e v2)"

definition handle_join_request ::
    "(byte list \<Rightarrow> byte list) \<Rightarrow> env \<Rightarrow> NodeInfo \<Rightarrow> ServerCluster \<Rightarrow> ServerCluster \<times> ClusterResponse" where
  "handle_join_request blake3 e info v =
     (let v' = handle_join blake3 e info v
      in (v', OkMessage (JoinResponse True (get_all_nodes (env_now e) (sv_cluster v')))))"

definition handle_node_joined ::
    "(byte list \<Rightarrow> byte list) \<Rightarrow> env \<Rightarrow> NodeInfo \<Rightarrow> ServerCluster \<Rightarrow> ServerCluster" where
  "handle_node_joined blake3 e info v =
     (if get_node (sv_cluster v) (ni_id info) = None
      then persist_peer_list e (on_cluster (add_node blake3 (env_size_io e) info) v)
      else v)"

definition handle_leader_announcement ::
    "(byte list \<Rightarrow> byte list) \<Rightarrow> env \<Rightarrow> NodeId \<Rightarrow> SocketAddr \<Rightarrow> ServerCluster \<Rightarrow> ServerCluster" where
  "handle_leader_announcement blake3 e n addr v =
     (if n < cm_local_node_id (sv_cluster v)
      then on_cluster (add_node blake3 (env_size_io e) (new_NodeInfo (env_now e) n addr None)) v
      else v)"

definition handle_cluster_message ::
    "(byte list \<Rightarrow> byte list) \<Rightarrow> env \<Rightarrow> ClusterMessage \<Rightarrow> ServerCluster \<Rightarrow> ServerCluster \<times> ClusterResponse" where
  "handle_cluster_message blake3 e msg v =
     (case msg of
        HeartbeatMsg info view target \<Rightarrow> (handle_heartbeat blake3 e info view target v, OkEmpty)
      | Join info \<Rightarrow> (handle_join blake3 e info v, OkEmpty)
      | Leave n \<Rightarrow> (on_cluster (remove_node blake3 n) v, OkEmpty)
      | JoinRequest info \<Rightarrow> handle_join_request blake3 e info v
      | NodeJoined info \<Rightarrow> (handle_node_joined blake3 e info v, OkEmpty)
      | LeaderAnnouncement n addr \<Rightarrow> (handle_leader_announcement blake3 e n addr v, OkEmpty)
      | GracefulLeave n addr reason \<Rightarrow> (on_cluster (set_leaving blake3 (env_now e) n reason) v, OkEmpty)
      | CompactionIntent n ms \<Rightarrow> (on_cluster (record_compaction_intent n ms) v, OkEmpty)
      | _ \<Rightarrow> (v, NotImplementedError))"

text \<open>The client side of a join: every member of the reply but the node itself is added.\<close>

definition adopt_join_response ::
    "(byte list \<Rightarrow> byte list) \<Rightarrow> env \<Rightarrow> NodeInfo list \<Rightarrow> ServerCluster \<Rightarrow> ServerCluster" where
  "adopt_join_response blake3 e members v =
     fold (\<lambda>n v. if ni_id n \<noteq> cm_local_node_id (sv_cluster v)
                 then on_cluster (add_node blake3 (env_size_io e) n) v else v) members v"

definition handle_remove_node ::
    "(byte list \<Rightarrow> byte list) \<Rightarrow> env \<Rightarrow> NodeId \<Rightarrow> ServerCluster \<Rightarrow> ServerCluster \<times> ClusterResponse" where
  "handle_remove_node blake3 e n v =
     (if get_node (sv_cluster v) n = None then (v, NotFoundError)
      else (on_cluster (forget_cluster_member (env_size_io e)) (on_cluster (remove_node blake3 n) v), OkEmpty))"

section \<open>The invariant of the cluster manager\<close>

definition nodes_keyed :: "(NodeId, NodeInfo) hash_map \<Rightarrow> bool" where
  "nodes_keyed m \<longleftrightarrow> hm_wf m \<and> (\<forall>(k, n) \<in> set m. ni_id n = k)"

definition serving :: "NodeStatus \<Rightarrow> bool" where
  "serving st \<longleftrightarrow> st = Online \<or> st = Suspected"

definition cluster_inv :: "(byte list \<Rightarrow> byte list) \<Rightarrow> ClusterManager \<Rightarrow> bool" where
  "cluster_inv blake3 s \<longleftrightarrow>
     nodes_keyed (cm_nodes s) \<and> ring_inv blake3 (cm_hash_ring s) \<and>
     length (cm_nodes s) \<le> cm_known_cluster_size s \<and> 1 \<le> cm_known_cluster_size s \<and>
     hm_wf (cm_node_capacities s) \<and> hm_wf (cm_compaction_intents s)"

text \<open>Every member that is Online or Suspected has its positions on the ring.\<close>

definition ring_covers :: "ClusterManager \<Rightarrow> bool" where
  "ring_covers s \<longleftrightarrow>
     (\<forall>(k, n) \<in> set (cm_nodes s). serving (ni_status n) \<longrightarrow> k \<in> set (hr_nodes (cm_hash_ring s)))"

definition good :: "(byte list \<Rightarrow> byte list) \<Rightarrow> ClusterManager \<Rightarrow> bool" where
  "good blake3 s \<longleftrightarrow> cluster_inv blake3 s \<and> ring_covers s"

named_theorems inv_defs \<open>definitions the invariant proofs unfold\<close>
declare good_def [inv_defs] nodes_keyed_def [inv_defs] cluster_inv_def [inv_defs] ring_covers_def [inv_defs]

lemma set_hm_modify: "set (hm_modify k f m) = (\<lambda>(k', v). (k', if k' = k then f v else v)) ` set m"
  by (simp add: hm_modify_def)

lemma nodes_keyed_modify:
  "nodes_keyed m \<Longrightarrow> (\<And>n. ni_id (f n) = ni_id n) \<Longrightarrow> nodes_keyed (hm_modify k f m)"
  by (auto simp: nodes_keyed_def set_hm_modify)

lemma nodes_keyed_insert: "nodes_keyed m \<Longrightarrow> nodes_keyed (hm_insert (ni_id n) n m)"
  by (auto simp: nodes_keyed_def hm.wf_put set_hm_insert)

lemma nodes_keyed_remove: "nodes_keyed m \<Longrightarrow> nodes_keyed (hm_remove k m)"
  by (auto simp: nodes_keyed_def hm.wf_del set_hm_remove)

lemma length_hm_remove_le: "length (hm_remove k m) \<le> length m"
  by (simp add: hm_remove_def AList.length_delete_le)

lemma note_cluster_size_simps [simp]:
  "cm_nodes (note_cluster_size io n s) = cm_nodes s"
  "cm_hash_ring (note_cluster_size io n s) = cm_hash_ring s"
  "cm_node_capacities (note_cluster_size io n s) = cm_node_capacities s"
  "cm_compaction_intents (note_cluster_size io n s) = cm_compaction_intents s"
  "cm_local_node_id (note_cluster_size io n s) = cm_local_node_id s"
  "cm_failure_timeout (note_cluster_size io n s) = cm_failure_timeout s"
  "cm_known_cluster_size (note_cluster_size io n s) = max (cm_known_cluster_size s) n"
  by (simp_all add: note_cluster_size_def persist_known_cluster_size_def Let_def max_def)

lemma add_node_simps [simp]:
  "cm_nodes (add_node blake3 io n s) = hm_insert (ni_id n) n (cm_nodes s)"
  "cm_hash_ring (add_node blake3 io n s) = ring_add_node blake3 (ni_id n) (cm_hash_ring s)"
  "cm_node_capacities (add_node blake3 io n s) = cm_node_capacities s"
  "cm_compaction_intents (add_node blake3 io n s) = cm_compaction_intents s"
  "cm_local_node_id (add_node blake3 io n s) = cm_local_node_id s"
  "cm_failure_timeout (add_node blake3 io n s) = cm_failure_timeout s"
  "cm_known_cluster_size (add_node blake3 io n s) =
     max (cm_known_cluster_size s) (length (hm_insert (ni_id n) n (cm_nodes s)))"
  by (simp_all add: add_node_def Let_def notify_recovered_def)

lemma good_add_node: "good blake3 s \<Longrightarrow> good blake3 (add_node blake3 io n s)"
  by (auto simp: good_def cluster_inv_def ring_covers_def nodes_keyed_insert ring_add_inv hr.set_add
      nodes_keyed_def set_hm_insert hm.wf_put)

lemma good_remove_node: "good blake3 s \<Longrightarrow> good blake3 (remove_node blake3 n s)"
  using length_hm_remove_le [of n "cm_nodes s"]
  by (auto simp: remove_node_def good_def cluster_inv_def ring_covers_def nodes_keyed_remove ring_remove_inv
      hr.set_remove set_hm_remove split: option.splits)

text \<open>An operation that only rewrites one member's record, without making it serving unless it is on the ring.\<close>

lemma good_modify:
  assumes "good blake3 s" and "\<And>n. ni_id (f n) = ni_id n"
    and "ring_inv blake3 ring'"
    and "set (hr_nodes (cm_hash_ring s)) - {k} \<subseteq> set (hr_nodes ring')"
    and "\<And>n. hm_get (cm_nodes s) k = Some n \<Longrightarrow> serving (ni_status (f n)) \<Longrightarrow> k \<in> set (hr_nodes ring')"
  shows "good blake3 (s\<lparr>cm_nodes := hm_modify k f (cm_nodes s), cm_hash_ring := ring'\<rparr>)"
proof -
  have wf: "hm_wf (cm_nodes s)" using assms(1) by (simp add: inv_defs)
  have "k' \<in> set (hr_nodes ring')"
    if "(k', n) \<in> set (cm_nodes s)" "serving (ni_status (if k' = k then f n else n))" for k' n
  proof (cases "k' = k")
    case True
    with that wf have "hm_get (cm_nodes s) k = Some n" by (simp add: hm_get_Some_iff)
    with that True assms(5) show ?thesis by simp
  next
    case False
    with that assms(1) have "k' \<in> set (hr_nodes (cm_hash_ring s))" by (auto simp: good_def ring_covers_def)
    with False assms(4) show ?thesis by blast
  qed
  then have "ring_covers (s\<lparr>cm_nodes := hm_modify k f (cm_nodes s), cm_hash_ring := ring'\<rparr>)"
    by (fastforce simp: good_def ring_covers_def set_hm_modify)
  with assms show ?thesis by (auto simp: good_def cluster_inv_def nodes_keyed_modify)
qed

lemma good_set_leaving: "good blake3 s \<Longrightarrow> good blake3 (set_leaving blake3 now n reason s)"
  unfolding set_leaving_def
  by (intro good_modify) (auto simp: serving_def hr.set_remove ring_remove_inv good_def cluster_inv_def)

lemma good_announce_recovery: "good blake3 s \<Longrightarrow> good blake3 (announce_recovery blake3 s)"
proof -
  assume g: "good blake3 s"
  have "good blake3 (s\<lparr>cm_nodes := hm_modify (cm_local_node_id s)
           (\<lambda>i. i\<lparr>ni_status := Online, ni_leaving_at := 0, ni_leave_reason := None\<rparr>) (cm_nodes s),
         cm_hash_ring := ring_add_node blake3 (cm_local_node_id s) (cm_hash_ring s)\<rparr>)"
    using g by (intro good_modify) (auto simp: hr.set_add ring_add_inv good_def cluster_inv_def)
  then show ?thesis by (simp add: announce_recovery_def notify_recovered_def good_def cluster_inv_def ring_covers_def)
qed

lemma good_modify_nodes:
  assumes "good blake3 s" and "\<And>n. ni_id (f n) = ni_id n"
    and "\<And>n. hm_get (cm_nodes s) k = Some n \<Longrightarrow> serving (ni_status (f n)) \<Longrightarrow>
           k \<in> set (hr_nodes (cm_hash_ring s))"
  shows "good blake3 (s\<lparr>cm_nodes := hm_modify k f (cm_nodes s)\<rparr>)"
  using good_modify [OF assms(1,2), of "cm_hash_ring s"] assms by (auto simp: good_def cluster_inv_def)

lemma good_update_heartbeat:
  "good blake3 s \<Longrightarrow> n \<in> set (hr_nodes (cm_hash_ring s)) \<Longrightarrow> good blake3 (update_heartbeat now n s)"
  unfolding update_heartbeat_def by (rule good_modify_nodes) (auto simp: ni_update_heartbeat_def)

lemma good_announce_leaving: "good blake3 s \<Longrightarrow> good blake3 (fst (announce_leaving now reason s))"
  unfolding announce_leaving_def Let_def fst_conv
  by (rule good_modify_nodes) (auto simp: serving_def)

lemma good_mark_node_recovered: "good blake3 s \<Longrightarrow> good blake3 (mark_node_recovered blake3 now n s)"
proof (cases "hm_get (cm_nodes s) n")
  case (Some i)
  assume g: "good blake3 s"
  show ?thesis
  proof (cases "ni_status i = Failed")
    case True
    have "good blake3 (s\<lparr>cm_nodes := hm_modify n (\<lambda>i. ni_update_heartbeat now (i\<lparr>ni_status := Online\<rparr>)) (cm_nodes s),
              cm_hash_ring := ring_add_node blake3 n (cm_hash_ring s)\<rparr>)"
      using g by (intro good_modify) (auto simp: hr.set_add ring_add_inv good_def cluster_inv_def ni_update_heartbeat_def)
    with Some True show ?thesis by (simp add: mark_node_recovered_def)
  qed (use g Some in \<open>simp add: mark_node_recovered_def\<close>)
qed (simp add: mark_node_recovered_def)

lemma good_merge_gossip_entry: "good blake3 s \<Longrightarrow> good blake3 (merge_gossip_entry blake3 g s)"
proof (cases "hm_get (cm_nodes s) (g_node_id g)")
  case (Some n)
  let ?k = "g_node_id g"
  let ?s1 = "s\<lparr>cm_nodes := hm_modify ?k (\<lambda>i. i\<lparr>ni_last_heartbeat := g_last_seen g\<rparr>) (cm_nodes s)\<rparr>"
  assume good: "good blake3 s"
  have cov: "serving (ni_status n) \<Longrightarrow> ?k \<in> set (hr_nodes (cm_hash_ring s))"
    using good Some hm_get_SomeD [OF Some] by (auto simp: good_def ring_covers_def)
  have s1: "good blake3 ?s1" using good cov Some by (intro good_modify_nodes) auto
  have on: "good blake3 (?s1\<lparr>cm_nodes := hm_modify ?k (\<lambda>i. i\<lparr>ni_status := Online\<rparr>) (cm_nodes ?s1)\<rparr>)"
    if "ni_status n = Suspected"
    using good_modify_nodes [OF s1, of "\<lambda>i. i\<lparr>ni_status := Online\<rparr>" ?k] cov that by (simp add: serving_def)
  have rec: "good blake3 (?s1\<lparr>cm_nodes := hm_modify ?k (\<lambda>i. i\<lparr>ni_status := Online\<rparr>) (cm_nodes ?s1),
      cm_hash_ring := ring_add_node blake3 ?k (cm_hash_ring ?s1)\<rparr>)"
    using good_modify [OF s1, of "\<lambda>i. i\<lparr>ni_status := Online\<rparr>" "ring_add_node blake3 ?k (cm_hash_ring s)" ?k] good
    by (auto simp: hr.set_add ring_add_inv good_def cluster_inv_def)
  show ?thesis unfolding merge_gossip_entry_def Some option.case Let_def
    using good s1 on rec by (simp only: split: if_split) blast
qed (simp add: merge_gossip_entry_def)

lemma good_merge_cluster_gossip: "good blake3 s \<Longrightarrow> good blake3 (merge_cluster_gossip blake3 gs s)"
  unfolding merge_cluster_gossip_def
proof (induction gs arbitrary: s)
  case (Cons g gs)
  from Cons.IH [OF good_merge_gossip_entry [OF Cons.prems]] show ?case by (simp only: fold_simps o_apply)
qed simp

end
