(* ===== verification/Cluster_Reach.thy ===== *)
theory Cluster_Reach
  imports Cluster_Messages
begin

text \<open>
  The failure detector of the cluster manager and the states a server reaches: one step is a
  handled message, a detector tick or a local operation, in any order and with any arguments.
\<close>

section \<open>What one detector pass does to a member\<close>

definition checked :: "nat \<Rightarrow> ClusterManager \<Rightarrow> NodeId \<Rightarrow> NodeInfo \<Rightarrow> NodeInfo \<times> verdict" where
  "checked now s k n =
     (if k = cm_local_node_id s then (n, Keep)
      else check_node now (cm_failure_timeout s) (purge_threshold (cm_failure_timeout s)) n)"

lemma verdicts_checked: "verdicts now s = map (\<lambda>(k, n). (k, checked now s k n)) (cm_nodes s)"
  by (auto simp: verdicts_def checked_def)

lemma in_with_verdict:
  "hm_wf (cm_nodes s) \<Longrightarrow>
   k \<in> set (with_verdict v (verdicts now s)) \<longleftrightarrow> (\<exists>n. hm_get (cm_nodes s) k = Some n \<and> snd (checked now s k n) = v)"
  by (force simp: with_verdict_def verdicts_checked hm_get_Some_iff)

lemma hm_get_map_checked:
  "hm_get (map (\<lambda>(k, n, _). (k, n)) (verdicts now s)) k = map_option (\<lambda>n. fst (checked now s k n)) (hm_get (cm_nodes s) k)"
proof -
  have "map_of (map (\<lambda>(k, n, _). (k, n)) (map (\<lambda>(k, n). (k, checked now s k n)) m)) k =
      map_option (\<lambda>n. fst (checked now s k n)) (map_of m k)" for m
    by (induction m) (auto split: prod.splits)
  then show ?thesis by (simp add: hm_get_def verdicts_checked)
qed

lemma map_fst_checked: "map fst (map (\<lambda>(k, n, _). (k, n)) (verdicts now s)) = map fst (cm_nodes s)"
  by (simp add: verdicts_checked comp_def split_def)

lemma check_node_id: "ni_id (fst (check_node now t p n)) = ni_id n"
  by (simp add: check_node_def Let_def split: NodeStatus.splits)

lemma checked_id: "ni_id (fst (checked now s k n)) = ni_id n"
  by (simp add: checked_def check_node_id)

lemma length_del_all: "length (fold hm_remove ks m) \<le> length m"
proof (induction ks arbitrary: m)
  case (Cons k ks)
  from Cons [of "hm_remove k m"] length_hm_remove_le [of k m] show ?case by simp
qed simp

text \<open>The registry and the ring after a pass, member by member.\<close>

lemma check_failed_nodes_get:
  assumes "hm_wf (cm_nodes s)" and "check_failed_nodes blake3 now s = Ret s'"
  shows "hm_get (cm_nodes s') k =
      (case hm_get (cm_nodes s) k of
         None \<Rightarrow> None
       | Some n \<Rightarrow> if snd (checked now s k n) = Purge then None else Some (fst (checked now s k n)))"
    and "k \<in> set (hr_nodes (cm_hash_ring s')) \<longleftrightarrow>
      (case hm_get (cm_nodes s) k of
         None \<Rightarrow> k \<in> set (hr_nodes (cm_hash_ring s))
       | Some n \<Rightarrow> snd (checked now s k n) = Recovered \<or>
                   k \<in> set (hr_nodes (cm_hash_ring s)) \<and> snd (checked now s k n) \<noteq> MarkedFailed)"
    and "hm_wf (cm_nodes s')" and "length (cm_nodes s') \<le> length (cm_nodes s)"
proof -
  let ?vs = "verdicts now s"
  let ?m = "map (\<lambda>(k, n, _). (k, n)) ?vs"
  have s': "cm_nodes s' = fold hm_remove (with_verdict Purge ?vs) ?m"
    "cm_hash_ring s' = fold (ring_add_node blake3) (with_verdict Recovered ?vs)
       (fold (ring_remove_node blake3) (with_verdict MarkedFailed ?vs) (cm_hash_ring s))"
    using assms(2) by (auto simp: check_failed_nodes_def Let_def notify_recovered_def split: if_splits)
  have wf: "hm_wf ?m" using assms(1) unfolding hm_wf_def map_fst_checked .
  show "hm_get (cm_nodes s') k =
      (case hm_get (cm_nodes s) k of
         None \<Rightarrow> None
       | Some n \<Rightarrow> if snd (checked now s k n) = Purge then None else Some (fst (checked now s k n)))"
    by (simp add: s' hm.get_del_all [OF wf] in_with_verdict [OF assms(1)] hm_get_map_checked split: option.splits)
  show "k \<in> set (hr_nodes (cm_hash_ring s')) \<longleftrightarrow>
      (case hm_get (cm_nodes s) k of
         None \<Rightarrow> k \<in> set (hr_nodes (cm_hash_ring s))
       | Some n \<Rightarrow> snd (checked now s k n) = Recovered \<or>
                   k \<in> set (hr_nodes (cm_hash_ring s)) \<and> snd (checked now s k n) \<noteq> MarkedFailed)"
    by (auto simp: s' hr.set_add_all hr.set_remove_all in_with_verdict [OF assms(1)] split: option.splits)
  show "hm_wf (cm_nodes s')" using hm.wf_del_all [OF wf] by (simp add: s')
  show "length (cm_nodes s') \<le> length (cm_nodes s)"
    using length_del_all [of "with_verdict Purge ?vs" ?m] by (simp add: s' verdicts_checked)
qed

lemma check_failed_nodes_other:
  "check_failed_nodes blake3 now s = Ret s' \<Longrightarrow>
   cm_local_node_id s' = cm_local_node_id s \<and> cm_failure_timeout s' = cm_failure_timeout s \<and>
   cm_known_cluster_size s' = cm_known_cluster_size s \<and>
   cm_node_capacities s' = cm_node_capacities s \<and> cm_compaction_intents s' = cm_compaction_intents s"
  by (auto simp: check_failed_nodes_def Let_def notify_recovered_def split: if_splits)

lemma checked_serving:
  "serving (ni_status (fst (checked now s k n))) \<Longrightarrow> snd (checked now s k n) = Recovered \<or>
     serving (ni_status n) \<and> snd (checked now s k n) \<noteq> MarkedFailed"
  by (auto simp: checked_def check_node_def serving_def Let_def split: NodeStatus.splits if_splits)

lemma good_check_failed_nodes:
  assumes "good blake3 s" and "check_failed_nodes blake3 now s = Ret s'"
  shows "good blake3 s'"
proof -
  have wf: "hm_wf (cm_nodes s)" using assms(1) by (simp add: inv_defs)
  note get = check_failed_nodes_get [OF wf assms(2)]
  have id: "ni_id n = k" if "(k, n) \<in> set (cm_nodes s')" for k n
    using that get(1) [of k] assms(1) hm_get_SomeD [of "cm_nodes s" k]
    by (auto simp: hm_get_Some_iff [OF get(3), symmetric] checked_id inv_defs split: option.splits if_splits)
  have cov: "k \<in> set (hr_nodes (cm_hash_ring s'))"
    if "(k, n') \<in> set (cm_nodes s')" "serving (ni_status n')" for k n'
  proof -
    from that(1) have "hm_get (cm_nodes s') k = Some n'" using get(3) by (simp add: hm_get_Some_iff)
    then obtain n where n: "hm_get (cm_nodes s) k = Some n" "n' = fst (checked now s k n)"
      using get(1) [of k] by (auto split: option.splits if_splits)
    with that(2) have "snd (checked now s k n) = Recovered \<or>
        serving (ni_status n) \<and> snd (checked now s k n) \<noteq> MarkedFailed"
      by (simp add: checked_serving)
    moreover have "serving (ni_status n) \<Longrightarrow> k \<in> set (hr_nodes (cm_hash_ring s))"
      using assms(1) hm_get_SomeD [OF n(1)] by (auto simp: good_def ring_covers_def)
    ultimately show ?thesis using get(2) [of k] n(1) by auto
  qed
  have "ring_inv blake3 (cm_hash_ring s')"
    using assms by (auto simp: check_failed_nodes_def Let_def notify_recovered_def good_def cluster_inv_def
        ring_add_all_inv ring_remove_all_inv split: if_splits)
  with id cov get(3,4) assms(1) check_failed_nodes_other [OF assms(2)] show ?thesis
    by (auto simp: inv_defs)
qed

section \<open>Reachable states\<close>

inductive server_step :: "(byte list \<Rightarrow> byte list) \<Rightarrow> ServerCluster \<Rightarrow> ServerCluster \<Rightarrow> bool"
  for blake3 where
  message: "server_step blake3 v (fst (handle_cluster_message blake3 e msg v))"
| join_reply: "server_step blake3 v (adopt_join_response blake3 e members v)"
| operator_remove: "server_step blake3 v (fst (handle_remove_node blake3 e n v))"
| detector: "check_failed_nodes blake3 now (sv_cluster v) = Ret s' \<Longrightarrow> server_step blake3 v (v\<lparr>sv_cluster := s'\<rparr>)"
| capacity_cleanup: "server_step blake3 v (on_cluster cleanup_stale_capacities v)"
| capacity_refresh: "server_step blake3 v (on_cluster (update_node_capacity now n available total_b) v)"
| size_init: "server_step blake3 v (on_cluster (init_known_cluster_size io persisted hint) v)"
| leaving: "server_step blake3 v (on_cluster (\<lambda>s. fst (announce_leaving now reason s)) v)"
| recovery: "server_step blake3 v (on_cluster (announce_recovery blake3) v)"
| mark_recovered: "server_step blake3 v (on_cluster (mark_node_recovered blake3 now n) v)"
| own_intent: "server_step blake3 v (on_cluster (record_compaction_intent n ms) v)"
| became_leader: "server_step blake3 v (on_cluster (notify_became_leader inst) v)"
| leader_epoch: "server_step blake3 v (on_cluster (set_became_leader_epoch inst since now) v)"
| heal_target: "server_step blake3 v (on_cluster (set_local_heal_bandwidth_target mb) v)"
| pause: "server_step blake3 v (on_cluster pause_heartbeats v)"
| resume: "server_step blake3 v (on_cluster resume_heartbeats v)"

inductive server_reach :: "(byte list \<Rightarrow> byte list) \<Rightarrow> ServerCluster \<Rightarrow> bool" for blake3 where
  start: "server_reach blake3 \<lparr>sv_cluster = new_cluster blake3 now nid addr hb ft disk,
            sv_peers_file = peers, sv_healing = h, sv_heal_target = None\<rparr>"
| step: "server_reach blake3 v \<Longrightarrow> server_step blake3 v v' \<Longrightarrow> server_reach blake3 v'"

lemma good_new_cluster: "good blake3 (new_cluster blake3 now nid addr hb ft disk)"
  by (simp add: inv_defs new_cluster_def hm_wf_def new_NodeInfo_def ring_add_inv new_ring_inv hr.set_add)

lemma sv_cluster_simps [simp]:
  "sv_cluster (on_cluster f v) = f (sv_cluster v)"
  "sv_cluster (persist_peer_list e v) = sv_cluster v"
  by (simp_all add: on_cluster_def persist_peer_list_def)

lemma good_handle_join: "good blake3 (sv_cluster v) \<Longrightarrow> good blake3 (sv_cluster (handle_join blake3 e info v))"
proof -
  assume "good blake3 (sv_cluster v)"
  then have "good blake3 (update_heartbeat (env_now e) (ni_id info)
      (add_node blake3 (env_size_io e) info (sv_cluster v)))"
    by (intro good_update_heartbeat good_add_node) (simp_all add: hr.set_add)
  then show ?thesis by (simp add: handle_join_def Let_def)
qed

lemma good_update_node_capacity: "good blake3 s \<Longrightarrow> good blake3 (update_node_capacity now n a t s)"
  by (simp add: update_node_capacity_def good_def cluster_inv_def ring_covers_def hm.wf_put)

lemma good_handle_heartbeat:
  assumes "good blake3 (sv_cluster v)"
  shows "good blake3 (sv_cluster (handle_heartbeat blake3 e info view target v))"
proof -
  define s1 where "s1 = (if ni_total_bytes info > 0
    then update_node_capacity (env_now e) (ni_id info) (ni_available_bytes info) (ni_total_bytes info) (sv_cluster v)
    else sv_cluster v)"
  define s4 where "s4 = update_heartbeat (env_now e) (ni_id info) (add_node blake3 (env_size_io e) info s1)"
  define s5 where "s5 = (if view \<noteq> [] then merge_cluster_gossip blake3 view s4 else s4)"
  have "good blake3 s1"
  proof (cases "ni_total_bytes info > 0")
    case True
    show ?thesis unfolding s1_def if_P [OF True] by (intro good_update_node_capacity assms)
  next
    case False
    show ?thesis unfolding s1_def if_not_P [OF False] by (rule assms)
  qed
  then have "good blake3 s4" unfolding s4_def
    by (intro good_update_heartbeat good_add_node) (simp_all add: hr.set_add)
  then have "good blake3 s5" using good_merge_cluster_gossip [of blake3 s4 view] by (simp add: s5_def)
  moreover have "sv_cluster (handle_heartbeat blake3 e info view target v) = s5"
    by (simp add: handle_heartbeat_def Let_def s1_def s4_def s5_def split: option.splits)
  ultimately show ?thesis by simp
qed

lemma good_adopt: "good blake3 (sv_cluster v) \<Longrightarrow> good blake3 (sv_cluster (adopt_join_response blake3 e ms v))"
  unfolding adopt_join_response_def
proof (induction ms arbitrary: v)
  case (Cons m ms)
  from Cons.prems have "good blake3 (sv_cluster (if ni_id m \<noteq> cm_local_node_id (sv_cluster v)
      then on_cluster (add_node blake3 (env_size_io e) m) v else v))"
    using good_add_node [OF Cons.prems] by simp
  from Cons.IH [OF this] show ?case by (simp only: fold_simps o_apply)
qed simp

lemma good_message:
  "good blake3 (sv_cluster v) \<Longrightarrow> good blake3 (sv_cluster (fst (handle_cluster_message blake3 e msg v)))"
proof (cases msg)
  case (CompactionIntent n ms)
  assume "good blake3 (sv_cluster v)"
  with CompactionIntent show ?thesis
    by (simp add: handle_cluster_message_def record_compaction_intent_def good_def cluster_inv_def ring_covers_def hm.wf_put)
qed (simp_all add: handle_cluster_message_def handle_join_request_def handle_node_joined_def
      handle_leader_announcement_def Let_def good_handle_heartbeat good_handle_join good_remove_node
      good_add_node good_set_leaving del: add_node_simps)

lemma wf_cleanup: "hm_wf m \<Longrightarrow> hm_wf (fold (\<lambda>n caps. if n \<in> A then caps else hm_remove n caps) ns m)"
  by (induction ns arbitrary: m) (auto simp: hm.wf_del)

lemma good_forget: "good blake3 s \<Longrightarrow> good blake3 (forget_cluster_member io s)"
  by (auto simp: forget_cluster_member_def persist_known_cluster_size_def Let_def good_def cluster_inv_def ring_covers_def)

lemma server_step_good: "server_step blake3 v v' \<Longrightarrow> good blake3 (sv_cluster v) \<Longrightarrow> good blake3 (sv_cluster v')"
proof (induction rule: server_step.induct)
  case (operator_remove v e n)
  then show ?case
    using good_forget [OF good_remove_node [OF operator_remove]] by (simp add: handle_remove_node_def)
next
  case (size_init v io persisted hint)
  then show ?case
    by (auto simp: init_known_cluster_size_def Let_def good_def cluster_inv_def ring_covers_def)
next
  case (capacity_cleanup v)
  then show ?case
    by (simp add: cleanup_stale_capacities_def good_def cluster_inv_def ring_covers_def wf_cleanup)
next
  case (detector now v s')
  show ?case using good_check_failed_nodes [OF detector(2) detector(1)] by simp
qed (simp_all add: good_message good_adopt good_announce_leaving good_announce_recovery
      good_mark_node_recovered good_update_node_capacity,
     simp_all add: record_compaction_intent_def notify_became_leader_def set_became_leader_epoch_def
      set_local_heal_bandwidth_target_def pause_heartbeats_def resume_heartbeats_def
      good_def cluster_inv_def ring_covers_def hm.wf_put Let_def)

lemma server_reach_good: "server_reach blake3 v \<Longrightarrow> good blake3 (sv_cluster v)"
proof (induction rule: server_reach.induct)
  case (start now nid addr hb ft disk peers h)
  show ?case unfolding ServerCluster.select_convs by (rule good_new_cluster)
next
  case (step v v')
  then show ?case by (intro server_step_good [OF step(2)])
qed

end
