(* ===== verification/Cluster_Laws.thy ===== *)
theory Cluster_Laws
  imports Cluster_Reach
begin

text \<open>
  What the cluster manager guarantees: the invariant in every reachable state, who is leader and
  when two sides of a partition can both have one, the two strikes of the failure detector, the
  concession to an announced leader, and two ways in which the registry and the ring part company
  with what the comments of the code promise.
\<close>

section \<open>Online members\<close>

definition online_ids :: "ClusterManager \<Rightarrow> NodeId set" where
  "online_ids s = {k. \<exists>n. hm_get (cm_nodes s) k = Some n \<and> ni_status n = Online}"

lemma good_wf: "good blake3 s \<Longrightarrow> hm_wf (cm_nodes s)"
  by (simp add: inv_defs)

lemma good_keyed: "good blake3 s \<Longrightarrow> hm_get (cm_nodes s) k = Some n \<Longrightarrow> ni_id n = k"
  by (auto simp: inv_defs dest: hm_get_SomeD)

lemma online_ids_list:
  assumes "good blake3 s"
  shows "set (map ni_id (online_infos s)) = online_ids s" and "distinct (map ni_id (online_infos s))"
proof -
  have keyed: "map ni_id (hm_values (cm_nodes s)) = map fst (cm_nodes s)"
    using assms by (auto simp: inv_defs hm_values_def)
  show "set (map ni_id (online_infos s)) = online_ids s"
    using assms by (force simp: online_ids_def online_infos_def hm_values_def inv_defs hm_get_Some_iff)
  have "distinct (map ni_id (hm_values (cm_nodes s)))"
    unfolding keyed using assms by (simp add: inv_defs hm_wf_def)
  then show "distinct (map ni_id (online_infos s))" by (simp add: online_infos_def distinct_map_filter)
qed

lemma card_online: "good blake3 s \<Longrightarrow> length (online_infos s) = card (online_ids s)"
  using online_ids_list [of blake3 s] distinct_card by fastforce

lemma finite_online: "good blake3 s \<Longrightarrow> finite (online_ids s)"
  using online_ids_list(1) [of blake3 s] by (metis List.finite_set)

lemma quorum_majority: "quorum_of s m \<le> c \<longleftrightarrow> max m (cm_known_cluster_size s) < 2 * c"
  by (auto simp: quorum_of_def)

lemma leader_with_quorum_iff:
  assumes "good blake3 s"
  shows "leader_with_quorum s = Some k \<longleftrightarrow>
    k \<in> online_ids s \<and> (\<forall>j \<in> online_ids s. k \<le> j) \<and> cm_known_cluster_size s < 2 * card (online_ids s)"
proof -
  have len: "length (cm_nodes s) \<le> cm_known_cluster_size s" using assms by (simp add: inv_defs)
  have q: "length (map ni_id (online_infos s)) < quorum_of s (length (cm_nodes s)) \<longleftrightarrow>
      \<not> cm_known_cluster_size s < 2 * card (online_ids s)"
    using len by (simp add: card_online [OF assms] not_le [symmetric] quorum_majority max_def del: not_le)
  have m: "min_by_key (\<lambda>n. n) (map ni_id (online_infos s)) = Some k \<longleftrightarrow>
      k \<in> online_ids s \<and> (\<forall>j \<in> online_ids s. k \<le> j)"
    using min_by_key_Some [of "\<lambda>n. n" "map ni_id (online_infos s)" k]
      min_by_key_inj [of "\<lambda>n. n" "map ni_id (online_infos s)" k]
    unfolding online_ids_list(1) [OF assms] by (auto simp: inj_on_def)
  show ?thesis unfolding leader_with_quorum_def Let_def q using m by auto
qed

section \<open>Properties\<close>


text \<open>A reachable server considers itself leader exactly when it is itself Online, no Online
  member has a smaller id, and the Online members are a strict majority of the largest cluster size
  it has known.\<close>

theorem is_leader_iff:
  assumes "server_reach blake3 v"
  defines "s \<equiv> sv_cluster v"
  shows "is_leader s \<longleftrightarrow> cm_local_node_id s \<in> online_ids s \<and>
    (\<forall>j \<in> online_ids s. cm_local_node_id s \<le> j) \<and> cm_known_cluster_size s < 2 * card (online_ids s)"
  unfolding is_leader_def s_def by (rule leader_with_quorum_iff [OF server_reach_good [OF assms(1)]])

text \<open>C2. No split brain across a partition: two reachable servers whose Online members come from the
  same set of at most as many nodes as either has known cannot both have a leader with quorum
  unless some member is Online for both; and when both see the same members Online they name the
  same leader.\<close>

theorem no_split_brain:
  assumes "server_reach blake3 v1" and "server_reach blake3 v2"
  defines "s1 \<equiv> sv_cluster v1" and "s2 \<equiv> sv_cluster v2"
  assumes sub: "online_ids s1 \<union> online_ids s2 \<subseteq> members" and fin: "finite members"
    and k1: "card members \<le> cm_known_cluster_size s1" and k2: "card members \<le> cm_known_cluster_size s2"
    and l1: "leader_with_quorum s1 = Some a" and l2: "leader_with_quorum s2 = Some b"
  shows "online_ids s1 \<inter> online_ids s2 \<noteq> {} \<and> (online_ids s1 = online_ids s2 \<longrightarrow> a = b)"
proof
  have g1: "good blake3 s1" and g2: "good blake3 s2"
    using assms server_reach_good by (auto simp: s1_def s2_def)
  note f = finite_online [OF g1] finite_online [OF g2]
  show "online_ids s1 \<inter> online_ids s2 \<noteq> {}"
  proof
    assume "online_ids s1 \<inter> online_ids s2 = {}"
    then have "card (online_ids s1) + card (online_ids s2) = card (online_ids s1 \<union> online_ids s2)"
      by (simp add: card_Un_disjoint f)
    also have "\<dots> \<le> card members" by (rule card_mono [OF fin sub])
    finally show False
      using k1 k2 l1 l2 by (simp add: leader_with_quorum_iff [OF g1] leader_with_quorum_iff [OF g2])
  qed
  show "online_ids s1 = online_ids s2 \<longrightarrow> a = b"
    using l1 l2 by (auto simp: leader_with_quorum_iff [OF g1] leader_with_quorum_iff [OF g2] intro: order.antisym)
qed

text \<open>C3. Announcing a leader with a smaller id makes the receiver concede: whatever its state, it is
  not leader after the message. An announcement by any other node changes nothing.\<close>

theorem leader_announcement_concedes:
  fixes e :: env and n :: NodeId and addr :: SocketAddr
  assumes "server_reach blake3 v"
  defines "v' \<equiv> fst (handle_cluster_message blake3 e (LeaderAnnouncement n addr) v)"
  shows "if n < cm_local_node_id (sv_cluster v) then \<not> is_leader (sv_cluster v') else v' = v"
proof (cases "n < cm_local_node_id (sv_cluster v)")
  case True
  have "server_reach blake3 v'" unfolding v'_def by (intro server_reach.step [OF assms(1)] message)
  then have g: "good blake3 (sv_cluster v')" by (rule server_reach_good)
  have "hm_get (cm_nodes (sv_cluster v')) n = Some (new_NodeInfo (env_now e) n addr None)"
    using True good_wf [OF server_reach_good [OF assms(1)]]
    by (simp add: v'_def handle_cluster_message_def handle_leader_announcement_def hm.get_put new_NodeInfo_def)
  then have "n \<in> online_ids (sv_cluster v')" by (simp add: online_ids_def new_NodeInfo_def)
  moreover have "cm_local_node_id (sv_cluster v') = cm_local_node_id (sv_cluster v)"
    by (simp add: v'_def handle_cluster_message_def handle_leader_announcement_def)
  ultimately show ?thesis using True by (auto simp: is_leader_def leader_with_quorum_iff [OF g] dest!: bspec [of _ _ n])
qed (simp add: v'_def handle_cluster_message_def handle_leader_announcement_def)

text \<open>The failure detector never fails a member it has heard from: at the end of a pass, a
  registered remote member whose last heartbeat is at most \<open>failure_timeout\<close> old is Online and on
  the ring, whatever its status was, unless its announced leave has outlived the grace period.\<close>

theorem fresh_member_online:
  assumes "server_reach blake3 v" and "check_failed_nodes blake3 now (sv_cluster v) = Ret s'"
    and "hm_get (cm_nodes (sv_cluster v)) k = Some n" and "k \<noteq> cm_local_node_id (sv_cluster v)"
    and "now \<le> ni_last_heartbeat n + cm_failure_timeout (sv_cluster v)"
    and "ni_status n = Leaving \<longrightarrow> ni_leaving_at n = 0 \<or> now \<le> ni_leaving_at n + LEAVING_GRACE_SECS"
  shows "k \<in> online_ids s' \<and> k \<in> set (hr_nodes (cm_hash_ring s'))"
proof -
  let ?s = "sv_cluster v"
  have g: "good blake3 ?s" using assms(1) by (rule server_reach_good)
  have "good blake3 s'" using good_check_failed_nodes [OF g assms(2)] .
  moreover have "ni_status (fst (checked now ?s k n)) = Online \<and> snd (checked now ?s k n) \<noteq> Purge"
    using assms(4-6) by (cases "ni_status n") (auto simp: checked_def check_node_def Let_def)
  then have st: "\<exists>n'. hm_get (cm_nodes s') k = Some n' \<and> ni_status n' = Online"
    using check_failed_nodes_get(1) [OF good_wf [OF g] assms(2), of k] assms(3) by simp
  ultimately show ?thesis
    by (auto simp: online_ids_def inv_defs serving_def dest!: hm_get_SomeD)
qed

text \<open>Two strikes: an Online remote member silent for longer than \<open>failure_timeout\<close> is
  Suspected, and still a placement target, after one pass, and Failed and off the ring after the
  next, however soon that is.\<close>

theorem silent_member_fails:
  assumes "server_reach blake3 v" and "check_failed_nodes blake3 now (sv_cluster v) = Ret s1"
    and "check_failed_nodes blake3 now' s1 = Ret s2" and "now \<le> now'"
    and "hm_get (cm_nodes (sv_cluster v)) k = Some n" and "k \<noteq> cm_local_node_id (sv_cluster v)"
    and "ni_status n = Online" and "ni_last_heartbeat n + cm_failure_timeout (sv_cluster v) < now"
  shows "hm_get (cm_nodes s1) k = Some (n\<lparr>ni_status := Suspected\<rparr>) \<and> k \<in> set (hr_nodes (cm_hash_ring s1)) \<and>
    hm_get (cm_nodes s2) k = Some (n\<lparr>ni_status := Failed\<rparr>) \<and> k \<notin> set (hr_nodes (cm_hash_ring s2))"
proof -
  let ?s = "sv_cluster v"
  have g: "good blake3 ?s" using assms(1) by (rule server_reach_good)
  have g1: "good blake3 s1" using good_check_failed_nodes [OF g assms(2)] .
  note get1 = check_failed_nodes_get(1,2) [OF good_wf [OF g] assms(2), of k]
  note get2 = check_failed_nodes_get(1,2) [OF good_wf [OF g1] assms(3), of k]
  have c1: "checked now ?s k n = (n\<lparr>ni_status := Suspected\<rparr>, Keep)"
    using assms(6-8) by (simp add: checked_def check_node_def)
  then have s1: "hm_get (cm_nodes s1) k = Some (n\<lparr>ni_status := Suspected\<rparr>)"
    using get1(1) assms(5) by simp
  have "checked now' s1 k (n\<lparr>ni_status := Suspected\<rparr>) = (n\<lparr>ni_status := Failed\<rparr>, MarkedFailed)"
    using check_failed_nodes_other [OF assms(2)] assms(4,6,8) by (simp add: checked_def check_node_def)
  then have "hm_get (cm_nodes s2) k = Some (n\<lparr>ni_status := Failed\<rparr>)" "k \<notin> set (hr_nodes (cm_hash_ring s2))"
    using get2 s1 by simp_all
  moreover have "k \<in> set (hr_nodes (cm_hash_ring s1))"
    using g1 hm_get_SomeD [OF s1] by (auto simp: inv_defs serving_def)
  ultimately show ?thesis using s1 by simp
qed

text \<open>A ghost target: a member that a join reply lists as Failed is put on the ring; if its last
  heartbeat is also older than the purge threshold, the next pass drops it from the registry and
  leaves it on the ring.\<close>

theorem adopted_failed_member_ghost:
  fixes e :: env
  assumes "server_reach blake3 v" and "ni_id m \<noteq> cm_local_node_id (sv_cluster v)" and "ni_status m = Failed"
    and "ni_last_heartbeat m + max (cm_failure_timeout (sv_cluster v)) (purge_threshold (cm_failure_timeout (sv_cluster v))) < now"
    and "now < 2 ^ 64"
    and "check_failed_nodes blake3 now (sv_cluster (adopt_join_response blake3 e [m] v)) = Ret s'"
  shows "get_node s' (ni_id m) = None \<and> ni_id m \<in> set (hr_nodes (cm_hash_ring s'))"
proof -
  let ?s = "sv_cluster (adopt_join_response blake3 e [m] v)"
  have g: "good blake3 ?s" by (rule good_adopt [OF server_reach_good [OF assms(1)]])
  have s: "?s = add_node blake3 (env_size_io e) m (sv_cluster v)"
    using assms(2) by (simp add: adopt_join_response_def)
  have m: "hm_get (cm_nodes ?s) (ni_id m) = Some m"
    using good_wf [OF server_reach_good [OF assms(1)]] by (simp add: s hm.get_put)
  have "checked now ?s (ni_id m) m = (m, Purge)"
    using assms(2-5) by (auto simp: s checked_def check_node_def is_failed_def u64_sub_le)
  moreover have "ni_id m \<in> set (hr_nodes (cm_hash_ring ?s))" by (simp add: s hr.set_add)
  ultimately show ?thesis
    using check_failed_nodes_get(1,2) [OF good_wf [OF g] assms(6), of "ni_id m"] m by (simp add: get_node_def)
qed

text \<open>Gossip cancels a graceful leave: \<open>set_leaving\<close> zeroes the heartbeat of the leaving member, so
  one gossip entry about it that is at most \<open>failure_timeout\<close> old, from any third member, makes the
  next pass within the grace period count it as rejoined, Online and back on the ring, without a
  heartbeat from the member itself.\<close>

theorem gossip_cancels_leave:
  fixes e :: env and addr :: SocketAddr and reason :: LeaveReason
  assumes "server_reach blake3 v" and "k \<noteq> cm_local_node_id (sv_cluster v)"
    and "get_node (sv_cluster v) k \<noteq> None"
  defines "v1 \<equiv> fst (handle_cluster_message blake3 e (GracefulLeave k addr reason) v)"
  assumes g: "g_node_id g = k" "0 < g_last_seen g" and fresh: "now \<le> g_last_seen g + cm_failure_timeout (sv_cluster v)"
    and grace: "now \<le> env_now e + LEAVING_GRACE_SECS"
  defines "s2 \<equiv> merge_cluster_gossip blake3 [g] (sv_cluster v1)"
  assumes check: "check_failed_nodes blake3 now s2 = Ret s'"
  shows "k \<notin> set (hr_nodes (cm_hash_ring (sv_cluster v1))) \<and> k \<in> online_ids s' \<and>
    k \<in> set (hr_nodes (cm_hash_ring s'))"
proof -
  have "server_reach blake3 v1" unfolding v1_def by (intro server_reach.step [OF assms(1)] message)
  then have g1: "good blake3 (sv_cluster v1)" by (rule server_reach_good)
  have s1: "sv_cluster v1 = set_leaving blake3 (env_now e) k reason (sv_cluster v)"
    by (simp add: v1_def handle_cluster_message_def)
  obtain n where n: "hm_get (cm_nodes (sv_cluster v)) k = Some n" using assms(3) by (auto simp: get_node_def)
  have n2: "hm_get (cm_nodes s2) k = Some (n\<lparr>ni_status := Leaving, ni_leaving_at := env_now e,
      ni_leave_reason := Some reason, ni_last_heartbeat := g_last_seen g\<rparr>)"
    using g assms(2) n by (simp add: s2_def merge_cluster_gossip_def merge_gossip_entry_def s1 set_leaving_def hm_get_modify Let_def)
  have other: "cm_local_node_id s2 = cm_local_node_id (sv_cluster v)" "cm_failure_timeout s2 = cm_failure_timeout (sv_cluster v)"
    by (auto simp: s2_def merge_cluster_gossip_def merge_gossip_entry_def s1 set_leaving_def Let_def split: option.splits)
  have c: "checked now s2 k (n\<lparr>ni_status := Leaving, ni_leaving_at := env_now e, ni_leave_reason := Some reason,
      ni_last_heartbeat := g_last_seen g\<rparr>) = (n\<lparr>ni_status := Online, ni_leaving_at := 0, ni_leave_reason := None,
      ni_last_heartbeat := g_last_seen g\<rparr>, Recovered)"
    using g fresh grace assms(2) by (auto simp: checked_def check_node_def other)
  have g2: "good blake3 s2" unfolding s2_def by (rule good_merge_cluster_gossip [OF g1])
  have "k \<notin> set (hr_nodes (cm_hash_ring (sv_cluster v1)))" by (simp add: s1 set_leaving_def hr.set_remove)
  with check_failed_nodes_get(1,2) [OF good_wf [OF g2] check, of k] n2 c show ?thesis
    by (simp add: online_ids_def)
qed

section \<open>Witnesses\<close>

definition demo_server :: ServerCluster where
  "demo_server = \<lparr>sv_cluster = new_cluster demo_hash 1000 (NodeId 2) (2, 2) 5 30 None, sv_peers_file = None,
     sv_healing = False, sv_heal_target = None\<rparr>"

definition demo_env :: env where
  "demo_env = \<lparr>env_now = 1000, env_size_io = True, env_peers_io = True\<rparr>"

definition demo_info :: NodeInfo where
  "demo_info = new_NodeInfo 1000 (NodeId 3) (3, 3) None"

definition demo_pair :: ServerCluster where
  "demo_pair = fst (handle_cluster_message demo_hash demo_env (NodeJoined demo_info) demo_server)"

lemma demo_server_reach: "server_reach demo_hash demo_server"
  unfolding demo_server_def by (rule start)

lemma demo_pair_reach: "server_reach demo_hash demo_pair"
  unfolding demo_pair_def by (intro server_reach.step [OF demo_server_reach] message)

lemma demo_pair_simps:
  "cm_nodes (sv_cluster demo_pair) = [(NodeId 2, new_NodeInfo 1000 (NodeId 2) (2, 2) None), (NodeId 3, demo_info)]"
  "cm_local_node_id (sv_cluster demo_pair) = NodeId 2" "cm_failure_timeout (sv_cluster demo_pair) = 30"
  "cm_known_cluster_size (sv_cluster demo_pair) = 2"
  by (simp_all add: demo_pair_def demo_server_def handle_cluster_message_def handle_node_joined_def
      new_cluster_def get_node_def demo_info_def new_NodeInfo_def hm_get_def hm_insert_def)

lemma demo_order [simp]: "NodeId 2 \<le> NodeId 3" "NodeId 1 < NodeId 2"
  by (simp_all add: less_eq_NodeId_def less_NodeId_def)

lemma demo_online: "online_ids (sv_cluster demo_pair) = {NodeId 2, NodeId 3}"
  by (auto simp: online_ids_def demo_pair_simps hm_get_def demo_info_def new_NodeInfo_def)

lemma check_failed_nodes_Ret: "cm_failure_timeout s \<noteq> 0 \<Longrightarrow> \<exists>s'. check_failed_nodes blake3 now s = Ret s'"
  by (simp add: check_failed_nodes_def Let_def)


theorem is_leader_iff_witness: "server_reach demo_hash demo_pair \<and> is_leader (sv_cluster demo_pair)"
  using is_leader_iff [OF demo_pair_reach] demo_pair_reach by (simp add: demo_online demo_pair_simps)

theorem no_split_brain_witness:
  "leader_with_quorum (sv_cluster demo_pair) = Some (NodeId 2) \<and>
   online_ids (sv_cluster demo_pair) \<inter> online_ids (sv_cluster demo_pair) \<noteq> {}"
proof -
  have l: "leader_with_quorum (sv_cluster demo_pair) = Some (NodeId 2)"
    by (simp add: leader_with_quorum_iff [OF server_reach_good [OF demo_pair_reach]] demo_online demo_pair_simps)
  have "online_ids (sv_cluster demo_pair) \<inter> online_ids (sv_cluster demo_pair) \<noteq> {}"
    using no_split_brain [OF demo_pair_reach demo_pair_reach _ _ _ _ l l, of "{NodeId 2, NodeId 3}"]
    by (simp add: demo_online demo_pair_simps)
  with l show ?thesis by simp
qed

theorem leader_announcement_concedes_witness:
  "is_leader (sv_cluster demo_pair) \<and>
   \<not> is_leader (sv_cluster (fst (handle_cluster_message demo_hash demo_env (LeaderAnnouncement (NodeId 1) (1, 1)) demo_pair)))"
proof -
  have "is_leader (sv_cluster demo_pair)"
    by (simp add: is_leader_def leader_with_quorum_iff [OF server_reach_good [OF demo_pair_reach]] demo_online demo_pair_simps)
  then show ?thesis
    using leader_announcement_concedes [OF demo_pair_reach, where n = "NodeId 1" and e = demo_env and addr = "(1, 1)"] by (simp add: demo_pair_simps)
qed

theorem fresh_member_online_witness:
  "\<exists>s'. check_failed_nodes demo_hash 1030 (sv_cluster demo_pair) = Ret s' \<and> NodeId 3 \<in> online_ids s'"
proof -
  obtain s' where c: "check_failed_nodes demo_hash 1030 (sv_cluster demo_pair) = Ret s'"
    using check_failed_nodes_Ret [of "sv_cluster demo_pair"] by (auto simp: demo_pair_simps)
  have "NodeId 3 \<in> online_ids s'"
    using fresh_member_online [OF demo_pair_reach c, of "NodeId 3" demo_info]
    by (simp add: demo_pair_simps hm_get_def demo_info_def new_NodeInfo_def)
  with c show ?thesis by blast
qed

theorem silent_member_fails_witness:
  "\<exists>s1 s2. check_failed_nodes demo_hash 1031 (sv_cluster demo_pair) = Ret s1 \<and>
     check_failed_nodes demo_hash 1031 s1 = Ret s2 \<and> NodeId 3 \<notin> set (hr_nodes (cm_hash_ring s2))"
proof -
  obtain s1 where c1: "check_failed_nodes demo_hash 1031 (sv_cluster demo_pair) = Ret s1"
    using check_failed_nodes_Ret [of "sv_cluster demo_pair"] by (auto simp: demo_pair_simps)
  obtain s2 where c2: "check_failed_nodes demo_hash 1031 s1 = Ret s2"
    using check_failed_nodes_Ret [of s1] check_failed_nodes_other [OF c1] by (auto simp: demo_pair_simps)
  have "NodeId 3 \<notin> set (hr_nodes (cm_hash_ring s2))"
    using silent_member_fails [OF demo_pair_reach c1 c2, of "NodeId 3" demo_info]
    by (simp add: demo_pair_simps hm_get_def demo_info_def new_NodeInfo_def)
  with c1 c2 show ?thesis by blast
qed

theorem adopted_failed_member_ghost_witness:
  "\<exists>s'. check_failed_nodes demo_hash 200000
      (sv_cluster (adopt_join_response demo_hash demo_env [(new_NodeInfo 1000 (NodeId 7) (7, 7) None)\<lparr>ni_status := Failed\<rparr>] demo_pair))
        = Ret s' \<and> get_node s' (NodeId 7) = None \<and> NodeId 7 \<in> set (hr_nodes (cm_hash_ring s'))"
proof -
  let ?m = "(new_NodeInfo 1000 (NodeId 7) (7, 7) None)\<lparr>ni_status := Failed\<rparr>"
  let ?s = "sv_cluster (adopt_join_response demo_hash demo_env [?m] demo_pair)"
  have "cm_failure_timeout ?s = 30"
    by (simp add: adopt_join_response_def demo_pair_simps new_NodeInfo_def)
  then obtain s' where c: "check_failed_nodes demo_hash 200000 ?s = Ret s'"
    using check_failed_nodes_Ret [of ?s] by auto
  have "get_node s' (NodeId 7) = None \<and> NodeId 7 \<in> set (hr_nodes (cm_hash_ring s'))"
    using adopted_failed_member_ghost [OF demo_pair_reach _ _ _ _ c]
    by (simp add: demo_pair_simps new_NodeInfo_def purge_threshold_def)
  with c show ?thesis by blast
qed

theorem gossip_cancels_leave_witness:
  "\<exists>s'. check_failed_nodes demo_hash 1010 (merge_cluster_gossip demo_hash
      [\<lparr>g_node_id = NodeId 3, g_last_seen = 990, g_status = Online\<rparr>]
      (sv_cluster (fst (handle_cluster_message demo_hash demo_env (GracefulLeave (NodeId 3) (3, 3) Shutdown) demo_pair)))) = Ret s'
    \<and> NodeId 3 \<in> online_ids s'"
proof -
  let ?g = "\<lparr>g_node_id = NodeId 3, g_last_seen = 990, g_status = Online\<rparr>"
  let ?s = "merge_cluster_gossip demo_hash [?g] (sv_cluster (fst (handle_cluster_message demo_hash demo_env
      (GracefulLeave (NodeId 3) (3, 3) Shutdown) demo_pair)))"
  have "cm_failure_timeout ?s = 30"
    by (auto simp: merge_cluster_gossip_def merge_gossip_entry_def handle_cluster_message_def set_leaving_def
        demo_pair_simps Let_def split: option.splits)
  then obtain s' where c: "check_failed_nodes demo_hash 1010 ?s = Ret s'"
    using check_failed_nodes_Ret [of ?s] by auto
  have "NodeId 3 \<in> online_ids s'"
    using gossip_cancels_leave [OF demo_pair_reach _ _ _ _ _ _ c]
    by (simp add: demo_pair_simps get_node_def hm_get_def demo_env_def LEAVING_GRACE_SECS_def)
  with c show ?thesis by blast
qed

end
