(* ===== verification/Placement.thy ===== *)
theory Placement
  imports Cluster_Laws "HOL-Library.Product_Lexorder"
begin

text \<open>
  Where chunks are put and which copy is shed: \<open>get_nodes_with_capacity_awareness\<close>,
  \<open>most_utilized_node\<close> and the compaction race of \<^verbatim>\<open>dfs-server/src/cluster.rs\<close>. The bit mixing of
  \<open>seeded_unit_interval\<close> is on 64-bit words; the floating-point key \<open>u.powf(1.0 / weight_gb)\<close> made
  of its upper 53 bits and the available bytes is the parameter \<open>key\<close>, with values in any linear
  order. A vector of 0 nodes makes \<open>seed % n\<close> panic.
\<close>

unbundle bit_operations_syntax

section \<open>Definitions\<close>

definition MIN_FREE_BYTES :: nat where
  "MIN_FREE_BYTES = 20 * 1024 * 1024 * 1024"

definition mix33 :: "64 word \<Rightarrow> 64 word" where
  "mix33 x = x XOR drop_bit 33 x"

text \<open>The bits \<open>x >> 11\<close> of which the unit-interval value is made.\<close>

definition seeded_unit_bits :: "64 word \<Rightarrow> NodeId \<Rightarrow> 64 word" where
  "seeded_unit_bits seed n =
     (let node_bits = word_of_nat (from_le (take 8 (uuid_bytes (node_uuid n)))) :: 64 word;
          x0 = seed XOR (node_bits * 0x9e3779b97f4a7c15);
          x1 = mix33 x0 * 0xff51afd7ed558ccd;
          x2 = mix33 x1 * 0xc4ceb9fe1a85ec53
      in drop_bit 11 (mix33 x2))"

definition node_cap :: "nat \<Rightarrow> ClusterManager \<Rightarrow> NodeId \<Rightarrow> NodeId \<times> nat \<times> nat" where
  "node_cap now s n =
     (case hm_get (cm_node_capacities s) n of
        Some cap \<Rightarrow>
          if nc_total cap > 0 \<and> now - nc_last_updated cap < 300 then (n, nc_available cap, nc_total cap)
          else (n, nc_total cap div 2, nc_total cap)
      | None \<Rightarrow> (n, 1000000000000, 2000000000000))"

definition sort_desc :: "('a \<Rightarrow> 'k::linorder) \<Rightarrow> 'a list \<Rightarrow> 'a list" where
  "sort_desc k xs = rev (sort_key k (rev xs))"

definition placeable :: "ClusterManager \<Rightarrow> NodeId \<Rightarrow> bool" where
  "placeable s n = (case hm_get (cm_nodes s) n of None \<Rightarrow> True | Some i \<Rightarrow> ni_status i = Online)"

definition placement_nodes :: "ClusterManager \<Rightarrow> nat \<Rightarrow> NodeId list" where
  "placement_nodes s cnt =
     (let (on, off) = partition (placeable s) (hr_nodes (cm_hash_ring s))
      in if length on < cnt then on @ off else on)"

definition get_nodes_with_capacity_awareness ::
    "(64 word \<Rightarrow> nat \<Rightarrow> 'k::linorder) \<Rightarrow> nat \<Rightarrow> ClusterManager \<Rightarrow> ChunkId \<Rightarrow> nat \<Rightarrow> NodeId list outcome" where
  "get_nodes_with_capacity_awareness key now s c cnt =
     (let all_nodes = placement_nodes s cnt;
          seed = from_le (take 8 (hash c))
      in if length all_nodes \<le> cnt then
           if all_nodes = [] then Panic
           else let offset = seed mod length all_nodes in Ret (drop offset all_nodes @ take offset all_nodes)
         else
           let node_caps = map (node_cap now s) all_nodes;
               eligible = filter (\<lambda>(_, avail, tot). tot = 0 \<or> avail \<ge> MIN_FREE_BYTES) node_caps;
               candidates = (if length eligible \<ge> cnt then eligible
                             else sort_desc (\<lambda>(_, avail, _). avail) node_caps);
               keyed = map (\<lambda>(n, avail, _). (key (seeded_unit_bits (word_of_nat seed) n) avail, n)) candidates
           in Ret (map snd (take cnt (sort_desc fst keyed))))"

definition most_utilized_node :: "nat \<Rightarrow> ClusterManager \<Rightarrow> NodeId list \<Rightarrow> NodeId option" where
  "most_utilized_node now s node_ids =
     min_by_key (\<lambda>n. case hm_get (cm_node_capacities s) n of
                       Some cap \<Rightarrow> if nc_total cap > 0 \<and> u64_sub now (nc_last_updated cap) < 60
                                   then nc_available cap else u64_max div 2
                     | None \<Rightarrow> u64_max div 2) node_ids"

definition RACE_WINDOW_MS :: nat where
  "RACE_WINDOW_MS = 1750"

definition STALENESS_CUTOFF_MS :: nat where
  "STALENESS_CUTOFF_MS = RACE_WINDOW_MS * 4"

text \<open>The proposal: the node's own intent is recorded and sent to the Online peers.\<close>

definition propose_compaction_intent ::
    "nat \<Rightarrow> ClusterManager \<Rightarrow> ClusterManager \<times> (SocketAddr \<times> ClusterMessage) list" where
  "propose_compaction_intent now_ms s =
     (record_compaction_intent (cm_local_node_id s) now_ms s,
      map (\<lambda>n. (ni_addr n, CompactionIntent (cm_local_node_id s) now_ms))
        (filter (\<lambda>n. ni_id n \<noteq> cm_local_node_id s \<and> ni_status n = Online) (hm_values (cm_nodes s))))"

text \<open>The decision, after the race window.\<close>

definition compaction_race_won :: "nat \<Rightarrow> ClusterManager \<Rightarrow> bool" where
  "compaction_race_won now_ms s =
     (case min_by_key (\<lambda>(n, ts). (ts, n))
             (filter (\<lambda>(_, ts). now_ms - ts \<le> STALENESS_CUTOFF_MS) (cm_compaction_intents s)) of
        Some (n, _) \<Rightarrow> n = cm_local_node_id s
      | None \<Rightarrow> False)"

section \<open>Lemmas\<close>

lemma sort_desc_simps [simp]:
  "set (sort_desc k xs) = set xs" "length (sort_desc k xs) = length xs" "distinct (sort_desc k xs) = distinct xs"
  by (simp_all add: sort_desc_def)

lemma sorted_sort_desc: "sorted_wrt (\<lambda>a b. k b \<le> k a) (sort_desc k xs)"
proof -
  have "sorted_wrt (\<lambda>a b. k a \<le> k b) (sort_key k (rev xs))"
    using sorted_sort_key [of k "rev xs"] by (simp add: sorted_map)
  then show ?thesis by (simp add: sort_desc_def sorted_wrt_rev)
qed

lemma placement_nodes_facts:
  assumes "good blake3 s"
  shows "set (placement_nodes s cnt) \<subseteq> set (hr_nodes (cm_hash_ring s))" "distinct (placement_nodes s cnt)"
    "cnt \<le> length (filter (placeable s) (hr_nodes (cm_hash_ring s))) \<Longrightarrow>
       placement_nodes s cnt = filter (placeable s) (hr_nodes (cm_hash_ring s))"
    "length (filter (placeable s) (hr_nodes (cm_hash_ring s))) < cnt \<Longrightarrow>
       set (placement_nodes s cnt) = set (hr_nodes (cm_hash_ring s)) \<and>
       length (placement_nodes s cnt) = length (hr_nodes (cm_hash_ring s))"
proof -
  have "distinct (hr_nodes (cm_hash_ring s))" using assms by (simp add: inv_defs ring_inv_def)
  then show "set (placement_nodes s cnt) \<subseteq> set (hr_nodes (cm_hash_ring s))" "distinct (placement_nodes s cnt)"
    by (auto simp: placement_nodes_def partition_filter_conv)
qed (use sum_length_filter_compl [of "placeable s" "hr_nodes (cm_hash_ring s)"]
     in \<open>auto simp: placement_nodes_def partition_filter_conv comp_def\<close>)

lemma fst_node_cap [simp]: "fst (node_cap now s n) = n"
  by (simp add: node_cap_def split: option.split)

text \<open>The weighted branch ranks some distinct candidates, at least \<open>cnt\<close> many.\<close>

lemma weighted_choice:
  fixes k :: "'a \<Rightarrow> 'b \<Rightarrow> 'k::linorder"
  assumes "distinct (map fst cands)" and "cnt \<le> length cands"
  defines "r \<equiv> map snd (take cnt (sort_desc fst (map (\<lambda>(n, avail, t). (k n avail, n)) cands)))"
  shows "distinct r \<and> length r = cnt \<and> set r \<subseteq> fst ` set cands"
proof -
  let ?K = "map (\<lambda>(n, avail, t). (k n avail, n)) cands"
  have snds: "map snd ?K = map fst cands" by auto
  have "distinct (map snd ?K)" unfolding snds by (rule assms)
  then have "distinct (map snd (sort_desc fst ?K))" by (simp only: distinct_map sort_desc_simps)
  moreover have "set (map snd (sort_desc fst ?K)) = fst ` set cands"
    using arg_cong [OF snds, of set] by (simp only: set_map sort_desc_simps)
  ultimately show ?thesis
    unfolding r_def take_map [symmetric] using assms(2) by (auto dest: in_set_takeD)
qed

lemma distinct_node_cap:
  assumes "distinct ns"
  shows "distinct (map fst (filter P (map (node_cap now s) ns)))"
    "distinct (map fst (sort_desc g (map (node_cap now s) ns)))"
proof -
  have "map fst (map (node_cap now s) ns) = ns" by (simp add: comp_def)
  with assms have d: "distinct (map fst (map (node_cap now s) ns))" by simp
  show "distinct (map fst (filter P (map (node_cap now s) ns)))" by (rule distinct_map_filter [OF d])
  show "distinct (map fst (sort_desc g (map (node_cap now s) ns)))"
    using d by (simp only: distinct_map sort_desc_simps)
qed

lemma placement_choice:
  assumes "distinct (placement_nodes s cnt)" and "placement_nodes s cnt \<noteq> []"
  shows "\<exists>r. get_nodes_with_capacity_awareness key now s c cnt = Ret r \<and> distinct r \<and>
    length r = min cnt (length (placement_nodes s cnt)) \<and> set r \<subseteq> set (placement_nodes s cnt)"
proof (cases "length (placement_nodes s cnt) \<le> cnt")
  case True
  let ?ns = "placement_nodes s cnt"
  define k where "k = from_le (take 8 (hash c)) mod length ?ns"
  have r: "get_nodes_with_capacity_awareness key now s c cnt = Ret (drop k ?ns @ take k ?ns)"
    using True assms(2) by (simp add: get_nodes_with_capacity_awareness_def k_def Let_def)
  have "distinct (take k ?ns @ drop k ?ns)" using assms(1) by simp
  then have "distinct (drop k ?ns @ take k ?ns)" unfolding distinct_append by blast
  moreover have "set (drop k ?ns @ take k ?ns) \<subseteq> set ?ns" by (auto dest: in_set_dropD in_set_takeD)
  ultimately show ?thesis using True r by auto
next
  case False
  let ?caps = "map (node_cap now s) (placement_nodes s cnt)"
  let ?el = "filter (\<lambda>(_, avail, tot). tot = 0 \<or> avail \<ge> MIN_FREE_BYTES) ?caps"
  define cands where "cands = (if length ?el \<ge> cnt then ?el else sort_desc (\<lambda>(_, avail, _). avail) ?caps)"
  have d: "distinct (map fst cands)" using distinct_node_cap [OF assms(1)] by (simp only: cands_def split: if_split) blast
  have l: "cnt \<le> length cands" using False by (simp add: cands_def)
  have sub: "fst ` set cands \<subseteq> set (placement_nodes s cnt)" by (auto simp: cands_def)
  define r where "r = map snd (take cnt (sort_desc fst
      (map (\<lambda>(n, avail, t). (key (seeded_unit_bits (word_of_nat (from_le (take 8 (hash c)))) n) avail, n)) cands)))"
  have "get_nodes_with_capacity_awareness key now s c cnt = Ret r"
    using False by (simp only: get_nodes_with_capacity_awareness_def Let_def cands_def r_def if_False)
  moreover have "distinct r \<and> length r = cnt \<and> set r \<subseteq> fst ` set cands"
    unfolding r_def by (rule weighted_choice [OF d l])
  ultimately show ?thesis using sub False by auto
qed

section \<open>Properties\<close>


text \<open>When fewer than \<open>cnt\<close> members of the ring are Online, more than \<open>cnt\<close> are on it and none is
  short of space, the choice ignores who is Online: it is the \<open>cnt\<close> members of the whole ring with
  the highest keys, so a Suspected member can displace an Online one.\<close>

theorem placement_short_of_online:
  fixes key :: "64 word \<Rightarrow> nat \<Rightarrow> 'k::linorder" and c :: ChunkId
  assumes "length (filter (placeable s) (hr_nodes (cm_hash_ring s))) < cnt"
    and "cnt < length (hr_nodes (cm_hash_ring s))"
    and "\<And>n. n \<in> set (hr_nodes (cm_hash_ring s)) \<Longrightarrow> MIN_FREE_BYTES \<le> fst (snd (node_cap now s n))"
  defines "k \<equiv> \<lambda>n. key (seeded_unit_bits (word_of_nat (from_le (take 8 (hash c)))) n) (fst (snd (node_cap now s n)))"
  shows "get_nodes_with_capacity_awareness key now s c cnt =
    Ret (map snd (take cnt (sort_desc fst (map (\<lambda>n. (k n, n))
      (filter (placeable s) (hr_nodes (cm_hash_ring s)) @ filter (\<lambda>n. \<not> placeable s n) (hr_nodes (cm_hash_ring s)))))))"
proof -
  let ?ns = "filter (placeable s) (hr_nodes (cm_hash_ring s)) @ filter (\<lambda>n. \<not> placeable s n) (hr_nodes (cm_hash_ring s))"
  have ns: "placement_nodes s cnt = ?ns"
    using assms(1) by (simp add: placement_nodes_def partition_filter_conv comp_def)
  have len: "length ?ns = length (hr_nodes (cm_hash_ring s))"
    by (simp add: sum_length_filter_compl)
  have el: "filter (\<lambda>(_, avail, tot). tot = 0 \<or> avail \<ge> MIN_FREE_BYTES) (map (node_cap now s) ?ns) = map (node_cap now s) ?ns"
    unfolding filter_id_conv using assms(3) by (auto simp: split_def)
  have keyed: "map (\<lambda>(n, avail, t). (key (seeded_unit_bits (word_of_nat (from_le (take 8 (hash c)))) n) avail, n))
      (map (node_cap now s) ?ns) = map (\<lambda>n. (k n, n)) ?ns"
    by (simp add: split_def k_def)
  have many: "(length ?ns \<le> cnt) = False" "(cnt \<le> length ?ns) = True" using assms(2) len by simp_all
  show ?thesis
    by (simp only: get_nodes_with_capacity_awareness_def Let_def ns el keyed length_map many if_True if_False)
qed

text \<open>The over-replication cleanup sheds from the fullest node: the node chosen is one of those
  given, none has less available space known for it, and when no node has fresh capacity data it is
  the first of the list.\<close>

theorem most_utilized_node_correct:
  assumes "ns \<noteq> []"
  defines "space \<equiv> \<lambda>now s n. case hm_get (cm_node_capacities s) n of
      Some cap \<Rightarrow> if nc_total cap > 0 \<and> u64_sub now (nc_last_updated cap) < 60 then nc_available cap else u64_max div 2
    | None \<Rightarrow> u64_max div 2"
  shows "\<exists>n \<in> set ns. most_utilized_node now s ns = Some n \<and> (\<forall>m \<in> set ns. space now s n \<le> space now s m) \<and>
    ((\<forall>m \<in> set ns. space now s m = u64_max div 2) \<longrightarrow> n = hd ns)"
proof -
  have eq: "most_utilized_node now s ns = min_by_key (space now s) ns"
    by (simp add: most_utilized_node_def space_def)
  then obtain n where n: "most_utilized_node now s ns = Some n" using assms(1) by (cases ns) auto
  have "n = hd ns" if "\<forall>m \<in> set ns. space now s m = u64_max div 2"
  proof -
    obtain x xs where xs: "ns = x # xs" using assms(1) by (cases ns) auto
    have "fold (\<lambda>y acc. if space now s y < space now s acc then y else acc) xs x = x"
      using that unfolding xs by (induction xs) auto
    then show ?thesis using n eq unfolding xs by simp
  qed
  with n min_by_key_Some [of "space now s" ns n] show ?thesis unfolding eq by blast
qed

text \<open>The compaction race has one winner: when two servers decide on the same intents at the same
  time, both holding intents of their own within the cutoff, exactly the one whose intent is least
  by time and then by node id wins, so two different servers never both win.\<close>

theorem compaction_race_unique:
  assumes "cm_compaction_intents s1 = cm_compaction_intents s2"
    and "compaction_race_won now s1" and "compaction_race_won now s2"
  shows "cm_local_node_id s1 = cm_local_node_id s2 \<and>
    (\<exists>t. (cm_local_node_id s1, t) \<in> set (cm_compaction_intents s1) \<and> now - t \<le> STALENESS_CUTOFF_MS \<and>
      (\<forall>(m, u) \<in> set (cm_compaction_intents s1). now - u \<le> STALENESS_CUTOFF_MS \<longrightarrow>
         (t, cm_local_node_id s1) \<le> (u, m)))"
proof -
  let ?f = "filter (\<lambda>(_, ts). now - ts \<le> STALENESS_CUTOFF_MS) (cm_compaction_intents s1)"
  from assms(2) obtain t where t: "min_by_key (\<lambda>(n, ts). (ts, n)) ?f = Some (cm_local_node_id s1, t)"
    by (auto simp: compaction_race_won_def split: option.splits prod.splits)
  with assms(1,3) have "cm_local_node_id s1 = cm_local_node_id s2"
    by (auto simp: compaction_race_won_def split: option.splits prod.splits)
  with min_by_key_Some [OF t] show ?thesis by auto
qed

section \<open>Witnesses\<close>

definition bit_key :: "64 word \<Rightarrow> nat \<Rightarrow> 64 word" where
  "bit_key b avail = b"

definition high_node :: "128 word \<Rightarrow> NodeId" where
  "high_node k = NodeId (k * 2 ^ 120)"

text \<open>Two Online members, this server among them, and two Suspected ones.\<close>

definition demo_short :: ServerCluster where
  "demo_short = fold (\<lambda>(k, st) v. fst (handle_cluster_message demo_hash demo_env
       (NodeJoined ((new_NodeInfo 1000 (high_node k) (1, 1) None)\<lparr>ni_status := st\<rparr>)) v))
     [(1, Online), (2, Suspected), (3, Suspected)]
     \<lparr>sv_cluster = new_cluster demo_hash 1000 (high_node 5) (1, 1) 5 30 None, sv_peers_file = None,
      sv_healing = False, sv_heal_target = None\<rparr>"

lemma high_node_distinct [simp]:
  "high_node 1 \<noteq> high_node 2" "high_node 1 \<noteq> high_node 3" "high_node 1 \<noteq> high_node 5"
  "high_node 2 \<noteq> high_node 3" "high_node 2 \<noteq> high_node 5" "high_node 3 \<noteq> high_node 5"
  "high_node 2 \<noteq> high_node 1" "high_node 3 \<noteq> high_node 1" "high_node 5 \<noteq> high_node 1"
  "high_node 3 \<noteq> high_node 2" "high_node 5 \<noteq> high_node 2" "high_node 5 \<noteq> high_node 3"
  by (simp_all add: high_node_def)

lemma hr_nodes_add [simp]:
  "hr_nodes (ring_add_node blake3 n r) = (if n \<in> set (hr_nodes r) then hr_nodes r else hr_nodes r @ [n])"
  by (simp add: ring_add_node_def)

lemma demo_short_simps:
  "hr_nodes (cm_hash_ring (sv_cluster demo_short)) = [high_node 5, high_node 1, high_node 2, high_node 3]"
  "map (\<lambda>(k, n). (k, ni_status n)) (cm_nodes (sv_cluster demo_short)) =
     [(high_node 5, Online), (high_node 1, Online), (high_node 2, Suspected), (high_node 3, Suspected)]"
  "cm_node_capacities (sv_cluster demo_short) = []"
  by (simp_all add: demo_short_def handle_cluster_message_def handle_node_joined_def new_cluster_def
      get_node_def new_NodeInfo_def hm_get_def hm_insert_def new_ring_def)

lemma placeable_map: "placeable s n = (case map_of (map (\<lambda>(k, i). (k, ni_status i)) (cm_nodes s)) n of
    None \<Rightarrow> True | Some st \<Rightarrow> st = Online)"
proof -
  have "map_of (map (\<lambda>(k, i). (k, ni_status i)) m) n = map_option ni_status (map_of m n)" for m
    by (induction m) auto
  from this [of "cm_nodes s"] show ?thesis by (simp add: placeable_def hm_get_def split: option.split)
qed

lemma demo_short_placeable:
  "filter (placeable (sv_cluster demo_short)) (hr_nodes (cm_hash_ring (sv_cluster demo_short))) = [high_node 5, high_node 1]"
  "filter (\<lambda>n. \<not> placeable (sv_cluster demo_short) n) (hr_nodes (cm_hash_ring (sv_cluster demo_short))) =
     [high_node 2, high_node 3]"
  by (simp_all add: placeable_map demo_short_simps)

lemma demo_bits:
  "seeded_unit_bits 0 (high_node 1) = 5510807546008933" "seeded_unit_bits 0 (high_node 2) = 7425417162826343"
  "seeded_unit_bits 0 (high_node 3) = 7597806452938455" "seeded_unit_bits 0 (high_node 5) = 1216802513540157"
  by code_simp+


theorem placement_short_of_online_witness:
  "placeable (sv_cluster demo_short) (high_node 5) \<and> \<not> placeable (sv_cluster demo_short) (high_node 2) \<and>
   get_nodes_with_capacity_awareness bit_key 1000 (sv_cluster demo_short) (ChunkId (replicate 32 0)) 3 =
     Ret [high_node 3, high_node 2, high_node 1]"
proof -
  have cap: "fst (snd (node_cap 1000 (sv_cluster demo_short) n)) = 1000000000000" for n
    by (simp add: node_cap_def demo_short_simps)
  have seed: "from_le (take 8 (hash (ChunkId (replicate 32 0)))) = 0" by code_simp
  have "get_nodes_with_capacity_awareness bit_key 1000 (sv_cluster demo_short) (ChunkId (replicate 32 0)) 3 =
    Ret (map snd (take 3 (sort_desc fst [(bit_key (seeded_unit_bits 0 (high_node 5)) 1000000000000, high_node 5),
      (bit_key (seeded_unit_bits 0 (high_node 1)) 1000000000000, high_node 1),
      (bit_key (seeded_unit_bits 0 (high_node 2)) 1000000000000, high_node 2),
      (bit_key (seeded_unit_bits 0 (high_node 3)) 1000000000000, high_node 3)])))"
    using placement_short_of_online [of "sv_cluster demo_short" 3 1000 bit_key "ChunkId (replicate 32 0)"]
    unfolding demo_short_placeable cap seed by (simp add: demo_short_simps MIN_FREE_BYTES_def)
  also have "\<dots> = Ret [high_node 3, high_node 2, high_node 1]"
    by (simp add: bit_key_def demo_bits sort_desc_def)
  finally show ?thesis by (simp add: placeable_map demo_short_simps)
qed

theorem most_utilized_node_correct_witness:
  "most_utilized_node 1000 (sv_cluster demo_pair) [NodeId 3, NodeId 2] = Some (NodeId 3)"
proof -
  have "cm_node_capacities (sv_cluster demo_pair) = []"
    by (simp add: demo_pair_def demo_server_def handle_cluster_message_def handle_node_joined_def new_cluster_def)
  then show ?thesis
    using most_utilized_node_correct [of "[NodeId 3, NodeId 2]" 1000 "sv_cluster demo_pair"] by auto
qed

theorem compaction_race_unique_witness:
  "compaction_race_won 5000 ((sv_cluster demo_pair)\<lparr>cm_compaction_intents := [(NodeId 3, 4001), (NodeId 2, 4000)]\<rparr>) \<and>
   (\<exists>t. (NodeId 2, t) \<in> {(NodeId 3, 4001), (NodeId 2, 4000 :: nat)} \<and> 5000 - t \<le> STALENESS_CUTOFF_MS)"
proof -
  let ?s = "(sv_cluster demo_pair)\<lparr>cm_compaction_intents := [(NodeId 3, 4001), (NodeId 2, 4000)]\<rparr>"
  have won: "compaction_race_won 5000 ?s"
    by (simp add: compaction_race_won_def demo_pair_simps STALENESS_CUTOFF_MS_def RACE_WINDOW_MS_def)
  with compaction_race_unique [OF refl won won] show ?thesis by (auto simp: demo_pair_simps)
qed

end
