(* ===== verification/Delta_Records.thy ===== *)
theory Delta_Records
  imports Dfs_Types "HOL-Library.Multiset"
begin

text \<open>
  Delta accumulators: the append-only files of \<^verbatim>\<open>dfs-server/src/server.rs\<close> that hold the patches of
  a chunk not yet folded into it, in the current format (a marker, then records with the client's
  write sequence) and the older one (records only), and their overlay on the base content
  (\<open>apply_delta_records_inner\<close>).

  Shown: both formats decode to what was encoded; decoding orders records by sequence and not by
  arrival, so replicas that received the same patches in different orders compose the same bytes;
  and the composed content holds, at each position, the byte of the last record that covers it.
\<close>

section \<open>Definitions\<close>

definition DELTA_ACCUMULATOR_V2_MAGIC :: nat where
  "DELTA_ACCUMULATOR_V2_MAGIC = 0xD15AFEEDC0FFEE02"

definition encode_delta_record :: "nat \<Rightarrow> nat \<Rightarrow> byte list \<Rightarrow> byte list" where
  "encode_delta_record seq offset data = to_le 8 seq @ to_le 8 offset @ to_le 4 (length data) @ data"

definition encode_delta_record_legacy :: "nat \<Rightarrow> byte list \<Rightarrow> byte list" where
  "encode_delta_record_legacy offset data = to_le 8 offset @ to_le 4 (length data) @ data"

definition is_legacy_delta_format :: "byte list \<Rightarrow> bool" where
  "is_legacy_delta_format bytes \<longleftrightarrow>
     length bytes < 8 \<or> from_le (take 8 bytes) \<noteq> DELTA_ACCUMULATOR_V2_MAGIC"

text \<open>The reading loop of the current format, and of the older one: \<open>None\<close> is a truncated record.\<close>

function read_records :: "byte list \<Rightarrow> (nat \<times> nat \<times> byte list) list option" where
  "read_records bytes =
     (if bytes = [] then Some []
      else if length bytes < 20 then None
      else let seq = from_le (take 8 bytes); offset = from_le (take 8 (drop 8 bytes));
               len = from_le (take 4 (drop 16 bytes)); rest = drop 20 bytes
           in if length rest < len then None
              else map_option (\<lambda>rs. (seq, offset, take len rest) # rs) (read_records (drop len rest)))"
  by auto
termination by (relation "measure length") auto

function parse_delta_records_legacy :: "byte list \<Rightarrow> (nat \<times> byte list) list option" where
  "parse_delta_records_legacy bytes =
     (if bytes = [] then Some []
      else if length bytes < 12 then None
      else let offset = from_le (take 8 bytes); len = from_le (take 4 (drop 8 bytes)); rest = drop 12 bytes
           in if length rest < len then None
              else map_option (\<lambda>rs. (offset, take len rest) # rs) (parse_delta_records_legacy (drop len rest)))"
  by auto
termination by (relation "measure length") auto

declare read_records.simps [simp del] parse_delta_records_legacy.simps [simp del]

definition parse_delta_records :: "byte list \<Rightarrow> (nat \<times> byte list) list option" where
  "parse_delta_records bytes =
     (if is_legacy_delta_format bytes then parse_delta_records_legacy bytes
      else map_option (\<lambda>rs. map snd (sort_key fst rs)) (read_records (drop 8 bytes)))"

function max_seq_loop :: "nat option \<Rightarrow> byte list \<Rightarrow> nat option" where
  "max_seq_loop max_seq bytes =
     (if bytes = [] then max_seq
      else if length bytes < 20 then None
      else let seq = from_le (take 8 bytes); len = from_le (take 4 (drop 16 bytes)); rest = drop 20 bytes
           in if length rest < len then None
              else max_seq_loop (Some (case max_seq of None \<Rightarrow> seq | Some m \<Rightarrow> max m seq)) (drop len rest))"
  by auto
termination by (relation "measure (length \<circ> snd)") auto

declare max_seq_loop.simps [simp del]

definition max_seq_in_delta_records :: "byte list \<Rightarrow> nat option" where
  "max_seq_in_delta_records bytes =
     (if is_legacy_delta_format bytes then None else max_seq_loop None (drop 8 bytes))"

text \<open>One patch on the buffer: an end that overflows \<open>usize\<close> wraps below the start and panics.\<close>

definition apply_patch_bytes :: "nat \<times> byte list \<Rightarrow> byte list \<Rightarrow> byte list outcome" where
  "apply_patch_bytes p buf =
     (case p of (offset, data) \<Rightarrow>
        let e = offset + length data in
        if e \<ge> 2 ^ 64 then Panic
        else let buf' = (if e > length buf then buf @ replicate (e - length buf) 0 else buf)
             in Ret (take offset buf' @ data @ drop e buf'))"

fun apply_patches :: "(nat \<times> byte list) list \<Rightarrow> byte list \<Rightarrow> byte list outcome" where
  "apply_patches [] buf = Ret buf"
| "apply_patches (p # ps) buf =
     (case apply_patch_bytes p buf of Panic \<Rightarrow> Panic | Ret buf' \<Rightarrow> apply_patches ps buf')"

definition apply_delta_records_inner :: "byte list \<Rightarrow> byte list \<Rightarrow> byte list option outcome" where
  "apply_delta_records_inner buf delta_bytes =
     (case parse_delta_records delta_bytes of
        None \<Rightarrow> Ret None
      | Some patches \<Rightarrow> (case apply_patches patches buf of Panic \<Rightarrow> Panic | Ret b \<Rightarrow> Ret (Some b)))"

section \<open>Files of records\<close>

type_synonym delta_record = "nat \<times> nat \<times> byte list"

definition wf_record :: "delta_record \<Rightarrow> bool" where
  "wf_record r = (case r of (seq, offset, data) \<Rightarrow>
     seq < 2 ^ 64 \<and> offset + length data < 2 ^ 64 \<and> length data < 2 ^ 32)"

definition accumulator :: "delta_record list \<Rightarrow> byte list" where
  "accumulator rs = to_le 8 DELTA_ACCUMULATOR_V2_MAGIC @ concat (map (\<lambda>(s, o', d). encode_delta_record s o' d) rs)"

lemma u64_le: "n < 2 ^ 64 \<Longrightarrow> from_le (to_le 8 n) = n"
  by (rule from_le_to_le) simp

lemma u32_le: "n < 2 ^ 32 \<Longrightarrow> from_le (to_le 4 n) = n"
  by (rule from_le_to_le) simp

lemma read_records_encode:
  assumes "wf_record (seq, offset, data)"
  shows "read_records (encode_delta_record seq offset data @ bs) = map_option ((#) (seq, offset, data)) (read_records bs)"
    and "max_seq_loop m (encode_delta_record seq offset data @ bs) =
      max_seq_loop (Some (case m of None \<Rightarrow> seq | Some n \<Rightarrow> max n seq)) bs"
proof -
  define b where "b = encode_delta_record seq offset data @ bs"
  have parts: "take 8 b = to_le 8 seq" "take 8 (drop 8 b) = to_le 8 offset" "take 4 (drop 16 b) = to_le 4 (length data)"
    "drop 20 b = data @ bs" "\<not> length b < 20"
    by (simp_all add: b_def encode_delta_record_def)
  then have ne: "b \<noteq> []" by auto
  have vals: "from_le (to_le 8 seq) = seq" "from_le (to_le 8 offset) = offset" "from_le (to_le 4 (length data)) = length data"
    using assms u64_le u32_le by (auto simp: wf_record_def)
  show "read_records (encode_delta_record seq offset data @ bs) = map_option ((#) (seq, offset, data)) (read_records bs)"
    unfolding b_def [symmetric]
    by (subst read_records.simps) (simp add: parts ne vals Let_def)
  show "max_seq_loop m (encode_delta_record seq offset data @ bs) =
      max_seq_loop (Some (case m of None \<Rightarrow> seq | Some n \<Rightarrow> max n seq)) bs"
    unfolding b_def [symmetric]
    by (subst max_seq_loop.simps) (simp add: parts ne vals Let_def)
qed

lemma read_records_concat:
  "list_all wf_record rs \<Longrightarrow> read_records (concat (map (\<lambda>(s, o', d). encode_delta_record s o' d) rs)) = Some rs"
proof (induction rs)
  case Nil
  show ?case by (simp add: read_records.simps)
next
  case (Cons r rs)
  obtain s off d where r: "r = (s, off, d)" by (cases r)
  from Cons show ?case using read_records_encode(1) [of s off d] by (simp add: r)
qed

lemma accumulator_format: "\<not> is_legacy_delta_format (accumulator rs)" "drop 8 (accumulator rs) =
    concat (map (\<lambda>(s, o', d). encode_delta_record s o' d) rs)"
proof -
  have "from_le (to_le 8 DELTA_ACCUMULATOR_V2_MAGIC) = DELTA_ACCUMULATOR_V2_MAGIC"
    by (rule u64_le) (simp add: DELTA_ACCUMULATOR_V2_MAGIC_def)
  then show "\<not> is_legacy_delta_format (accumulator rs)" by (simp add: accumulator_def is_legacy_delta_format_def)
qed (simp add: accumulator_def)

lemma parse_accumulator:
  "list_all wf_record rs \<Longrightarrow> parse_delta_records (accumulator rs) = Some (map snd (sort_key fst rs))"
  by (simp add: parse_delta_records_def accumulator_format read_records_concat)

lemma max_seq_concat:
  assumes "list_all wf_record rs"
  shows "max_seq_loop m (concat (map (\<lambda>(s, o', d). encode_delta_record s o' d) rs)) =
    fold (\<lambda>r m. Some (case m of None \<Rightarrow> fst r | Some n \<Rightarrow> max n (fst r))) rs m"
  using assms
proof (induction rs arbitrary: m)
  case Nil
  show ?case by (simp add: max_seq_loop.simps)
next
  case (Cons r rs)
  obtain s off d where r: "r = (s, off, d)" by (cases r)
  from Cons show ?case using read_records_encode(2) [of s off d m] by (cases m) (simp_all add: r)
qed

lemma Max_insert2: "finite A \<Longrightarrow> Max (insert n (insert x A)) = Max (insert (max n x) (A :: nat set))"
  by (cases "A = {}") (simp_all add: max.assoc)

lemma fold_max_Some:
  "fold (\<lambda>r m. Some (case m of None \<Rightarrow> fst r | Some n \<Rightarrow> max n (fst r))) rs (Some n) =
   Some (Max (insert n (fst ` set (rs :: delta_record list))))"
proof (induction rs arbitrary: n)
  case (Cons r rs)
  from Cons.IH [of "max n (fst r)"] show ?case by (simp add: Max_insert2 del: Max_insert)
qed simp

lemma parse_legacy_encode:
  assumes "offset < 2 ^ 64" and "length data < 2 ^ 32"
  shows "parse_delta_records_legacy (encode_delta_record_legacy offset data @ bs) =
    map_option ((#) (offset, data)) (parse_delta_records_legacy bs)"
proof -
  define b where "b = encode_delta_record_legacy offset data @ bs"
  have parts: "take 8 b = to_le 8 offset" "take 4 (drop 8 b) = to_le 4 (length data)"
    "drop 12 b = data @ bs" "\<not> length b < 12"
    by (simp_all add: b_def encode_delta_record_legacy_def)
  then have ne: "b \<noteq> []" by auto
  have vals: "from_le (to_le 8 offset) = offset" "from_le (to_le 4 (length data)) = length data"
    using assms u64_le u32_le by auto
  show ?thesis unfolding b_def [symmetric]
    by (subst parse_delta_records_legacy.simps) (simp add: parts ne vals Let_def)
qed

lemma parse_legacy:
  assumes "list_all wf_record rs" and "rs \<noteq> []" and "fst (snd (hd rs)) \<le> CHUNK_SIZE"
  shows "parse_delta_records (concat (map (\<lambda>(_, o', d). encode_delta_record_legacy o' d) rs)) = Some (map snd rs)"
proof -
  have all: "parse_delta_records_legacy (concat (map (\<lambda>(_, o', d). encode_delta_record_legacy o' d) rs)) = Some (map snd rs)"
    using assms(1)
  proof (induction rs)
    case Nil
    show ?case by (simp add: parse_delta_records_legacy.simps)
  next
    case (Cons r rs)
    obtain s off d where r: "r = (s, off, d)" by (cases r)
    from Cons show ?case using parse_legacy_encode [of off d] by (simp add: r wf_record_def)
  qed
  obtain s off d rs' where rs: "rs = (s, off, d) # rs'" using assms(2) by (cases rs) auto
  have "take 8 (concat (map (\<lambda>(_, o', d). encode_delta_record_legacy o' d) rs)) = to_le 8 off"
    by (simp add: rs encode_delta_record_legacy_def)
  moreover have "from_le (to_le 8 off) = off" using assms(3) by (intro u64_le) (simp add: rs CHUNK_SIZE_def)
  ultimately have "is_legacy_delta_format (concat (map (\<lambda>(_, o', d). encode_delta_record_legacy o' d) rs))"
    using assms(3) by (auto simp: is_legacy_delta_format_def rs CHUNK_SIZE_def DELTA_ACCUMULATOR_V2_MAGIC_def)
  with all show ?thesis by (simp add: parse_delta_records_def)
qed

section \<open>What a composition holds\<close>

definition composed_len :: "byte list \<Rightarrow> (nat \<times> byte list) list \<Rightarrow> nat" where
  "composed_len buf ps = fold (\<lambda>(off, d) n. max n (off + length d)) ps (length buf)"

definition covers :: "nat \<Rightarrow> nat \<times> byte list \<Rightarrow> bool" where
  "covers i p = (case p of (off, d) \<Rightarrow> off \<le> i \<and> i < off + length d)"

definition composed_byte :: "byte list \<Rightarrow> (nat \<times> byte list) list \<Rightarrow> nat \<Rightarrow> byte" where
  "composed_byte buf ps i =
     (case find (covers i) (rev ps) of
        Some (off, d) \<Rightarrow> d ! (i - off)
      | None \<Rightarrow> if i < length buf then buf ! i else 0)"

lemma apply_patch_nth:
  assumes "off + length d < 2 ^ 64"
  shows "\<exists>b. apply_patch_bytes (off, d) buf = Ret b \<and> length b = max (length buf) (off + length d) \<and>
    (\<forall>i < length b. b ! i = (if covers i (off, d) then d ! (i - off) else if i < length buf then buf ! i else 0))"
proof -
  define e where "e = off + length d"
  define buf' where "buf' = (if e > length buf then buf @ replicate (e - length buf) 0 else buf)"
  have len: "length buf' = max (length buf) e" by (simp add: buf'_def max_def)
  have nth: "buf' ! i = (if i < length buf then buf ! i else 0)" if "i < length buf'" for i
    using that by (simp add: buf'_def nth_append split: if_splits)
  have r: "apply_patch_bytes (off, d) buf = Ret (take off buf' @ d @ drop e buf')"
    using assms by (simp add: apply_patch_bytes_def buf'_def e_def Let_def)
  have l: "length (take off buf' @ d @ drop e buf') = max (length buf) e" using len by (simp add: e_def)
  have "(take off buf' @ d @ drop e buf') ! i =
      (if covers i (off, d) then d ! (i - off) else if i < length buf then buf ! i else 0)"
    if i: "i < length (take off buf' @ d @ drop e buf')" for i
    using i len nth [of i] l by (auto simp: nth_append covers_def e_def min_def)
  with r l show ?thesis by (simp add: e_def del: append_assoc)
qed

lemma find_append: "find P (xs @ ys) = (case find P xs of None \<Rightarrow> find P ys | Some x \<Rightarrow> Some x)"
  by (induction xs) auto

lemma apply_patches_nth:
  assumes "list_all (\<lambda>(off, d). off + length d < 2 ^ 64) ps"
  shows "apply_patches ps buf = Ret (map (composed_byte buf ps) [0..<composed_len buf ps])"
  using assms
proof (induction ps arbitrary: buf)
  case Nil
  show ?case by (auto simp: composed_len_def composed_byte_def intro!: nth_equalityI)
next
  case (Cons p ps)
  obtain off d where p: "p = (off, d)" by (cases p)
  with Cons.prems have "off + length d < 2 ^ 64" by simp
  from apply_patch_nth [OF this, of buf] obtain b where b: "apply_patch_bytes (off, d) buf = Ret b"
    "length b = max (length buf) (off + length d)"
    "\<forall>i < length b. b ! i = (if covers i (off, d) then d ! (i - off) else if i < length buf then buf ! i else 0)"
    by blast
  have len: "composed_len b ps = composed_len buf (p # ps)" by (simp add: composed_len_def p b(2))
  have byte: "composed_byte b ps i = composed_byte buf (p # ps) i" for i
  proof (cases "find (covers i) (rev ps)")
    case None
    have "\<not> i < length b \<Longrightarrow> \<not> covers i (off, d) \<and> \<not> i < length buf" using b(2) by (auto simp: covers_def)
    then show ?thesis using None b(3) by (auto simp: composed_byte_def find_append p)
  qed (simp add: composed_byte_def find_append split: prod.splits)
  from Cons.IH [of b] Cons.prems b(1) show ?case by (simp add: p len [unfolded p] byte [unfolded p])
qed

section \<open>Properties\<close>

text \<open>C7. Round trip of the delta formats: an accumulator of the current format decodes to its records
  in order of write sequence (records of one sequence in the order they were appended) and its
  greatest sequence is found; a file of older records, whose first offset lies within a chunk,
  decodes to them in the order they were appended.\<close>

theorem delta_roundtrip:
  assumes "list_all wf_record rs"
  shows "parse_delta_records (accumulator rs) = Some (map snd (sort_key fst rs)) \<and>
    max_seq_in_delta_records (accumulator rs) = (if rs = [] then None else Some (Max (fst ` set rs))) \<and>
    (rs \<noteq> [] \<longrightarrow> fst (snd (hd rs)) \<le> CHUNK_SIZE \<longrightarrow>
      parse_delta_records (concat (map (\<lambda>(_, o', d). encode_delta_record_legacy o' d) rs)) = Some (map snd rs))"
proof (intro conjI impI)
  show "parse_delta_records (accumulator rs) = Some (map snd (sort_key fst rs))"
    by (rule parse_accumulator [OF assms])
  show "max_seq_in_delta_records (accumulator rs) = (if rs = [] then None else Some (Max (fst ` set rs)))"
    unfolding max_seq_in_delta_records_def accumulator_format max_seq_concat [OF assms]
    by (cases rs) (simp_all add: accumulator_format fold_max_Some del: Max_insert)
  assume rs: "rs \<noteq> []" "fst (snd (hd rs)) \<le> CHUNK_SIZE"
  show "parse_delta_records (concat (map (\<lambda>(_, o', d). encode_delta_record_legacy o' d) rs)) = Some (map snd rs)"
    by (rule parse_legacy [OF assms rs])
qed

text \<open>C8. Composing a slot never panics and yields, at every position, the byte of the covering record
  with the highest sequence, the base byte where no record covers, and zero in a gap.\<close>

theorem compose_correct:
  assumes "list_all wf_record rs"
  shows "apply_delta_records_inner buf (accumulator rs) =
    Ret (Some (map (composed_byte buf (map snd (sort_key fst rs))) [0..<composed_len buf (map snd (sort_key fst rs))]))"
proof -
  have "list_all (\<lambda>(off, d). off + length d < 2 ^ 64) (map snd (sort_key fst rs))"
    using assms by (auto simp: list_all_iff wf_record_def)
  from apply_patches_nth [OF this, of buf] show ?thesis
    by (simp add: apply_delta_records_inner_def parse_accumulator [OF assms])
qed

text \<open>Replicas converge: two accumulators that hold the same patches, each patch's own records in
  the same order but the patches in any order of arrival, compose the same content on the same base.\<close>

theorem arrival_order_irrelevant:
  assumes "list_all wf_record rs" and "mset rs = mset rs'"
    and "\<And>s. filter (\<lambda>r. fst r = s) rs = filter (\<lambda>r. fst r = s) rs'"
  shows "apply_delta_records_inner buf (accumulator rs) = apply_delta_records_inner buf (accumulator rs')"
proof -
  have wf': "list_all wf_record rs'" using assms(1,2) by (metis list_all_iff set_mset_mset)
  have f: "filter (\<lambda>x. fst k = fst x) rs = filter (\<lambda>x. fst k = fst x) (sort_key fst rs')" for k :: delta_record
    using assms(3) [of "fst k"] by (simp add: sort_key_stable eq_commute)
  have "sort_key fst rs = sort_key fst rs'"
    by (rule properties_for_sort_key) (use assms(2) f in simp_all)
  then show ?thesis by (simp add: apply_delta_records_inner_def parse_accumulator assms(1) wf')
qed

section \<open>Witnesses\<close>

theorem delta_roundtrip_witness:
  "parse_delta_records (accumulator [(7, 4, [1, 2]), (3, 0, [9, 9, 9])]) = Some [(0, [9, 9, 9]), (4, [1, 2])]"
  using delta_roundtrip [of "[(7, 4, [1, 2]), (3, 0, [9, 9, 9])]"] by (simp add: wf_record_def)

theorem compose_correct_witness:
  "apply_delta_records_inner [5, 5] (accumulator [(7, 4, [1, 2]), (3, 1, [9, 9])]) = Ret (Some [5, 9, 9, 0, 1, 2])"
proof -
  have "apply_delta_records_inner [5, 5] (accumulator [(7, 4, [1, 2]), (3, 1, [9, 9])]) =
    Ret (Some (map (composed_byte [5, 5] [(1, [9, 9]), (4, [1, 2])]) [0..<composed_len [5, 5] [(1, [9, 9]), (4, [1, 2])]]))"
    using compose_correct [of "[(7, 4, [1, 2]), (3, 1, [9, 9])]" "[5, 5]"] by (simp add: wf_record_def)
  also have "\<dots> = Ret (Some [5, 9, 9, 0, 1, 2])" by code_simp
  finally show ?thesis .
qed

theorem arrival_order_irrelevant_witness:
  "apply_delta_records_inner [5] (accumulator [(7, 0, [1]), (3, 0, [2])]) =
   apply_delta_records_inner [5] (accumulator [(3, 0, [2]), (7, 0, [1])])"
  by (rule arrival_order_irrelevant) (auto simp: wf_record_def)

end
