(* ===== verification/Slot_Arbiter.thy ===== *)
theory Slot_Arbiter
  imports Dfs_Types "HOL-Library.Multiset" "HOL-Library.Product_Lexorder"
begin

text \<open>
  Which of two chunk locations holds a slot of a file, and how the node lists of one chunk's records
  are merged: \<open>location_supersedes\<close>, \<open>fold_successor_write_seq\<close>, \<open>bump_chunk_generation\<close>,
  \<open>is_superseded_token_location\<close> and \<open>merge_replicated_chunk_location\<close> of
  \<^verbatim>\<open>dfs-server/src/server.rs\<close>.

  Shown: on records that reached the write quorum and whose generations are known the rule is a
  lexicographic order, so the holder of a slot does not depend on the order of arrival; outside of
  that it is not even a total relation; a merge never takes a record below the replication factor;
  and the freshness test of a merge does not stop an older record from undoing a newer one.
\<close>

section \<open>Definitions\<close>

datatype PatchState =
    Pending (ps_base: ChunkId) (ps_delta: ChunkId) (ps_size: nat) (ps_written_at: nat)
      (ps_client_write_seq: "nat option")
  | Folded (ps_real: ChunkId)

definition fold_successor_write_seq :: "nat option \<Rightarrow> nat option \<Rightarrow> nat option" where
  "fold_successor_write_seq current_slot_seq delta_seq =
     (case (current_slot_seq, delta_seq) of
        (Some a, Some b) \<Rightarrow> Some (max a b)
      | (Some a, None) \<Rightarrow> Some a
      | (None, Some b) \<Rightarrow> Some b
      | (None, None) \<Rightarrow> None)"

definition bump_chunk_generation :: "ChunkId \<Rightarrow> nat \<Rightarrow> (ChunkId, nat) hash_map \<Rightarrow> (ChunkId, nat) hash_map" where
  "bump_chunk_generation c generation m =
     (case hm_get m c of
        Some _ \<Rightarrow> hm_modify c (\<lambda>g. if generation > g then generation else g) m
      | None \<Rightarrow> hm_insert c generation m)"

definition fold_then_written_at :: "ChunkLocation \<Rightarrow> ChunkLocation \<Rightarrow> bool \<Rightarrow> bool \<Rightarrow> bool" where
  "fold_then_written_at incoming existing incoming_is_fold existing_is_fold =
     (case (incoming_is_fold, existing_is_fold) of
        (True, False) \<Rightarrow> True
      | (False, True) \<Rightarrow> False
      | _ \<Rightarrow> unwrap_or 0 (cl_written_at incoming) \<ge> unwrap_or 0 (cl_written_at existing))"

definition seq_supersedes :: "ChunkLocation \<Rightarrow> ChunkLocation \<Rightarrow> bool \<Rightarrow> bool \<Rightarrow> bool" where
  "seq_supersedes incoming existing incoming_is_fold existing_is_fold =
     (case (cl_client_write_seq incoming, cl_client_write_seq existing) of
        (Some i, Some e) \<Rightarrow>
          if i \<noteq> e then i \<ge> e
          else fold_then_written_at incoming existing incoming_is_fold existing_is_fold
      | (Some _, None) \<Rightarrow> True
      | (None, Some _) \<Rightarrow> False
      | (None, None) \<Rightarrow> fold_then_written_at incoming existing incoming_is_fold existing_is_fold)"

definition location_supersedes ::
    "ChunkLocation \<Rightarrow> ChunkLocation \<Rightarrow> bool \<Rightarrow> bool \<Rightarrow> nat option \<Rightarrow> nat option \<Rightarrow> nat \<Rightarrow> bool" where
  "location_supersedes incoming existing incoming_is_fold existing_is_fold incoming_gen existing_gen durability_floor =
     (if \<not> incoming_is_fold \<and> length (cl_nodes incoming) < durability_floor \<and>
         length (cl_nodes incoming) < length (cl_nodes existing) then False
      else case (incoming_gen, existing_gen) of
        (Some ig, Some eg) \<Rightarrow>
          if ig \<noteq> eg then ig > eg
          else seq_supersedes incoming existing incoming_is_fold existing_is_fold
      | _ \<Rightarrow> seq_supersedes incoming existing incoming_is_fold existing_is_fold)"

text \<open>\<open>slot\<close> is what the metadata store answers for the slot of the location: \<open>None\<close> also on error.\<close>

definition is_superseded_token_location ::
    "(FileId \<Rightarrow> nat \<Rightarrow> (ChunkId \<times> PatchState) option) \<Rightarrow> nat \<Rightarrow> ChunkLocation \<Rightarrow> bool" where
  "is_superseded_token_location slot chunk_size l =
     (if \<not> looks_like_patch_token (cl_chunk_id l) then False
      else case (cl_file_id l, cl_file_offset l) of
        (Some fid, Some off) \<Rightarrow>
          (case cl_client_write_seq l of
             None \<Rightarrow> False
           | Some incoming_seq \<Rightarrow>
               (case slot fid (off div chunk_size) of
                  None \<Rightarrow> False
                | Some (current_token, state) \<Rightarrow>
                    if current_token = cl_chunk_id l then False
                    else (case state of
                            Pending _ _ _ _ (Some current_seq) \<Rightarrow> \<not> incoming_seq \<ge> current_seq
                          | _ \<Rightarrow> False)))
      | _ \<Rightarrow> False)"

definition or_else :: "'a option \<Rightarrow> 'a option \<Rightarrow> 'a option" where
  "or_else x y = (case x of None \<Rightarrow> y | Some _ \<Rightarrow> x)"

definition union_nodes :: "NodeId list \<Rightarrow> NodeId list \<Rightarrow> NodeId list" where
  "union_nodes existing incoming = fold (\<lambda>n merged. if n \<in> set merged then merged else merged @ [n]) incoming existing"

definition merged_nodes :: "nat \<Rightarrow> ChunkLocation \<Rightarrow> ChunkLocation \<Rightarrow> NodeId list option" where
  "merged_nodes rf l existing =
     (let ic = length (cl_nodes l); ec = length (cl_nodes existing);
          ts_ok = (unwrap_or 0 (cl_written_at l) \<ge> unwrap_or 0 (cl_written_at existing))
      in if ic < rf \<and> ec < rf then Some (union_nodes (cl_nodes existing) (cl_nodes l))
         else if ic > ec then Some (if ts_ok then cl_nodes l else cl_nodes existing)
         else if ic < rf \<and> ec \<ge> rf then None
         else Some (if ts_ok then cl_nodes l else cl_nodes existing))"

definition merge_replicated_chunk_location ::
    "nat \<Rightarrow> ChunkLocation \<Rightarrow> ChunkLocation option \<Rightarrow> nat \<Rightarrow> ChunkLocation option" where
  "merge_replicated_chunk_location now_ms l existing rf =
     (let l1 = (if cl_written_at l = None \<and> existing \<noteq> None then l\<lparr>cl_written_at := Some now_ms\<rparr> else l)
      in case existing of
           None \<Rightarrow> Some l1
         | Some e \<Rightarrow>
             (case merged_nodes rf l1 e of
                None \<Rightarrow> None
              | Some nodes \<Rightarrow>
                  Some \<lparr>cl_chunk_id = cl_chunk_id l1, cl_nodes = nodes, cl_size = cl_size l1,
                        cl_checksum = cl_checksum l1,
                        cl_file_offset = or_else (cl_file_offset l1) (cl_file_offset e),
                        cl_written_at = or_else (cl_written_at e) (cl_written_at l1),
                        cl_client_write_seq = or_else (cl_client_write_seq l1) (cl_client_write_seq e),
                        cl_file_id = or_else (cl_file_id l1) (cl_file_id e)\<rparr>))"

section \<open>The contract of an arbiter\<close>

text \<open>
  A rule that accepts an incoming candidate exactly when its key is at least the holder's. The
  holder after a sequence of arrivals is then a candidate with the greatest key.
\<close>

locale arbiter =
  fixes ok :: "'a \<Rightarrow> bool"
    and accepts :: "'a \<Rightarrow> 'a \<Rightarrow> bool"
    and key :: "'a \<Rightarrow> 'k::linorder"
  assumes accepts_key: "ok x \<Longrightarrow> ok y \<Longrightarrow> accepts x y \<longleftrightarrow> key y \<le> key x"
begin

lemma holder_max:
  assumes "ok x" and "list_all ok xs"
  defines "h \<equiv> fold (\<lambda>i e. if accepts i e then i else e) xs x"
  shows "h \<in> insert x (set xs) \<and> (\<forall>y \<in> insert x (set xs). key y \<le> key h)"
  using assms(1,2) unfolding h_def
proof (induction xs arbitrary: x)
  case (Cons i xs)
  let ?x = "if accepts i x then i else x"
  have "ok ?x" and "key i \<le> key ?x" and "key x \<le> key ?x" and "?x = i \<or> ?x = x"
    using Cons.prems accepts_key [of i x] by auto
  with Cons.IH [of ?x] Cons.prems show ?case by (auto intro: order.trans)
qed simp

lemma holder_unique:
  assumes "list_all ok (x # xs)" and "mset (x # xs) = mset (y # ys)" and "inj_on key (set (x # xs))"
  shows "fold (\<lambda>i e. if accepts i e then i else e) xs x = fold (\<lambda>i e. if accepts i e then i else e) ys y"
proof -
  have eq: "insert x (set xs) = insert y (set ys)" using assms(2) by (metis list.simps(15) set_mset_mset)
  have ok: "ok y" "list_all ok ys" using assms(1) eq by (auto simp: list_all_iff)
  have "key (fold (\<lambda>i e. if accepts i e then i else e) xs x) = key (fold (\<lambda>i e. if accepts i e then i else e) ys y)"
    using holder_max [of x xs] holder_max [OF ok] assms(1) eq by (intro order.antisym) auto
  moreover have "fold (\<lambda>i e. if accepts i e then i else e) xs x \<in> set (x # xs)"
    "fold (\<lambda>i e. if accepts i e then i else e) ys y \<in> set (x # xs)"
    using holder_max [of x xs] holder_max [OF ok] assms(1) eq by auto
  ultimately show ?thesis using assms(3) by (simp only: inj_on_eq_iff)
qed

end

section \<open>The slot rule as an arbiter\<close>

type_synonym candidate = "ChunkLocation \<times> bool \<times> nat option"

text \<open>A candidate: the location, whether it is a fold's result, and its generation.\<close>

definition cand_supersedes :: "nat \<Rightarrow> candidate \<Rightarrow> candidate \<Rightarrow> bool" where
  "cand_supersedes durability_floor i e =
     (case (i, e) of ((li, fi, gi), (le, fe, ge)) \<Rightarrow> location_supersedes li le fi fe gi ge durability_floor)"

definition cand_ok :: "nat \<Rightarrow> candidate \<Rightarrow> bool" where
  "cand_ok durability_floor c =
     (case c of (l, f, g) \<Rightarrow> g \<noteq> None \<and> (f \<or> durability_floor \<le> length (cl_nodes l)))"

definition seq_rank :: "nat option \<Rightarrow> nat" where
  "seq_rank s = (case s of None \<Rightarrow> 0 | Some n \<Rightarrow> Suc n)"

definition cand_key :: "candidate \<Rightarrow> nat \<times> nat \<times> bool \<times> nat" where
  "cand_key c = (case c of (l, f, g) \<Rightarrow>
     (unwrap_or 0 g, seq_rank (cl_client_write_seq l), f, unwrap_or 0 (cl_written_at l)))"

lemma seq_supersedes_key:
  "seq_supersedes li le fi fe \<longleftrightarrow>
   (seq_rank (cl_client_write_seq le), fe, unwrap_or 0 (cl_written_at le)) \<le>
   (seq_rank (cl_client_write_seq li), fi, unwrap_or 0 (cl_written_at li))"
  by (cases fi; cases fe)
    (auto simp: seq_supersedes_def fold_then_written_at_def seq_rank_def less_eq_prod_def split: option.splits)

lemma location_supersedes_key:
  assumes "cand_ok d i" and "cand_ok d e"
  shows "cand_supersedes d i e \<longleftrightarrow> cand_key e \<le> cand_key i"
proof -
  obtain li fi gi where i: "i = (li, fi, Some gi)" using assms(1) by (cases i) (auto simp: cand_ok_def)
  obtain le fe ge where e: "e = (le, fe, Some ge)" using assms(2) by (cases e) (auto simp: cand_ok_def)
  have "\<not> (\<not> fi \<and> length (cl_nodes li) < d)" using assms(1) by (auto simp: i cand_ok_def)
  then have "cand_supersedes d i e \<longleftrightarrow> (if gi \<noteq> ge then gi > ge else seq_supersedes li le fi fe)"
    by (auto simp: cand_supersedes_def location_supersedes_def i e)
  then show ?thesis unfolding seq_supersedes_key by (auto simp: i e cand_key_def less_eq_prod_def)
qed

interpretation slot: arbiter "cand_ok d" "cand_supersedes d" cand_key for d
  by unfold_locales (rule location_supersedes_key)

section \<open>Merging node lists\<close>

lemma union_nodes_facts:
  "set (union_nodes es is) = set es \<union> set is" "length es \<le> length (union_nodes es is)"
  "distinct es \<Longrightarrow> distinct (union_nodes es is)"
  unfolding union_nodes_def
proof (induction "is" arbitrary: es)
  case (Cons n ns)
  case 1 show ?case using Cons(1) [of "if n \<in> set es then es else es @ [n]"] by auto
  case 2 show ?case using Cons(2) [of "if n \<in> set es then es else es @ [n]"] by auto
  case 3 then show ?case using Cons(3) [of "if n \<in> set es then es else es @ [n]"] by auto
qed simp_all

lemma merged_nodes_facts:
  assumes "merged_nodes rf l e = Some ns"
  shows "min rf (length (cl_nodes e)) \<le> length ns" "set ns \<subseteq> set (cl_nodes e) \<union> set (cl_nodes l)"
    "distinct (cl_nodes l) \<Longrightarrow> distinct (cl_nodes e) \<Longrightarrow> distinct ns"
  using assms union_nodes_facts [of "cl_nodes e" "cl_nodes l"]
  by (auto simp: merged_nodes_def Let_def split: if_splits)

lemma bump_monotone:
  assumes "hm_wf m"
  shows "hm_wf (bump_chunk_generation c g m)"
    "hm_get (bump_chunk_generation c g m) k =
      (if k = c then Some (max g (unwrap_or 0 (hm_get m c))) else hm_get m k)"
  using assms by (auto simp: bump_chunk_generation_def hm.wf_put hm.get_put hm_get_modify max_def split: option.splits)

section \<open>Properties\<close>

text \<open>C9. The slot rule is an order on proper candidates: when both locations have a known generation
  and either reached the write quorum or are the result of a fold, the incoming one takes the slot
  exactly when (generation, write sequence, fold before client, time of writing) is at least the
  holder's, compared in this order; and the holder after any sequence of arrivals is one with the
  greatest such key.\<close>

theorem slot_rule_order:
  assumes "cand_ok d c" and "list_all (cand_ok d) cs"
  defines "h \<equiv> fold (\<lambda>i e. if cand_supersedes d i e then i else e) cs c"
  shows "(\<forall>i \<in> set cs. cand_supersedes d i c \<longleftrightarrow> cand_key c \<le> cand_key i) \<and>
    h \<in> insert c (set cs) \<and> (\<forall>y \<in> insert c (set cs). cand_key y \<le> cand_key h)"
  using slot.holder_max [OF assms(1,2)] assms(1,2) unfolding h_def
  by (auto simp: location_supersedes_key list_all_iff)

text \<open>A fold's result holds its slot against the writes it consolidated and yields it to the next
  client write: when the generations do not decide, it supersedes any quorum client record with the
  sequence of the slot or of the delta, is not superseded by it, and is superseded by every quorum
  client record with a higher sequence.\<close>

theorem fold_result_rank:
  assumes "cl_client_write_seq f = fold_successor_write_seq a b" and "d \<le> length (cl_nodes c)"
    and "gf = None \<or> gc = None \<or> gf = gc"
  shows "(cl_client_write_seq c \<in> {a, b} \<longrightarrow>
      location_supersedes f c True False gf gc d \<and> \<not> location_supersedes c f False True gc gf d) \<and>
    (\<forall>n. cl_client_write_seq c = Some n \<and> (\<forall>m. a = Some m \<or> b = Some m \<longrightarrow> m < n) \<longrightarrow>
      location_supersedes c f False True gc gf d \<and> \<not> location_supersedes f c True False gf gc d)"
proof -
  have "location_supersedes f c True False gf gc d = seq_supersedes f c True False"
    "location_supersedes c f False True gc gf d = seq_supersedes c f False True"
    using assms(2,3) by (auto simp: location_supersedes_def split: option.splits)
  then show ?thesis
    using assms(1) by (cases a; cases b)
      (auto simp: seq_supersedes_def fold_then_written_at_def fold_successor_write_seq_def all_conj_distrib
        max_def imp_conjL disj_imp split: option.splits if_splits)
qed

text \<open>The durability guard is not symmetric: a client record below the write quorum and with fewer
  replicas, but of a later generation, neither supersedes the record it follows nor is superseded by
  it, so the slot keeps whichever of the two arrived first.\<close>

theorem under_quorum_first_wins:
  assumes "length (cl_nodes l) < d" and "length (cl_nodes l) < length (cl_nodes e)" and "ge < gl"
  shows "\<not> location_supersedes l e False fe (Some gl) (Some ge) d \<and>
    \<not> location_supersedes e l fe False (Some ge) (Some gl) d"
  using assms by (auto simp: location_supersedes_def)

definition demo_loc :: "byte \<Rightarrow> nat \<Rightarrow> nat option \<Rightarrow> nat option \<Rightarrow> ChunkLocation" where
  "demo_loc b n seq wa = \<lparr>cl_chunk_id = ChunkId (replicate 32 b), cl_nodes = map (\<lambda>i. NodeId (word_of_nat i)) [0..<n],
     cl_size = CHUNK_SIZE, cl_checksum = replicate 32 b, cl_file_offset = Some 0, cl_written_at = wa,
     cl_client_write_seq = seq, cl_file_id = None\<rparr>"

text \<open>With one generation unknown the rule has cycles even among fully replicated client records:
  there are three of which each supersedes the next and none is superseded by the one it precedes.\<close>

theorem unknown_generation_cycle:
  "\<exists>a b c. location_supersedes a b False False (Some 2) (Some 1) 2 \<and>
     location_supersedes b c False False (Some 1) None 2 \<and> location_supersedes c a False False None (Some 2) 2 \<and>
     \<not> location_supersedes b a False False (Some 1) (Some 2) 2 \<and>
     \<not> location_supersedes c b False False None (Some 1) 2 \<and> \<not> location_supersedes a c False False (Some 2) None 2 \<and>
     length (cl_nodes a) = 3 \<and> length (cl_nodes b) = 3 \<and> length (cl_nodes c) = 3"
  by (intro exI [of _ "demo_loc 1 3 (Some 1) None"] exI [of _ "demo_loc 2 3 (Some 3) None"]
      exI [of _ "demo_loc 3 3 (Some 2) None"])
    (simp add: location_supersedes_def seq_supersedes_def demo_loc_def)

text \<open>Merging a replicated record never loses durability: the stored node list never falls below
  the smaller of the replication factor and what it was, invents no node, has no duplicates if
  neither record had any, and keeps the time the record was first written.\<close>

theorem merge_keeps_replicas:
  assumes "merge_replicated_chunk_location now l (Some e) rf = Some r"
  shows "min rf (length (cl_nodes e)) \<le> length (cl_nodes r) \<and> set (cl_nodes r) \<subseteq> set (cl_nodes e) \<union> set (cl_nodes l) \<and>
    (distinct (cl_nodes l) \<and> distinct (cl_nodes e) \<longrightarrow> distinct (cl_nodes r)) \<and>
    (cl_written_at e \<noteq> None \<longrightarrow> cl_written_at r = cl_written_at e)"
proof -
  define l1 where "l1 = (if cl_written_at l = None then l\<lparr>cl_written_at := Some now\<rparr> else l)"
  obtain ns where ns: "merged_nodes rf l1 e = Some ns" and r: "cl_nodes r = ns" "cl_written_at r = or_else (cl_written_at e) (cl_written_at l1)"
    using assms by (auto simp: merge_replicated_chunk_location_def Let_def l1_def split: option.splits)
  have "cl_nodes l1 = cl_nodes l" by (simp add: l1_def)
  with merged_nodes_facts [OF ns] r show ?thesis by (auto simp: or_else_def split: option.splits)
qed

text \<open>The freshness test of a merge does not protect a repair: after a newer record of the same
  size has replaced the nodes of a fully replicated one, the older record is accepted again and
  puts its own nodes back, because the stored time of writing is still the older record's.\<close>

theorem stale_record_reverts_repair:
  assumes "cl_written_at e = Some t0" and "cl_written_at l = Some t1" and "t0 < t1"
    and "length (cl_nodes l) = length (cl_nodes e)" and "rf \<le> length (cl_nodes e)"
  shows "\<exists>m m'. merge_replicated_chunk_location now l (Some e) rf = Some m \<and> cl_nodes m = cl_nodes l \<and>
    merge_replicated_chunk_location now' e (Some m) rf = Some m' \<and> cl_nodes m' = cl_nodes e"
  using assms by (auto simp: merge_replicated_chunk_location_def merged_nodes_def Let_def or_else_def)

section \<open>Witnesses\<close>

theorem slot_rule_order_witness:
  "fold (\<lambda>i e. if cand_supersedes 2 i e then i else e)
     [(demo_loc 1 3 (Some 9) None, False, Some 1), (demo_loc 2 3 (Some 4) None, False, Some 2)]
     (demo_loc 3 3 (Some 5) None, False, Some 1) = (demo_loc 2 3 (Some 4) None, False, Some 2)"
proof -
  let ?a = "(demo_loc 3 3 (Some 5) None, False, Some 1)"
  let ?b = "(demo_loc 1 3 (Some 9) None, False, Some 1)"
  let ?c = "(demo_loc 2 3 (Some 4) None, False, Some 2)"
  define h where "h = fold (\<lambda>i e. if cand_supersedes 2 i e then i else e) [?b, ?c] ?a"
  have "cand_ok 2 ?a" "list_all (cand_ok 2) [?b, ?c]" by (simp_all add: cand_ok_def demo_loc_def)
  from slot_rule_order [OF this] have "h \<in> insert ?a (set [?b, ?c]) \<and> (\<forall>y \<in> insert ?a (set [?b, ?c]). cand_key y \<le> cand_key h)"
    unfolding h_def by blast
  then have "h = ?a \<or> h = ?b \<or> h = ?c" and "cand_key ?c \<le> cand_key h" by auto
  then have "h = ?c" by (auto simp: cand_key_def less_eq_prod_def)
  then show ?thesis unfolding h_def .
qed

theorem fold_result_rank_witness:
  "location_supersedes (demo_loc 1 1 (Some 7) None) (demo_loc 2 3 (Some 7) (Some 99)) True False None None 2"
  using fold_result_rank [of "demo_loc 1 1 (Some 7) None" "Some 7" "Some 6" 2 "demo_loc 2 3 (Some 7) (Some 99)" None None]
  by (simp add: demo_loc_def fold_successor_write_seq_def)

theorem under_quorum_first_wins_witness:
  "\<not> location_supersedes (demo_loc 1 1 (Some 9) None) (demo_loc 2 3 (Some 4) None) False False (Some 5) (Some 4) 2 \<and>
   \<not> location_supersedes (demo_loc 2 3 (Some 4) None) (demo_loc 1 1 (Some 9) None) False False (Some 4) (Some 5) 2"
  by (rule under_quorum_first_wins) (simp_all add: demo_loc_def)

theorem merge_keeps_replicas_witness:
  "\<exists>r. merge_replicated_chunk_location 0 (demo_loc 1 1 None (Some 5)) (Some (demo_loc 1 2 None (Some 3))) 3 = Some r \<and>
     2 \<le> length (cl_nodes r)"
proof -
  obtain r where r: "merge_replicated_chunk_location 0 (demo_loc 1 1 None (Some 5)) (Some (demo_loc 1 2 None (Some 3))) 3 = Some r"
    by (simp add: merge_replicated_chunk_location_def merged_nodes_def demo_loc_def Let_def)
  with merge_keeps_replicas [OF r] show ?thesis by (auto simp: demo_loc_def)
qed

theorem stale_record_reverts_repair_witness:
  "\<exists>m m'. merge_replicated_chunk_location 0 ((demo_loc 1 3 None (Some 8))\<lparr>cl_nodes := [NodeId 7, NodeId 8, NodeId 9]\<rparr>)
       (Some (demo_loc 1 3 None (Some 3))) 3 = Some m \<and>
     merge_replicated_chunk_location 0 (demo_loc 1 3 None (Some 3)) (Some m) 3 = Some m' \<and>
     cl_nodes m' = cl_nodes (demo_loc 1 3 None (Some 3))"
  using stale_record_reverts_repair [of "demo_loc 1 3 None (Some 3)" 3
      "(demo_loc 1 3 None (Some 8))\<lparr>cl_nodes := [NodeId 7, NodeId 8, NodeId 9]\<rparr>" 8 3 0 0]
  by (auto simp: demo_loc_def)

end
