(* ===== verification/Chunk_Map.thy ===== *)
theory Chunk_Map
  imports Slot_Arbiter
begin

text \<open>
  The in-memory chunk map of a server (\<^verbatim>\<open>dfs-server/src/server.rs\<close>): for every file the location of
  each of its chunk slots, and the reverse index from chunks to files. Every function of the source
  that changes them is a function on \<open>ChunkState\<close>; \<open>on_disk\<close> says whether a chunk file exists,
  \<open>chunk_seq\<close> is the durable slot counter (\<open>None\<close> also on a read error), \<open>deleted\<close> is
  \<open>file_recently_deleted\<close>. The log is left out.

  Shown: the map stays sorted by slot and the reverse index in lockstep with it under every
  operation but the one that records a local patch; metadata pushes keep every slot they do not
  mention and never replace a slot by an older write; and a rebuild does not depend on the order in
  which the chunk table is scanned.
\<close>

section \<open>Definitions\<close>

datatype RclRejectClass = Older | EqualSeq | Newer

datatype SlotMergeOutcome =
    Applied (current: ChunkId)
  | Rejected (rej_class: RclRejectClass) (rej_idx: nat) (current: ChunkId) (kept_seq: "nat option")
      (kept_gen: "nat option") (kept_is_fold: bool) (dropped: ChunkId) (dropped_seq: "nat option")
      (dropped_gen: "nat option") (dropped_is_fold: bool)
  | Unplaceable
  | FileDeleted

definition applied :: "SlotMergeOutcome \<Rightarrow> bool" where
  "applied oc = (case oc of Applied _ \<Rightarrow> True | _ \<Rightarrow> False)"

definition current_chunk_id :: "SlotMergeOutcome \<Rightarrow> ChunkId option" where
  "current_chunk_id oc = (case oc of
      Applied c \<Rightarrow> Some c | Rejected _ _ c _ _ _ _ _ _ _ \<Rightarrow> Some c | Unplaceable \<Rightarrow> None | FileDeleted \<Rightarrow> None)"

record ChunkState =
  ck_map :: "(FileId, ChunkLocation list \<times> nat) hash_map"
  ck_to_file :: "(ChunkId, FileId) hash_map"
  ck_folds :: "ChunkId set"
  ck_gens :: "(ChunkId, nat) hash_map"
  ck_rf :: nat
  ck_rejected_older :: nat
  ck_rejected_equal :: nat
  ck_rejected_newer :: nat

definition cidx_of :: "ChunkLocation \<Rightarrow> nat" where
  "cidx_of l = (case cl_file_offset l of None \<Rightarrow> u64_max | Some off \<Rightarrow> off div CHUNK_SIZE)"

definition chunk_map_find_by_idx :: "ChunkLocation list \<Rightarrow> nat \<Rightarrow> nat option" where
  "chunk_map_find_by_idx locs chunk_idx =
     (let pos = partition_point (\<lambda>l. cidx_of l < chunk_idx) locs
      in if pos < length locs \<and> cidx_of (locs ! pos) = chunk_idx then Some pos else None)"

definition durability_floor :: "ChunkState \<Rightarrow> nat" where
  "durability_floor s = write_quorum (ck_rf s)"

subsection \<open>A whole metadata record\<close>

definition stale_push :: "(ChunkId \<Rightarrow> bool) \<Rightarrow> ChunkLocation \<Rightarrow> ChunkLocation \<Rightarrow> bool" where
  "stale_push on_disk l old =
     (case (cl_client_write_seq l, cl_client_write_seq old) of
        (Some i, Some e) \<Rightarrow> i < e
      | (Some _, None) \<Rightarrow> False
      | (None, Some _) \<Rightarrow> True
      | (None, None) \<Rightarrow>
          (case cl_written_at l of
             Some incoming_ts \<Rightarrow> unwrap_or 0 (cl_written_at old) > incoming_ts
           | None \<Rightarrow> \<not> on_disk (cl_chunk_id l)))"

definition guard_loc ::
    "(ChunkId \<Rightarrow> bool) \<Rightarrow> ChunkLocation list \<Rightarrow> ChunkLocation \<Rightarrow> ChunkLocation \<times> ChunkId list" where
  "guard_loc on_disk existing l =
     (case cl_file_offset l of
        None \<Rightarrow> (l, [])
      | Some off \<Rightarrow>
          (case chunk_map_find_by_idx existing (off div CHUNK_SIZE) of
             None \<Rightarrow> (l, [])
           | Some i \<Rightarrow>
               let old = existing ! i in
               if cl_chunk_id old = cl_chunk_id l then (l, [])
               else if stale_push on_disk l old then (old, [])
               else (l, [cl_chunk_id old])))"

definition keep_unmentioned ::
    "bool \<Rightarrow> nat \<Rightarrow> ChunkLocation \<Rightarrow> ChunkLocation list \<times> ChunkId list \<Rightarrow> ChunkLocation list \<times> ChunkId list" where
  "keep_unmentioned shrinks fsize old acc =
     (case acc of (locs, gone) \<Rightarrow>
        (case cl_file_offset old of
           None \<Rightarrow> (locs, gone)
         | Some old_off \<Rightarrow>
             if list_ex (\<lambda>l. map_option (\<lambda>off. off div CHUNK_SIZE) (cl_file_offset l) = Some (old_off div CHUNK_SIZE)) locs
             then (locs, gone)
             else if shrinks \<and> old_off \<ge> fsize then (locs, gone @ [cl_chunk_id old])
             else (locs @ [old], gone)))"

definition pushed_locs ::
    "(ChunkId \<Rightarrow> bool) \<Rightarrow> FileMetadata \<Rightarrow> (ChunkLocation list \<times> nat) option \<Rightarrow> ChunkLocation list \<times> ChunkId list" where
  "pushed_locs on_disk m entry =
     (case entry of
        Some (existing, map_seq) \<Rightarrow>
          let guarded = map (guard_loc on_disk existing) (fm_chunk_locations m);
              (locs, gone) = fold (keep_unmentioned (fm_write_seq m > map_seq) (fm_size m)) existing
                              (map fst guarded, concat (map snd guarded))
          in (sort_key offset_key locs, gone)
      | None \<Rightarrow> (fm_chunk_locations m, []))"

definition chunk_map_update :: "(ChunkId \<Rightarrow> bool) \<Rightarrow> FileMetadata \<Rightarrow> ChunkState \<Rightarrow> ChunkState" where
  "chunk_map_update on_disk m s =
     (let entry = hm_get (ck_map s) (fm_id m) in
      if fm_chunk_locations m \<noteq> [] then
        let (locs, superseded) = pushed_locs on_disk m entry;
            new_locs = filter (\<lambda>l. cl_file_offset l \<noteq> None) locs;
            to_file1 = fold (\<lambda>l. hm_insert (cl_chunk_id l) (fm_id m)) new_locs (ck_to_file s);
            to_file2 = fold hm_remove superseded to_file1;
            map_seq = (case entry of None \<Rightarrow> 0 | Some (_, q) \<Rightarrow> q)
        in s\<lparr>ck_to_file := to_file2,
             ck_map := hm_insert (fm_id m) (new_locs, max (fm_write_seq m) map_seq) (ck_map s)\<rparr>
      else if fm_size m = 0 then
        (case entry of
           Some (old_locs, map_seq) \<Rightarrow>
             if fm_write_seq m > map_seq then
               s\<lparr>ck_to_file := fold (\<lambda>l. hm_remove (cl_chunk_id l)) old_locs (ck_to_file s),
                 ck_map := hm_insert (fm_id m) ([], fm_write_seq m) (ck_map s)\<rparr>
             else s
         | None \<Rightarrow> s)
      else s)"

subsection \<open>One location\<close>

fun replace_first :: "ChunkLocation \<Rightarrow> ChunkLocation list \<Rightarrow> ChunkLocation list option" where
  "replace_first l [] = None"
| "replace_first l (x # xs) =
     (if cl_chunk_id x = cl_chunk_id l then Some (l # xs) else map_option ((#) x) (replace_first l xs))"

fun update_location_scan ::
    "ChunkLocation \<Rightarrow> (FileId \<times> ChunkLocation list \<times> nat) list \<Rightarrow>
     ((FileId \<times> ChunkLocation list \<times> nat) list \<times> FileId) option" where
  "update_location_scan l [] = None"
| "update_location_scan l ((f, locs, q) # m) =
     (case replace_first l locs of
        Some locs' \<Rightarrow> Some ((f, locs', q) # m, f)
      | None \<Rightarrow> map_option (\<lambda>(m', g). ((f, locs, q) # m', g)) (update_location_scan l m))"

definition chunk_map_update_location :: "ChunkLocation \<Rightarrow> ChunkState \<Rightarrow> ChunkState" where
  "chunk_map_update_location l s =
     (case update_location_scan l (ck_map s) of
        None \<Rightarrow> s
      | Some (m', f) \<Rightarrow> s\<lparr>ck_map := m', ck_to_file := hm_insert (cl_chunk_id l) f (ck_to_file s)\<rparr>)"

definition reject_class :: "ChunkLocation \<Rightarrow> ChunkLocation \<Rightarrow> RclRejectClass" where
  "reject_class l e =
     (case (cl_client_write_seq l, cl_client_write_seq e) of
        (Some i, Some x) \<Rightarrow> if i > x then Newer else if i < x then Older else EqualSeq
      | (None, Some _) \<Rightarrow> Older
      | (Some _, None) \<Rightarrow> Newer
      | (None, None) \<Rightarrow> EqualSeq)"

definition chunk_map_update_location_for_file_sync ::
    "bool \<Rightarrow> FileId \<Rightarrow> ChunkLocation \<Rightarrow> nat \<Rightarrow> ChunkState \<Rightarrow> ChunkState \<times> SlotMergeOutcome" where
  "chunk_map_update_location_for_file_sync with_gens fid l floor s =
     (let (locs, q) = (case hm_get (ck_map s) fid of
                         Some e \<Rightarrow> e | None \<Rightarrow> ([], unwrap_or 0 (cl_client_write_seq l)));
          s0 = s\<lparr>ck_map := hm_insert fid (locs, q) (ck_map s)\<rparr>;
          gen = (\<lambda>c. if with_gens then hm_get (ck_gens s) c else None)
      in case cl_file_offset l of
           Some off \<Rightarrow>
             let idx = off div CHUNK_SIZE;
                 pos = partition_point (\<lambda>x. cidx_of x < idx) locs
             in if pos < length locs \<and> cidx_of (locs ! pos) = idx then
                  let e = locs ! pos;
                      in_fold = (cl_chunk_id l \<in> ck_folds s); ex_fold = (cl_chunk_id e \<in> ck_folds s);
                      in_gen = gen (cl_chunk_id l); ex_gen = gen (cl_chunk_id e)
                  in if cl_chunk_id e = cl_chunk_id l \<or> location_supersedes l e in_fold ex_fold in_gen ex_gen floor
                     then (s0\<lparr>ck_to_file := hm_insert (cl_chunk_id l) fid (hm_remove (cl_chunk_id e) (ck_to_file s)),
                              ck_map := hm_insert fid (locs[pos := l], q) (ck_map s)\<rparr>,
                           Applied (cl_chunk_id l))
                     else (s0, Rejected (reject_class l e) idx (cl_chunk_id e) (cl_client_write_seq e) ex_gen ex_fold
                                (cl_chunk_id l) (cl_client_write_seq l) in_gen in_fold)
                else (s0\<lparr>ck_to_file := hm_insert (cl_chunk_id l) fid (ck_to_file s),
                         ck_map := hm_insert fid (take pos locs @ l # drop pos locs, q) (ck_map s)\<rparr>,
                      Applied (cl_chunk_id l))
         | None \<Rightarrow>
             (case replace_first l locs of
                Some locs' \<Rightarrow>
                  (s0\<lparr>ck_to_file := hm_insert (cl_chunk_id l) fid (ck_to_file s),
                      ck_map := hm_insert fid (locs', q) (ck_map s)\<rparr>, Applied (cl_chunk_id l))
              | None \<Rightarrow> (s0, Unplaceable)))"

definition meter_slot_merge_outcome :: "SlotMergeOutcome \<Rightarrow> ChunkState \<Rightarrow> ChunkState" where
  "meter_slot_merge_outcome oc s =
     (case oc of
        Rejected Newer _ _ _ _ _ _ _ _ _ \<Rightarrow> s\<lparr>ck_rejected_newer := Suc (ck_rejected_newer s)\<rparr>
      | Rejected Older _ _ _ _ _ _ _ _ _ \<Rightarrow> s\<lparr>ck_rejected_older := Suc (ck_rejected_older s)\<rparr>
      | Rejected EqualSeq _ _ _ _ _ _ _ _ _ \<Rightarrow> s\<lparr>ck_rejected_equal := Suc (ck_rejected_equal s)\<rparr>
      | _ \<Rightarrow> s)"

definition backfill_generation :: "(FileId \<Rightarrow> nat \<Rightarrow> nat option) \<Rightarrow> FileId \<Rightarrow> ChunkLocation \<Rightarrow> ChunkState \<Rightarrow> ChunkState" where
  "backfill_generation chunk_seq fid l s =
     (case cl_file_offset l of
        None \<Rightarrow> s
      | Some off \<Rightarrow>
          let idx = off div CHUNK_SIZE in
          (case hm_get (ck_map s) fid of
             None \<Rightarrow> s
           | Some (locs, _) \<Rightarrow>
               (case chunk_map_find_by_idx locs idx of
                  None \<Rightarrow> s
                | Some i \<Rightarrow>
                    let existing_id = cl_chunk_id (locs ! i) in
                    if existing_id \<noteq> cl_chunk_id l \<and> hm_get (ck_gens s) existing_id = None then
                      (case chunk_seq fid idx of
                         None \<Rightarrow> s
                       | Some g \<Rightarrow> s\<lparr>ck_gens := bump_chunk_generation existing_id g (ck_gens s)\<rparr>)
                    else s)))"

definition chunk_map_update_location_for_file ::
    "(FileId \<Rightarrow> bool) \<Rightarrow> (FileId \<Rightarrow> nat \<Rightarrow> nat option) \<Rightarrow> FileId \<Rightarrow> ChunkLocation \<Rightarrow>
     ChunkState \<Rightarrow> ChunkState \<times> SlotMergeOutcome" where
  "chunk_map_update_location_for_file deleted chunk_seq fid l s =
     (if deleted fid then (s, FileDeleted)
      else let s1 = backfill_generation chunk_seq fid l s;
               (s2, oc) = chunk_map_update_location_for_file_sync True fid l (durability_floor s1) s1
           in (meter_slot_merge_outcome oc s2, oc))"

subsection \<open>Whole entries, and the local patch\<close>

definition chunk_map_remove :: "FileId \<Rightarrow> ChunkState \<Rightarrow> ChunkState" where
  "chunk_map_remove fid s =
     (case hm_get (ck_map s) fid of
        None \<Rightarrow> s
      | Some (locs, _) \<Rightarrow>
          s\<lparr>ck_map := hm_remove fid (ck_map s),
            ck_to_file := fold (\<lambda>l. hm_remove (cl_chunk_id l)) locs (ck_to_file s)\<rparr>)"

definition find_file_by_chunk :: "ChunkState \<Rightarrow> ChunkId \<Rightarrow> FileId option" where
  "find_file_by_chunk s c = hm_get (ck_to_file s) c"

definition commit_chunk_map :: "FileId \<Rightarrow> ChunkLocation list \<Rightarrow> nat \<Rightarrow> ChunkState \<Rightarrow> ChunkState" where
  "commit_chunk_map fid locs write_seq s =
     (let old = (case hm_get (ck_map s) fid of None \<Rightarrow> [] | Some (ls, _) \<Rightarrow> ls);
          to_file1 = fold (\<lambda>l. hm_remove (cl_chunk_id l)) old (ck_to_file s)
      in s\<lparr>ck_map := hm_insert fid (locs, write_seq) (ck_map s),
           ck_to_file := fold (\<lambda>l. hm_insert (cl_chunk_id l) fid) locs to_file1\<rparr>)"

fun find_index :: "('a \<Rightarrow> bool) \<Rightarrow> 'a list \<Rightarrow> nat option" where
  "find_index P [] = None"
| "find_index P (x # xs) = (if P x then Some 0 else map_option Suc (find_index P xs))"

text \<open>The new state, and the location that the slot kept when the update was refused as stale.\<close>

definition update_chunk_map_after_patch ::
    "FileId \<Rightarrow> nat option \<Rightarrow> ChunkId \<Rightarrow> ChunkId \<Rightarrow> nat \<Rightarrow> nat \<Rightarrow> nat option \<Rightarrow>
     ChunkState \<Rightarrow> ChunkState \<times> ChunkLocation option" where
  "update_chunk_map_after_patch fid chunk_idx old_id new_id sz written_at_ms new_seq s =
     (if new_id = old_id then (s, None)
      else case hm_get (ck_map s) fid of
        None \<Rightarrow> (s, None)
      | Some (locs, q) \<Rightarrow>
          (case find_index (\<lambda>l. case chunk_idx of
                               Some idx \<Rightarrow> map_option (\<lambda>off. off div CHUNK_SIZE) (cl_file_offset l) = Some idx
                             | None \<Rightarrow> cl_chunk_id l = old_id) locs of
             None \<Rightarrow> (s, None)
           | Some i \<Rightarrow>
               let l = locs ! i;
                   stale = (case (new_seq, cl_client_write_seq l) of
                              (Some n, Some e) \<Rightarrow> n < e | (Some _, None) \<Rightarrow> False
                            | (None, Some _) \<Rightarrow> True | (None, None) \<Rightarrow> False)
               in if stale then (s, Some l)
                  else (s\<lparr>ck_map := hm_insert fid (locs[i := l\<lparr>cl_chunk_id := new_id, cl_checksum := hash new_id,
                             cl_size := sz, cl_written_at := Some written_at_ms, cl_client_write_seq := new_seq\<rparr>], q)
                            (ck_map s)\<rparr>, None)))"

text \<open>The rebuild at start-up: every row of the chunk table, in the order of the scan.\<close>

definition rebuild_step :: "(FileId \<Rightarrow> nat option) \<Rightarrow> nat \<Rightarrow> ChunkLocation \<Rightarrow> ChunkState \<Rightarrow> ChunkState" where
  "rebuild_step file_write_seqs floor l s =
     (case cl_file_id l of
        None \<Rightarrow> s
      | Some fid \<Rightarrow>
          let s1 = fst (chunk_map_update_location_for_file_sync False fid l floor s)
          in s1\<lparr>ck_map := hm_modify fid (\<lambda>(locs, q). (locs, max q (unwrap_or 0 (file_write_seqs fid)))) (ck_map s1)\<rparr>)"

definition rebuild_chunk_map :: "(FileId \<Rightarrow> nat option) \<Rightarrow> ChunkLocation list \<Rightarrow> ChunkState \<Rightarrow> ChunkState" where
  "rebuild_chunk_map file_write_seqs rows s = fold (rebuild_step file_write_seqs (durability_floor s)) rows s"

end
