(* ===== verification/Chunk_Map_Laws.thy ===== *)
theory Chunk_Map_Laws
  imports Chunk_Map
begin

text \<open>
  The laws of the chunk map. A chunk id is a hash over the file, the offset and the content, so it
  belongs to one slot of one file: \<open>own\<close> names that slot, and a location is \<open>owned\<close> when it carries
  an offset in the slot its id belongs to.
\<close>

section \<open>Slots of one file\<close>

definition slots_ok :: "ChunkLocation list \<Rightarrow> bool" where
  "slots_ok locs \<longleftrightarrow> sorted_wrt (<) (map cidx_of locs) \<and> (\<forall>l \<in> set locs. cl_file_offset l \<noteq> None)"

lemma slot_pos:
  fixes i :: nat
  assumes "sorted_wrt (<) (map cidx_of locs)"
  defines "pos \<equiv> partition_point (\<lambda>l. cidx_of l < i) locs"
  shows "pos \<le> length locs" "\<forall>l \<in> set (take pos locs). cidx_of l < i" "\<forall>l \<in> set (drop pos locs). i \<le> cidx_of l"
proof -
  have s: "sorted (map cidx_of locs)" using assms(1) by (rule strict_sorted_imp_sorted)
  note part = sorted_partitioned [OF s, of i]
  have pos: "pos = length (takeWhile (\<lambda>l. cidx_of l < i) locs)"
    unfolding pos_def by (rule partition_point_takeWhile [OF part])
  have take: "take pos locs = takeWhile (\<lambda>l. cidx_of l < i) locs" unfolding pos by (rule takeWhile_eq_take [symmetric])
  have drop: "drop pos locs = dropWhile (\<lambda>l. cidx_of l < i) locs" unfolding pos by (rule dropWhile_eq_drop [symmetric])
  show "pos \<le> length locs" unfolding pos by (rule length_takeWhile_le)
  show "\<forall>l \<in> set (take pos locs). cidx_of l < i" unfolding take using set_takeWhileD by fast
  show "\<forall>l \<in> set (drop pos locs). i \<le> cidx_of l" using part unfolding drop partitioned_def by (simp add: not_less)
qed

lemma slot_hit:
  fixes i :: nat
  assumes "sorted_wrt (<) (map cidx_of locs)"
  defines "pos \<equiv> partition_point (\<lambda>l. cidx_of l < i) locs"
  shows "pos < length locs \<and> cidx_of (locs ! pos) = i \<longleftrightarrow> (\<exists>l \<in> set locs. cidx_of l = i)"
    and "p < length locs \<Longrightarrow> cidx_of (locs ! p) = i \<Longrightarrow> p = pos"
proof -
  note pos = slot_pos [OF assms(1), of i, folded pos_def]
  show eq: "p = pos" if p: "p < length locs" "cidx_of (locs ! p) = i" for p
  proof (cases p pos rule: linorder_cases)
    case less
    then have "take pos locs ! p \<in> set (take pos locs)" using p(1) by (intro nth_mem) simp
    with pos(2) less p(2) show ?thesis by auto
  next
    case greater
    then have "drop pos locs ! 0 \<in> set (drop pos locs)" using p(1) by (intro nth_mem) simp
    with pos(3) greater p(1) have "i \<le> cidx_of (locs ! pos)" by simp
    moreover have "cidx_of (locs ! pos) < cidx_of (locs ! p)"
      using assms(1) p(1) greater by (simp add: sorted_wrt_iff_nth_less)
    ultimately show ?thesis using p(2) by simp
  qed
  show "pos < length locs \<and> cidx_of (locs ! pos) = i \<longleftrightarrow> (\<exists>l \<in> set locs. cidx_of l = i)"
  proof
    assume "\<exists>l \<in> set locs. cidx_of l = i"
    then obtain p where "p < length locs" "cidx_of (locs ! p) = i" by (auto simp: in_set_conv_nth)
    with eq [of p] show "pos < length locs \<and> cidx_of (locs ! pos) = i" by simp
  qed auto
qed

lemma find_by_idx_iff:
  assumes "sorted_wrt (<) (map cidx_of locs)"
  shows "chunk_map_find_by_idx locs i = Some p \<longleftrightarrow> p < length locs \<and> cidx_of (locs ! p) = i"
    "chunk_map_find_by_idx locs i = None \<longleftrightarrow> (\<forall>l \<in> set locs. cidx_of l \<noteq> i)"
  using slot_hit [OF assms] by (auto simp: chunk_map_find_by_idx_def Let_def)

lemma slots_replace:
  assumes "slots_ok locs" and "p < length locs" and "cidx_of l = cidx_of (locs ! p)" and "cl_file_offset l \<noteq> None"
  shows "slots_ok (locs[p := l])"
proof -
  have "map cidx_of (locs[p := l]) = map cidx_of locs" using assms(2,3) by (simp add: map_update list_update_same_conv)
  then show ?thesis using assms(1,4) set_update_subset_insert [of locs p l] by (auto simp: slots_ok_def)
qed

lemma slots_insert:
  assumes "slots_ok locs" and "cl_file_offset l \<noteq> None" and "\<forall>x \<in> set locs. cidx_of x \<noteq> cidx_of l"
  defines "pos \<equiv> partition_point (\<lambda>x. cidx_of x < cidx_of l) locs"
  shows "slots_ok (take pos locs @ l # drop pos locs)"
proof -
  have s: "sorted_wrt (<) (map cidx_of locs)" using assms(1) by (simp add: slots_ok_def)
  note pos = slot_pos [OF s, of "cidx_of l", folded pos_def]
  define xs ys where "xs = take pos locs" and "ys = drop pos locs"
  have split: "locs = xs @ ys" by (simp add: xs_def ys_def)
  have lt: "\<forall>x \<in> set xs. cidx_of x < cidx_of l" and "\<forall>x \<in> set ys. cidx_of l \<le> cidx_of x"
    using pos(2,3) by (simp_all add: xs_def ys_def)
  moreover have "\<forall>x \<in> set ys. cidx_of x \<noteq> cidx_of l" using assms(3) split by auto
  ultimately have gt: "\<forall>x \<in> set ys. cidx_of l < cidx_of x" by fastforce
  have "slots_ok (xs @ ys)" using assms(1) split by simp
  then show ?thesis using lt gt assms(2) unfolding xs_def [symmetric] ys_def [symmetric]
    by (auto simp: slots_ok_def sorted_wrt_append)
qed

section \<open>Lockstep of the map and its reverse index\<close>

definition owned :: "(ChunkId \<Rightarrow> FileId \<times> nat) \<Rightarrow> FileId \<Rightarrow> ChunkLocation \<Rightarrow> bool" where
  "owned own f l \<longleftrightarrow> cl_file_offset l \<noteq> None \<and> own (cl_chunk_id l) = (f, cidx_of l)"

definition locs_of :: "ChunkState \<Rightarrow> FileId \<Rightarrow> ChunkLocation list" where
  "locs_of s f = (case hm_get (ck_map s) f of None \<Rightarrow> [] | Some (locs, _) \<Rightarrow> locs)"

definition ids :: "ChunkLocation list \<Rightarrow> ChunkId set" where
  "ids locs = cl_chunk_id ` set locs"

definition lockstep :: "(ChunkId \<Rightarrow> FileId \<times> nat) \<Rightarrow> ChunkState \<Rightarrow> bool" where
  "lockstep own s \<longleftrightarrow> hm_wf (ck_map s) \<and> hm_wf (ck_to_file s) \<and>
     (\<forall>f. slots_ok (locs_of s f) \<and> (\<forall>l \<in> set (locs_of s f). owned own f l)) \<and>
     (\<forall>c f. hm_get (ck_to_file s) c = Some f \<longleftrightarrow> c \<in> ids (locs_of s f))"

lemma lockstepD:
  assumes "lockstep own s"
  shows "slots_ok (locs_of s f)" "l \<in> set (locs_of s f) \<Longrightarrow> owned own f l"
    "hm_get (ck_to_file s) c = Some f \<longleftrightarrow> c \<in> ids (locs_of s f)"
    "hm_wf (ck_map s)" "hm_wf (ck_to_file s)"
  using assms by (simp_all add: lockstep_def)

text \<open>Replacing the slots of one file, with a reverse index that follows.\<close>

lemma lockstep_set:
  assumes "lockstep own s" and "slots_ok locs" and "\<forall>l \<in> set locs. owned own f l" and "hm_wf t"
    and "\<And>c. hm_get t c = Some f \<longleftrightarrow> c \<in> ids locs"
    and "\<And>c g. g \<noteq> f \<Longrightarrow> hm_get t c = Some g \<longleftrightarrow> hm_get (ck_to_file s) c = Some g"
    and "hm_wf (ck_map s')" and "\<And>g. locs_of s' g = (if g = f then locs else locs_of s g)" and "ck_to_file s' = t"
  shows "lockstep own s'"
  unfolding lockstep_def
proof (intro conjI allI)
  show "hm_wf (ck_map s')" "hm_wf (ck_to_file s')" using assms by simp_all
  show "slots_ok (locs_of s' g)" "\<forall>l \<in> set (locs_of s' g). owned own g l" for g
    using assms(2,3,8) lockstepD(1) [OF assms(1), of g] lockstepD(2) [OF assms(1), where f = g]
    by (cases "g = f"; simp)+
  show "(hm_get (ck_to_file s') c = Some g) = (c \<in> ids (locs_of s' g))" for c g
    using assms(5,6,8,9) lockstepD(3) [OF assms(1), of c g] by (cases "g = f") simp_all
qed

lemma locs_of_insert: "hm_wf (ck_map s) \<Longrightarrow> ck_map s' = hm_insert f (locs, q) (ck_map s) \<Longrightarrow>
    locs_of s' g = (if g = f then locs else locs_of s g)"
  by (simp add: locs_of_def hm.get_put)

lemma owned_unique: "owned own f l \<Longrightarrow> owned own g l' \<Longrightarrow> cl_chunk_id l = cl_chunk_id l' \<Longrightarrow> f = g \<and> cidx_of l = cidx_of l'"
  by (auto simp: owned_def)

lemma slot_id_unique:
  assumes "slots_ok locs" and "\<forall>l \<in> set locs. owned own f l" and "l \<in> set locs" and "l' \<in> set locs"
    and "cl_chunk_id l = cl_chunk_id l'"
  shows "l = l'"
proof -
  have "cidx_of l = cidx_of l'" using owned_unique [of own f l f l'] assms(2-5) by simp
  moreover have "distinct (map cidx_of locs)" using assms(1) by (simp add: slots_ok_def strict_sorted_iff)
  ultimately show ?thesis using assms(3,4) by (auto simp: distinct_map dest: inj_onD)
qed

section \<open>The map as a function of slots\<close>

definition slot :: "ChunkLocation list \<Rightarrow> nat \<Rightarrow> ChunkLocation option" where
  "slot locs i = map_of (map (\<lambda>l. (cidx_of l, l)) locs) i"

lemma slot_iff: "slots_ok locs \<Longrightarrow> slot locs i = Some l \<longleftrightarrow> l \<in> set locs \<and> cidx_of l = i"
proof -
  assume "slots_ok locs"
  then have "distinct (map fst (map (\<lambda>l. (cidx_of l, l)) locs))"
    by (simp add: slots_ok_def strict_sorted_iff comp_def)
  then show ?thesis by (auto simp: slot_def map_of_eq_Some_iff)
qed

lemma slot_None: "slot locs i = None \<longleftrightarrow> (\<forall>l \<in> set locs. cidx_of l \<noteq> i)"
  by (force simp: slot_def map_of_eq_None_iff)

lemma slot_eqI:
  assumes "slots_ok locs" and "slots_ok locs'" and "\<And>l. l \<in> set locs \<and> cidx_of l = i \<longleftrightarrow> l \<in> set locs' \<and> cidx_of l = i"
  shows "slot locs i = slot locs' i"
proof (cases "slot locs i")
  case None
  then show ?thesis using assms(3) by (metis slot_None)
next
  case (Some l)
  then show ?thesis using assms slot_iff by metis
qed

text \<open>The slot rule as the state sees it.\<close>

definition takes_slot :: "bool \<Rightarrow> nat \<Rightarrow> ChunkState \<Rightarrow> ChunkLocation \<Rightarrow> ChunkLocation \<Rightarrow> bool" where
  "takes_slot with_gens floor s l e \<longleftrightarrow> cl_chunk_id e = cl_chunk_id l \<or>
     location_supersedes l e (cl_chunk_id l \<in> ck_folds s) (cl_chunk_id e \<in> ck_folds s)
       (if with_gens then hm_get (ck_gens s) (cl_chunk_id l) else None)
       (if with_gens then hm_get (ck_gens s) (cl_chunk_id e) else None) floor"

lemma sync_cases:
  fixes s :: ChunkState and fid :: FileId and with_gens :: bool and floor :: nat
  assumes "cl_file_offset l \<noteq> None"
  defines "locs \<equiv> locs_of s fid"
  defines "pos \<equiv> partition_point (\<lambda>x. cidx_of x < cidx_of l) locs"
  defines "r \<equiv> chunk_map_update_location_for_file_sync with_gens fid l floor s"
  shows "\<exists>locs' q. ck_map (fst r) = hm_insert fid (locs', q) (ck_map s) \<and>
    ck_folds (fst r) = ck_folds s \<and> ck_gens (fst r) = ck_gens s \<and> ck_rf (fst r) = ck_rf s \<and>
    (if pos < length locs \<and> cidx_of (locs ! pos) = cidx_of l then
       if takes_slot with_gens floor s l (locs ! pos)
       then locs' = locs[pos := l] \<and>
         ck_to_file (fst r) = hm_insert (cl_chunk_id l) fid (hm_remove (cl_chunk_id (locs ! pos)) (ck_to_file s))
       else locs' = locs \<and> ck_to_file (fst r) = ck_to_file s
     else locs' = take pos locs @ l # drop pos locs \<and> ck_to_file (fst r) = hm_insert (cl_chunk_id l) fid (ck_to_file s))"
proof -
  obtain off where off: "cl_file_offset l = Some off" using assms(1) by blast
  have i: "off div CHUNK_SIZE = cidx_of l" by (simp add: cidx_of_def off)
  obtain q where q: "(case hm_get (ck_map s) fid of Some e \<Rightarrow> e | None \<Rightarrow> ([], unwrap_or 0 (cl_client_write_seq l))) = (locs, q)"
    by (cases "hm_get (ck_map s) fid") (auto simp: locs_def locs_of_def)
  note r = chunk_map_update_location_for_file_sync_def [of with_gens fid l floor s, unfolded q Let_def off option.case prod.case i,
      folded r_def pos_def]
  show ?thesis unfolding r by (auto simp: takes_slot_def)
qed

text \<open>The reverse index after one location of a file is replaced or added.\<close>

lemma ids_update:
  assumes "slots_ok locs" and "\<forall>x \<in> set locs. owned own f x" and "p < length locs" and "owned own f l"
    and "cidx_of l = cidx_of (locs ! p)"
  shows "c \<in> ids (locs[p := l]) \<longleftrightarrow> c = cl_chunk_id l \<or> c \<in> ids locs \<and> c \<noteq> cl_chunk_id (locs ! p)"
proof -
  have d: "distinct locs" using assms(1) by (simp add: slots_ok_def strict_sorted_iff distinct_map)
  then have "set (locs[p := l]) = insert l (set locs - {locs ! p})" using assms(3) by (simp add: set_update_distinct)
  moreover have "cl_chunk_id x = cl_chunk_id (locs ! p) \<longleftrightarrow> x = locs ! p" if "x \<in> set locs" for x
    using slot_id_unique [OF assms(1,2) that nth_mem [OF assms(3)]] by auto
  ultimately show ?thesis by (auto simp: ids_def)
qed

lemma lockstep_foreign: "lockstep own s \<Longrightarrow> owned own f l \<Longrightarrow> hm_get (ck_to_file s) (cl_chunk_id l) = Some g \<Longrightarrow> g = f"
  using lockstepD(2) lockstepD(3) by (fastforce simp: ids_def owned_def)

lemma lockstep_sync:
  assumes ls: "lockstep own s" and own: "owned own fid l"
  shows "lockstep own (fst (chunk_map_update_location_for_file_sync with_gens fid l floor s))"
proof -
  define locs where "locs = locs_of s fid"
  define pos where "pos = partition_point (\<lambda>x. cidx_of x < cidx_of l) locs"
  define s' where "s' = fst (chunk_map_update_location_for_file_sync with_gens fid l floor s)"
  note d = lockstepD [OF ls]
  have off: "cl_file_offset l \<noteq> None" using own by (simp add: owned_def)
  obtain locs' q where map: "ck_map s' = hm_insert fid (locs', q) (ck_map s)" and cases:
    "if pos < length locs \<and> cidx_of (locs ! pos) = cidx_of l then
       if takes_slot with_gens floor s l (locs ! pos)
       then locs' = locs[pos := l] \<and>
         ck_to_file s' = hm_insert (cl_chunk_id l) fid (hm_remove (cl_chunk_id (locs ! pos)) (ck_to_file s))
       else locs' = locs \<and> ck_to_file s' = ck_to_file s
     else locs' = take pos locs @ l # drop pos locs \<and> ck_to_file s' = hm_insert (cl_chunk_id l) fid (ck_to_file s)"
    using sync_cases [OF off, where s = s and fid = fid and with_gens = with_gens and floor = floor] unfolding locs_def pos_def s'_def by blast
  have ok: "slots_ok locs" and all: "\<forall>x \<in> set locs. owned own fid x" using d(1,2) by (simp_all add: locs_def)
  have T: "hm_get (ck_to_file s) c = Some fid \<longleftrightarrow> c \<in> ids locs" for c unfolding locs_def by (rule d(3))
  note set = lockstep_set [OF ls, where s' = s' and f = fid and locs = locs']
  note rest = locs_of_insert [OF d(4) map] hm.wf_put [OF d(4), of fid "(locs', q)", folded map]
  show ?thesis unfolding s'_def [symmetric]
  proof (cases "pos < length locs \<and> cidx_of (locs ! pos) = cidx_of l")
    case True
    then have e: "owned own fid (locs ! pos)" using all by simp
    show "lockstep own s'"
    proof (cases "takes_slot with_gens floor s l (locs ! pos)")
      case accept: True
      with True cases have s': "locs' = locs[pos := l]"
        "ck_to_file s' = hm_insert (cl_chunk_id l) fid (hm_remove (cl_chunk_id (locs ! pos)) (ck_to_file s))" by simp_all
      show ?thesis
      proof (rule set [OF _ _ _ _ _ rest(2) rest(1) refl])
        show "slots_ok locs'" unfolding s' using True off by (intro slots_replace [OF ok]) simp_all
        show "\<forall>x \<in> set locs'. owned own fid x" unfolding s' using all own set_update_subset_insert [of locs pos l] by blast
        show "hm_wf (ck_to_file s')" unfolding s' by (intro hm.wf_put hm.wf_del d(5))
        show "hm_get (ck_to_file s') c = Some fid \<longleftrightarrow> c \<in> ids locs'" for c
          using True ids_update [OF ok all _ own, of pos c] T [of c] d(5) by (auto simp: s' hm.get_put hm.get_del hm.wf_del)
        show "hm_get (ck_to_file s') c = Some g \<longleftrightarrow> hm_get (ck_to_file s) c = Some g" if "g \<noteq> fid" for c g
          using that lockstep_foreign [OF ls own, of g] lockstep_foreign [OF ls e, of g] d(5)
          by (auto simp: s' hm.get_put hm.get_del hm.wf_del)
      qed
    next
      case False
      with True cases have s': "locs' = locs" "ck_to_file s' = ck_to_file s" by simp_all
      show ?thesis
        by (rule set [OF _ _ _ _ _ rest(2) rest(1) refl]) (use s' ok all d(5) T in auto)
    qed
  next
    case False
    with cases have s': "locs' = take pos locs @ l # drop pos locs" "ck_to_file s' = hm_insert (cl_chunk_id l) fid (ck_to_file s)"
      by (simp_all del: de_Morgan_conj)
    have "set (take pos locs) \<union> set (drop pos locs) = set locs" by (metis append_take_drop_id set_append)
    then have set_locs': "set locs' = insert l (set locs)" unfolding s' by auto
    have none: "\<forall>x \<in> set locs. cidx_of x \<noteq> cidx_of l"
      using False slot_hit(1) [of locs "cidx_of l"] ok by (auto simp: slots_ok_def pos_def)
    show "lockstep own s'"
    proof (rule set [OF _ _ _ _ _ rest(2) rest(1) refl])
      show "slots_ok locs'" unfolding s' pos_def by (rule slots_insert [OF ok off none])
      show "\<forall>x \<in> set locs'. owned own fid x" unfolding set_locs' using all own by simp
      show "hm_wf (ck_to_file s')" unfolding s' by (intro hm.wf_put d(5))
      show "hm_get (ck_to_file s') c = Some fid \<longleftrightarrow> c \<in> ids locs'" for c
        using T [of c] d(5) by (auto simp: s'(2) ids_def set_locs' hm.get_put)
      show "hm_get (ck_to_file s') c = Some g \<longleftrightarrow> hm_get (ck_to_file s) c = Some g" if "g \<noteq> fid" for c g
        using that lockstep_foreign [OF ls own, of g] d(5) by (auto simp: s' hm.get_put)
    qed
  qed
qed

section \<open>One location, as an operation on a slot\<close>

definition put_slot :: "bool \<Rightarrow> nat \<Rightarrow> ChunkState \<Rightarrow> ChunkLocation \<Rightarrow> ChunkLocation option \<Rightarrow> ChunkLocation option" where
  "put_slot with_gens floor s l cur =
     Some (case cur of None \<Rightarrow> l | Some e \<Rightarrow> if takes_slot with_gens floor s l e then l else e)"

lemma slots_put_cases:
  assumes ok: "slots_ok locs" and off: "cl_file_offset l \<noteq> None"
  defines "pos \<equiv> partition_point (\<lambda>x. cidx_of x < cidx_of l) locs"
  shows "pos < length locs \<and> cidx_of (locs ! pos) = cidx_of l \<Longrightarrow>
      slot locs (cidx_of l) = Some (locs ! pos) \<and> slot (locs[pos := l]) j = (if j = cidx_of l then Some l else slot locs j)"
    and "\<not> (pos < length locs \<and> cidx_of (locs ! pos) = cidx_of l) \<Longrightarrow>
      slot locs (cidx_of l) = None \<and>
      slot (take pos locs @ l # drop pos locs) j = (if j = cidx_of l then Some l else slot locs j)"
proof -
  let ?P = "pos < length locs \<and> cidx_of (locs ! pos) = cidx_of l"
  show "slot locs (cidx_of l) = Some (locs ! pos) \<and> slot (locs[pos := l]) j = (if j = cidx_of l then Some l else slot locs j)"
    if P: ?P
  proof
    show "slot locs (cidx_of l) = Some (locs ! pos)" using P by (simp add: slot_iff [OF ok])
    have "map (\<lambda>l. (cidx_of l, l)) (locs[pos := l]) = (map (\<lambda>l. (cidx_of l, l)) locs)[pos := (cidx_of l, l)]"
      by (simp add: map_update)
    have d: "distinct locs" using ok by (simp add: slots_ok_def strict_sorted_iff distinct_map)
    then have set: "set (locs[pos := l]) = insert l (set locs - {locs ! pos})" using P by (simp add: set_update_distinct)
    have ok': "slots_ok (locs[pos := l])" using P off by (intro slots_replace [OF ok]) simp_all
    show "slot (locs[pos := l]) j = (if j = cidx_of l then Some l else slot locs j)"
    proof (cases "j = cidx_of l")
      case False
      then have "slot (locs[pos := l]) j = slot locs j" using P by (intro slot_eqI [OF ok' ok]) (auto simp: set)
      with False show ?thesis by simp
    qed (simp add: slot_iff [OF ok'] set)
  qed
  show "slot locs (cidx_of l) = None \<and>
      slot (take pos locs @ l # drop pos locs) j = (if j = cidx_of l then Some l else slot locs j)" if P: "\<not> ?P"
  proof
    have none: "\<forall>x \<in> set locs. cidx_of x \<noteq> cidx_of l"
      using P slot_hit(1) [of locs "cidx_of l"] ok by (auto simp: slots_ok_def pos_def)
    then show "slot locs (cidx_of l) = None" by (simp add: slot_None)
    have ok': "slots_ok (take pos locs @ l # drop pos locs)" unfolding pos_def by (rule slots_insert [OF ok off none])
    have "set (take pos locs) \<union> set (drop pos locs) = set locs" by (metis append_take_drop_id set_append)
    then have set: "set (take pos locs @ l # drop pos locs) = insert l (set locs)" by auto
    show "slot (take pos locs @ l # drop pos locs) j = (if j = cidx_of l then Some l else slot locs j)"
    proof (cases "j = cidx_of l")
      case False
      then have "slot (take pos locs @ l # drop pos locs) j = slot locs j"
        by (intro slot_eqI [OF ok' ok]) (unfold set, auto)
      with False show ?thesis by simp
    qed (unfold slot_iff [OF ok'] set if_P, simp add: slot_iff [OF ok', unfolded set])
  qed
qed

lemma sync_slot:
  fixes with_gens :: bool and floor :: nat
  assumes ls: "lockstep own s" and own: "owned own fid l"
  defines "s' \<equiv> fst (chunk_map_update_location_for_file_sync with_gens fid l floor s)"
  shows "slot (locs_of s' g) j =
      (if g = fid \<and> j = cidx_of l then put_slot with_gens floor s l (slot (locs_of s g) j) else slot (locs_of s g) j)"
    and "ck_folds s' = ck_folds s" "ck_gens s' = ck_gens s" "ck_rf s' = ck_rf s"
proof -
  define locs where "locs = locs_of s fid"
  define pos where "pos = partition_point (\<lambda>x. cidx_of x < cidx_of l) locs"
  have off: "cl_file_offset l \<noteq> None" using own by (simp add: owned_def)
  have ok: "slots_ok locs" using lockstepD(1) [OF ls] by (simp add: locs_def)
  obtain locs' q where map: "ck_map s' = hm_insert fid (locs', q) (ck_map s)" and cases:
    "if pos < length locs \<and> cidx_of (locs ! pos) = cidx_of l then
       if takes_slot with_gens floor s l (locs ! pos) then locs' = locs[pos := l] else locs' = locs
     else locs' = take pos locs @ l # drop pos locs"
    and same: "ck_folds s' = ck_folds s" "ck_gens s' = ck_gens s" "ck_rf s' = ck_rf s"
    using sync_cases [OF off, where s = s and fid = fid and with_gens = with_gens and floor = floor]
    unfolding locs_def pos_def s'_def by (metis (no_types, lifting))
  show "ck_folds s' = ck_folds s" "ck_gens s' = ck_gens s" "ck_rf s' = ck_rf s" by (rule same)+
  note put = slots_put_cases [OF ok off, folded pos_def]
  have "slot locs' j = (if j = cidx_of l then put_slot with_gens floor s l (slot locs j) else slot locs j)"
  proof (cases "pos < length locs \<and> cidx_of (locs ! pos) = cidx_of l")
    case True
    with put(1) [OF True, of j] cases show ?thesis by (auto simp: put_slot_def)
  next
    case False
    with put(2) [OF False, of j] cases show ?thesis by (auto simp: put_slot_def simp del: de_Morgan_conj)
  qed
  then show "slot (locs_of s' g) j =
      (if g = fid \<and> j = cidx_of l then put_slot with_gens floor s l (slot (locs_of s g) j) else slot (locs_of s g) j)"
    using locs_of_insert [OF lockstepD(4) [OF ls] map, of g]
    by (cases "g = fid"; cases "j = cidx_of l") (simp_all add: locs_def)
qed

section \<open>The rebuild\<close>

lemma rebuild_step_facts:
  fixes seqs :: "FileId \<Rightarrow> nat option" and floor :: nat
  assumes ls: "lockstep own s" and row: "cl_file_id l = Some f" "owned own f l"
  defines "s' \<equiv> rebuild_step seqs floor l s"
  shows "lockstep own s'"
    and "slot (locs_of s' g) j = (if g = f \<and> j = cidx_of l then put_slot False floor s l (slot (locs_of s g) j)
      else slot (locs_of s g) j)"
    and "ck_folds s' = ck_folds s" "ck_rf s' = ck_rf s"
proof -
  define s1 where "s1 = fst (chunk_map_update_location_for_file_sync False f l floor s)"
  have s': "s' = s1\<lparr>ck_map := hm_modify f (\<lambda>(locs, q). (locs, max q (unwrap_or 0 (seqs f)))) (ck_map s1)\<rparr>"
    by (simp add: s'_def rebuild_step_def row(1) s1_def Let_def)
  have locs: "locs_of s' g = locs_of s1 g" for g
    by (auto simp: locs_of_def s' hm_get_modify split: option.splits)
  have "lockstep own s1" unfolding s1_def by (rule lockstep_sync [OF ls row(2)])
  then show "lockstep own s'" unfolding lockstep_def locs by (simp add: s')
  show "slot (locs_of s' g) j = (if g = f \<and> j = cidx_of l then put_slot False floor s l (slot (locs_of s g) j)
      else slot (locs_of s g) j)"
    unfolding locs s1_def by (rule sync_slot(1) [OF ls row(2)])
  show "ck_folds s' = ck_folds s" "ck_rf s' = ck_rf s"
    using sync_slot(2,4) [OF ls row(2), where with_gens = False and floor = floor] by (simp_all add: s' s1_def)
qed

definition rows_of :: "FileId \<Rightarrow> nat \<Rightarrow> ChunkLocation list \<Rightarrow> ChunkLocation list" where
  "rows_of f i rows = filter (\<lambda>l. cl_file_id l = Some f \<and> cidx_of l = i) rows"

definition row_ok :: "(ChunkId \<Rightarrow> FileId \<times> nat) \<Rightarrow> ChunkLocation \<Rightarrow> bool" where
  "row_ok own l \<longleftrightarrow> (\<forall>f. cl_file_id l = Some f \<longrightarrow> owned own f l)"

lemma rebuild_fold:
  assumes "lockstep own s" and "list_all (row_ok own) rows"
  shows "lockstep own (fold (rebuild_step seqs floor) rows s) \<and>
    slot (locs_of (fold (rebuild_step seqs floor) rows s) f) i =
      fold (put_slot False floor s) (rows_of f i rows) (slot (locs_of s f) i)"
  using assms
proof (induction rows arbitrary: s)
  case (Cons l rows)
  define s' where "s' = rebuild_step seqs floor l s"
  have step: "lockstep own s' \<and> ck_folds s' = ck_folds s \<and>
    slot (locs_of s' f) i = (if cl_file_id l = Some f \<and> cidx_of l = i then put_slot False floor s l (slot (locs_of s f) i)
      else slot (locs_of s f) i)"
  proof (cases "cl_file_id l")
    case None
    with Cons.prems show ?thesis by (simp add: s'_def rebuild_step_def)
  next
    case (Some g)
    with Cons.prems have "owned own g l" by (simp add: row_ok_def)
    from rebuild_step_facts [OF Cons.prems(1) Some this, of seqs floor, folded s'_def] Some show ?thesis by auto
  qed
  have put: "put_slot False floor s' = put_slot False floor s"
    using step by (intro ext) (simp add: put_slot_def takes_slot_def split: option.split)
  have "list_all (row_ok own) rows" using Cons.prems by simp
  from Cons.IH [of s', OF _ this] step show ?case by (simp add: s'_def [symmetric] rows_of_def put)
qed (simp add: rows_of_def)

text \<open>The key by which the rebuild ranks the rows of a slot.\<close>

definition row_key :: "ChunkId set \<Rightarrow> ChunkLocation \<Rightarrow> nat \<times> bool \<times> nat" where
  "row_key folds l = (seq_rank (cl_client_write_seq l), cl_chunk_id l \<in> folds, unwrap_or 0 (cl_written_at l))"

definition row_durable :: "ChunkId set \<Rightarrow> nat \<Rightarrow> ChunkLocation \<Rightarrow> bool" where
  "row_durable folds floor l \<longleftrightarrow> cl_chunk_id l \<in> folds \<or> floor \<le> length (cl_nodes l)"

interpretation scan: arbiter "row_durable folds floor"
  "\<lambda>l e. location_supersedes l e (cl_chunk_id l \<in> folds) (cl_chunk_id e \<in> folds) None None floor"
  "row_key folds" for folds floor
proof
  show "location_supersedes x y (cl_chunk_id x \<in> folds) (cl_chunk_id y \<in> folds) None None floor =
      (row_key folds y \<le> row_key folds x)" if "row_durable folds floor x" for folds floor x y
    using that by (auto simp: location_supersedes_def seq_supersedes_key row_durable_def row_key_def)
qed

lemma put_slot_fold:
  assumes "distinct (map cl_chunk_id (l # ls))"
  shows "fold (put_slot False floor s) ls (Some l) =
    Some (fold (\<lambda>l e. if location_supersedes l e (cl_chunk_id l \<in> ck_folds s) (cl_chunk_id e \<in> ck_folds s) None None floor
      then l else e) ls l)"
  using assms
proof (induction ls arbitrary: l)
  case (Cons x xs)
  let ?w = "if location_supersedes x l (cl_chunk_id x \<in> ck_folds s) (cl_chunk_id l \<in> ck_folds s) None None floor then x else l"
  have "put_slot False floor s x (Some l) = Some ?w" using Cons.prems by (simp add: put_slot_def takes_slot_def)
  moreover have "distinct (map cl_chunk_id (?w # xs))" using Cons.prems by simp
  ultimately show ?case using Cons.IH [of ?w] by simp
qed simp

section \<open>A metadata push\<close>

definition mentions :: "ChunkLocation list \<Rightarrow> nat \<Rightarrow> bool" where
  "mentions locs i \<longleftrightarrow> (\<exists>l \<in> set locs. cl_file_offset l \<noteq> None \<and> cidx_of l = i)"

definition past_end :: "bool \<Rightarrow> nat \<Rightarrow> ChunkLocation \<Rightarrow> bool" where
  "past_end shrinks fsize l \<longleftrightarrow> shrinks \<and> unwrap_or 0 (cl_file_offset l) \<ge> fsize"

lemma keep_unmentioned_fold:
  assumes "distinct (map cidx_of existing)" and "\<forall>l \<in> set existing. cl_file_offset l \<noteq> None"
  shows "fold (keep_unmentioned sh n) existing (locs, gone) =
    (locs @ filter (\<lambda>e. \<not> mentions locs (cidx_of e) \<and> \<not> past_end sh n e) existing,
     gone @ map cl_chunk_id (filter (\<lambda>e. \<not> mentions locs (cidx_of e) \<and> past_end sh n e) existing))"
  using assms
proof (induction existing arbitrary: locs gone)
  case (Cons e es)
  obtain off where off: "cl_file_offset e = Some off" using Cons.prems(2) by auto
  have ex: "list_ex (\<lambda>l. map_option (\<lambda>off. off div CHUNK_SIZE) (cl_file_offset l) = Some (off div CHUNK_SIZE)) locs
      \<longleftrightarrow> mentions locs (cidx_of e)"
    unfolding list_ex_iff mentions_def by (rule bex_cong [OF refl]) (auto simp: cidx_of_def off)
  have step: "keep_unmentioned sh n e (locs, gone) =
      (if mentions locs (cidx_of e) then (locs, gone)
       else if past_end sh n e then (locs, gone @ [cl_chunk_id e]) else (locs @ [e], gone))"
    unfolding keep_unmentioned_def off prod.case option.case ex past_end_def by simp
  have same: "mentions (locs @ [e]) (cidx_of x) = mentions locs (cidx_of x)" if "x \<in> set es" for x
    using that Cons.prems by (force simp: mentions_def)
  have cong: "filter (\<lambda>x. \<not> mentions (locs @ [e]) (cidx_of x) \<and> P x) es = filter (\<lambda>x. \<not> mentions locs (cidx_of x) \<and> P x) es" for P
    by (rule filter_cong) (simp_all add: same)
  have tail: "distinct (map cidx_of es)" "\<forall>l \<in> set es. cl_file_offset l \<noteq> None" using Cons.prems by simp_all
  show ?case using Cons.IH [OF tail] by (simp add: step cong)
qed simp

lemma guard_loc_facts:
  assumes "slots_ok existing" and "\<forall>x \<in> set existing. owned own f x" and "owned own f l"
  shows "owned own f (fst (guard_loc od existing l))" "cidx_of (fst (guard_loc od existing l)) = cidx_of l"
    "slot existing (cidx_of l) = None \<Longrightarrow> guard_loc od existing l = (l, [])"
    "slot existing (cidx_of l) = Some e \<Longrightarrow> guard_loc od existing l =
      (if cl_chunk_id e = cl_chunk_id l then (l, []) else if stale_push od l e then (e, []) else (l, [cl_chunk_id e]))"
proof -
  obtain off where off: "cl_file_offset l = Some off" using assms(3) by (auto simp: owned_def)
  have i: "off div CHUNK_SIZE = cidx_of l" by (simp add: cidx_of_def off)
  have sorted: "sorted_wrt (<) (map cidx_of existing)" using assms(1) by (simp add: slots_ok_def)
  show none: "guard_loc od existing l = (l, [])" if "slot existing (cidx_of l) = None"
    using that find_by_idx_iff(2) [OF sorted, of "cidx_of l"] by (simp add: guard_loc_def off i slot_None)
  show some: "guard_loc od existing l =
      (if cl_chunk_id e = cl_chunk_id l then (l, []) else if stale_push od l e then (e, []) else (l, [cl_chunk_id e]))"
    if "slot existing (cidx_of l) = Some e" for e
  proof -
    have e: "e \<in> set existing" "cidx_of e = cidx_of l" using that by (simp_all add: slot_iff [OF assms(1)])
    then obtain p where p: "p < length existing" "existing ! p = e" by (auto simp: in_set_conv_nth)
    with e(2) have "chunk_map_find_by_idx existing (cidx_of l) = Some p" by (simp add: find_by_idx_iff [OF sorted])
    with p(2) show ?thesis by (simp add: guard_loc_def off i Let_def)
  qed
  have "owned own f (fst (guard_loc od existing l)) \<and> cidx_of (fst (guard_loc od existing l)) = cidx_of l"
  proof (cases "slot existing (cidx_of l)")
    case (Some e)
    then have "e \<in> set existing" "cidx_of e = cidx_of l" by (simp_all add: slot_iff [OF assms(1)])
    then show ?thesis using some [OF Some] assms(2,3) by simp
  qed (use none assms(3) in simp)
  then show "owned own f (fst (guard_loc od existing l))" "cidx_of (fst (guard_loc od existing l)) = cidx_of l" by simp_all
qed

lemma sorted_offsets_slots:
  assumes "\<forall>l \<in> set locs. cl_file_offset l \<noteq> None" and "distinct (map cidx_of locs)"
  shows "slots_ok (sort_key offset_key locs)"
proof -
  have "sorted (map offset_key (sort_key offset_key locs))" by simp
  then have "sorted_wrt (\<lambda>a b. offset_key a \<le> offset_key b) (sort_key offset_key locs)" by (simp add: sorted_map)
  then have "sorted_wrt (\<lambda>a b. cidx_of a \<le> cidx_of b) (sort_key offset_key locs)"
  proof (rule sorted_wrt_mono_rel [rotated])
    fix a b assume "a \<in> set (sort_key offset_key locs)" "b \<in> set (sort_key offset_key locs)" "offset_key a \<le> offset_key b"
    then show "cidx_of a \<le> cidx_of b"
      using assms(1) by (auto simp: cidx_of_def offset_key_def div_le_mono split: option.splits)
  qed
  moreover have "distinct (map cidx_of (sort_key offset_key locs))"
    using assms(2) by (simp add: distinct_map)
  ultimately show ?thesis using assms(1) by (simp add: slots_ok_def strict_sorted_iff sorted_map)
qed

definition meta_ok :: "(ChunkId \<Rightarrow> FileId \<times> nat) \<Rightarrow> FileMetadata \<Rightarrow> bool" where
  "meta_ok own m \<longleftrightarrow> (\<forall>l \<in> set (fm_chunk_locations m). owned own (fm_id m) l) \<and>
     sorted_wrt (<) (map cidx_of (fm_chunk_locations m))"

definition map_seq :: "ChunkState \<Rightarrow> FileId \<Rightarrow> nat" where
  "map_seq s f = (case hm_get (ck_map s) f of None \<Rightarrow> 0 | Some (_, q) \<Rightarrow> q)"

text \<open>What a push leaves in a slot that it mentions, and in one that it does not.\<close>

definition pushed_slot :: "(ChunkId \<Rightarrow> bool) \<Rightarrow> FileMetadata \<Rightarrow> ChunkState \<Rightarrow> nat \<Rightarrow> ChunkLocation option" where
  "pushed_slot od m s i =
     (case (slot (fm_chunk_locations m) i, slot (locs_of s (fm_id m)) i) of
        (Some l, None) \<Rightarrow> Some l
      | (Some l, Some e) \<Rightarrow> Some (if cl_chunk_id e \<noteq> cl_chunk_id l \<and> stale_push od l e then e else l)
      | (None, Some e) \<Rightarrow> if past_end (fm_write_seq m > map_seq s (fm_id m)) (fm_size m) e then None else Some e
      | (None, None) \<Rightarrow> None)"

definition guarded_locs :: "(ChunkId \<Rightarrow> bool) \<Rightarrow> FileMetadata \<Rightarrow> ChunkLocation list \<Rightarrow> ChunkLocation list" where
  "guarded_locs od m ex = map (\<lambda>l. fst (guard_loc od ex l)) (fm_chunk_locations m)"

definition kept_locs :: "(ChunkId \<Rightarrow> bool) \<Rightarrow> FileMetadata \<Rightarrow> ChunkLocation list \<Rightarrow> nat \<Rightarrow> ChunkLocation list" where
  "kept_locs od m ex q = filter (\<lambda>e. \<not> mentions (guarded_locs od m ex) (cidx_of e) \<and>
     \<not> past_end (fm_write_seq m > q) (fm_size m) e) ex"

definition gone_ids :: "(ChunkId \<Rightarrow> bool) \<Rightarrow> FileMetadata \<Rightarrow> ChunkLocation list \<Rightarrow> nat \<Rightarrow> ChunkId list" where
  "gone_ids od m ex q = concat (map (\<lambda>l. snd (guard_loc od ex l)) (fm_chunk_locations m)) @
     map cl_chunk_id (filter (\<lambda>e. \<not> mentions (guarded_locs od m ex) (cidx_of e) \<and>
       past_end (fm_write_seq m > q) (fm_size m) e) ex)"

lemma pushed_locs_eq:
  assumes "slots_ok ex"
  shows "pushed_locs od m (Some (ex, q)) = (sort_key offset_key (guarded_locs od m ex @ kept_locs od m ex q), gone_ids od m ex q)"
proof -
  have "distinct (map cidx_of ex)" and "\<forall>l \<in> set ex. cl_file_offset l \<noteq> None"
    using assms by (simp_all add: slots_ok_def strict_sorted_iff)
  from keep_unmentioned_fold [OF this] show ?thesis
    by (simp add: pushed_locs_def Let_def guarded_locs_def kept_locs_def gone_ids_def comp_def)
qed

lemma guarded_facts:
  assumes ok: "slots_ok ex" and all: "\<forall>x \<in> set ex. owned own (fm_id m) x" and m: "meta_ok own m"
  shows "map cidx_of (guarded_locs od m ex) = map cidx_of (fm_chunk_locations m)"
    "\<forall>l \<in> set (guarded_locs od m ex). owned own (fm_id m) l"
    "mentions (guarded_locs od m ex) i \<longleftrightarrow> slot (fm_chunk_locations m) i \<noteq> None"
proof -
  have inc: "\<forall>l \<in> set (fm_chunk_locations m). owned own (fm_id m) l" using m by (simp add: meta_ok_def)
  show idx: "map cidx_of (guarded_locs od m ex) = map cidx_of (fm_chunk_locations m)"
    using guard_loc_facts(2) [OF ok all] inc by (simp add: guarded_locs_def)
  show own: "\<forall>l \<in> set (guarded_locs od m ex). owned own (fm_id m) l"
    using guard_loc_facts(1) [OF ok all] inc by (auto simp: guarded_locs_def)
  have "mentions (guarded_locs od m ex) i \<longleftrightarrow> i \<in> set (map cidx_of (guarded_locs od m ex))"
    using own by (auto simp: mentions_def owned_def)
  then show "mentions (guarded_locs od m ex) i \<longleftrightarrow> slot (fm_chunk_locations m) i \<noteq> None"
    unfolding idx by (auto simp: slot_None)
qed

lemma merged_slots:
  fixes od :: "ChunkId \<Rightarrow> bool" and q :: nat
  assumes ok: "slots_ok ex" and all: "\<forall>x \<in> set ex. owned own (fm_id m) x" and m: "meta_ok own m"
  defines "locs \<equiv> sort_key offset_key (guarded_locs od m ex @ kept_locs od m ex q)"
  shows "slots_ok locs" "\<forall>l \<in> set locs. owned own (fm_id m) l"
proof -
  note gs = guarded_facts [OF ok all m, of od]
  have kept: "set (kept_locs od m ex q) \<subseteq> set ex" by (auto simp: kept_locs_def)
  have own: "\<forall>l \<in> set (guarded_locs od m ex @ kept_locs od m ex q). owned own (fm_id m) l" using gs(2) kept all by auto
  have "distinct (map cidx_of (kept_locs od m ex q))"
    unfolding kept_locs_def using ok by (intro distinct_map_filter) (simp add: slots_ok_def strict_sorted_iff)
  moreover have "distinct (map cidx_of (guarded_locs od m ex))"
    unfolding gs(1) using m by (simp add: meta_ok_def strict_sorted_iff)
  moreover have "set (map cidx_of (guarded_locs od m ex)) \<inter> set (map cidx_of (kept_locs od m ex q)) = {}"
    using gs(2) by (fastforce simp: kept_locs_def mentions_def owned_def)
  ultimately have "distinct (map cidx_of (guarded_locs od m ex @ kept_locs od m ex q))"
    by (simp only: map_append distinct_append)
  with own show "slots_ok locs" unfolding locs_def by (intro sorted_offsets_slots) (auto simp: owned_def)
  show "\<forall>l \<in> set locs. owned own (fm_id m) l" using own by (simp add: locs_def)
qed

lemma merged_slot:
  fixes od :: "ChunkId \<Rightarrow> bool" and q :: nat
  assumes ls: "lockstep own s" and m: "meta_ok own m" and e: "hm_get (ck_map s) (fm_id m) = Some (ex, q)"
  defines "locs \<equiv> sort_key offset_key (guarded_locs od m ex @ kept_locs od m ex q)"
  shows "slot locs i = pushed_slot od m s i"
proof -
  have ex: "locs_of s (fm_id m) = ex" "map_seq s (fm_id m) = q" using e by (simp_all add: locs_of_def map_seq_def)
  have ok: "slots_ok ex" and all: "\<forall>x \<in> set ex. owned own (fm_id m) x" using lockstepD(1,2) [OF ls] ex by blast+
  have okm: "slots_ok (fm_chunk_locations m)" using m by (auto simp: meta_ok_def slots_ok_def owned_def)
  note okl = merged_slots(1) [OF ok all m, of od q, folded locs_def]
  note gs = guarded_facts [OF ok all m, of od]
  have set: "set locs = set (guarded_locs od m ex) \<union> set (kept_locs od m ex q)" by (simp add: locs_def)
  show ?thesis
  proof (cases "slot (fm_chunk_locations m) i")
    case (Some l)
    then have l: "l \<in> set (fm_chunk_locations m)" "cidx_of l = i" "owned own (fm_id m) l"
      using m by (auto simp: slot_iff [OF okm] meta_ok_def)
    note g = guard_loc_facts [OF ok all l(3), where od = od]
    have "slot locs i = Some (fst (guard_loc od ex l))"
      using l g(2) by (auto simp: slot_iff [OF okl] set guarded_locs_def)
    then show ?thesis using g(3,4) l(2) by (cases "slot ex i") (auto simp: pushed_slot_def ex Some)
  next
    case None
    then have nm: "\<not> mentions (guarded_locs od m ex) i" using gs(3) [of i] by simp
    then have none: "x \<notin> set (guarded_locs od m ex)" if "cidx_of x = i" for x
      using that gs(2) by (fastforce simp: mentions_def owned_def)
    have kept: "x \<in> set (kept_locs od m ex q) \<longleftrightarrow> x \<in> set ex \<and> \<not> past_end (fm_write_seq m > q) (fm_size m) x" if "cidx_of x = i" for x
      using that nm by (auto simp: kept_locs_def)
    show ?thesis
    proof (cases "slot locs i")
      case N: None
      then have "slot ex i = Some e \<Longrightarrow> past_end (fm_write_seq m > q) (fm_size m) e" for e
        using kept by (auto simp: slot_None set slot_iff [OF ok])
      with N show ?thesis by (auto simp: pushed_slot_def None ex split: option.splits)
    next
      case S: (Some x)
      then have "slot ex i = Some x \<and> \<not> past_end (fm_write_seq m > q) (fm_size m) x"
        using kept none by (auto simp: slot_iff [OF okl] slot_iff [OF ok] set)
      with S show ?thesis by (simp add: pushed_slot_def None ex)
    qed
  qed
qed

lemma gone_iff:
  assumes ok: "slots_ok ex" and all: "\<forall>x \<in> set ex. owned own (fm_id m) x" and m: "meta_ok own m"
  shows "c \<in> set (gone_ids od m ex q) \<longleftrightarrow> (\<exists>y \<in> set ex. cl_chunk_id y = c \<and>
      (case slot (fm_chunk_locations m) (cidx_of y) of
         None \<Rightarrow> past_end (fm_write_seq m > q) (fm_size m) y
       | Some l \<Rightarrow> c \<noteq> cl_chunk_id l \<and> \<not> stale_push od l y))" (is "_ \<longleftrightarrow> ?R")
proof
  have okm: "slots_ok (fm_chunk_locations m)" using m by (auto simp: meta_ok_def slots_ok_def owned_def)
  have own_m: "owned own (fm_id m) l" if "l \<in> set (fm_chunk_locations m)" for l using that m by (simp add: meta_ok_def)
  assume "c \<in> set (gone_ids od m ex q)"
  then consider (g) l where "l \<in> set (fm_chunk_locations m)" "c \<in> set (snd (guard_loc od ex l))"
    | (d) y where "y \<in> set ex" "cl_chunk_id y = c" "\<not> mentions (guarded_locs od m ex) (cidx_of y)"
        "past_end (fm_write_seq m > q) (fm_size m) y"
    by (auto simp: gone_ids_def)
  then show ?R
  proof cases
    case g
    note gl = guard_loc_facts(3,4) [OF ok all own_m [OF g(1)], where od = od]
    from g(2) gl obtain y where y: "slot ex (cidx_of l) = Some y" "c = cl_chunk_id y" "c \<noteq> cl_chunk_id l" "\<not> stale_push od l y"
      by (cases "slot ex (cidx_of l)") (auto split: if_splits)
    moreover from this(1) have "y \<in> set ex" "cidx_of y = cidx_of l" by (simp_all add: slot_iff [OF ok])
    moreover have "slot (fm_chunk_locations m) (cidx_of l) = Some l" using g(1) by (simp add: slot_iff [OF okm])
    ultimately show ?thesis by (intro bexI [of _ y]) auto
  next
    case d
    then show ?thesis using guarded_facts(3) [OF ok all m, of od "cidx_of y"] by (intro bexI [of _ y]) auto
  qed
next
  have okm: "slots_ok (fm_chunk_locations m)" using m by (auto simp: meta_ok_def slots_ok_def owned_def)
  have own_m: "owned own (fm_id m) l" if "l \<in> set (fm_chunk_locations m)" for l using that m by (simp add: meta_ok_def)
  assume ?R
  then obtain y where y: "y \<in> set ex" "cl_chunk_id y = c" and C: "case slot (fm_chunk_locations m) (cidx_of y) of
       None \<Rightarrow> past_end (fm_write_seq m > q) (fm_size m) y
     | Some l \<Rightarrow> c \<noteq> cl_chunk_id l \<and> \<not> stale_push od l y" by blast
  show "c \<in> set (gone_ids od m ex q)"
  proof (cases "slot (fm_chunk_locations m) (cidx_of y)")
    case None
    with y C guarded_facts(3) [OF ok all m, of od "cidx_of y"] show ?thesis by (auto simp: gone_ids_def)
  next
    case (Some l)
    then have l: "l \<in> set (fm_chunk_locations m)" "cidx_of l = cidx_of y" by (simp_all add: slot_iff [OF okm])
    have "slot ex (cidx_of l) = Some y" using y l by (simp add: slot_iff [OF ok])
    from guard_loc_facts(4) [OF ok all own_m [OF l(1)] this, where od = od] Some C y
    have "c \<in> set (snd (guard_loc od ex l))" by auto
    with l(1) show ?thesis by (auto simp: gone_ids_def)
  qed
qed

lemma merged_gone:
  fixes od :: "ChunkId \<Rightarrow> bool" and q :: nat
  assumes ls: "lockstep own s" and m: "meta_ok own m" and e: "hm_get (ck_map s) (fm_id m) = Some (ex, q)"
  defines "locs \<equiv> sort_key offset_key (guarded_locs od m ex @ kept_locs od m ex q)"
  shows "c \<in> set (gone_ids od m ex q) \<longleftrightarrow> c \<in> ids ex \<and> c \<notin> ids locs"
proof -
  have ex: "locs_of s (fm_id m) = ex" "map_seq s (fm_id m) = q" using e by (simp_all add: locs_of_def map_seq_def)
  have ok: "slots_ok ex" and all: "\<forall>x \<in> set ex. owned own (fm_id m) x" using lockstepD(1,2) [OF ls] ex by blast+
  note okl = merged_slots [OF ok all m, of od q, folded locs_def]
  note sl = merged_slot [OF ls m e, of od, folded locs_def]
  have id_slot: "c \<in> ids locs \<longleftrightarrow> map_option cl_chunk_id (slot locs (cidx_of y)) = Some c"
    if "y \<in> set ex" "cl_chunk_id y = c" for y
  proof -
    have "cidx_of x = cidx_of y" if "x \<in> set locs" "cl_chunk_id x = c" for x
      using owned_unique [of own "fm_id m" x "fm_id m" y] that okl(2) all \<open>y \<in> set ex\<close> \<open>cl_chunk_id y = c\<close> by simp
    then show ?thesis by (auto simp: ids_def slot_iff [OF okl(1)])
  qed
  note gone_iff [OF ok all m, of c od q]
  moreover have "(case slot (fm_chunk_locations m) (cidx_of y) of
         None \<Rightarrow> past_end (fm_write_seq m > q) (fm_size m) y
       | Some l \<Rightarrow> c \<noteq> cl_chunk_id l \<and> \<not> stale_push od l y) \<longleftrightarrow> c \<notin> ids locs" if y: "y \<in> set ex" "cl_chunk_id y = c" for y
  proof -
    have "slot ex (cidx_of y) = Some y" using y by (simp add: slot_iff [OF ok])
    then show ?thesis unfolding id_slot [OF y] sl pushed_slot_def ex using y(2) by (auto split: option.splits)
  qed
  ultimately show ?thesis by (auto simp: ids_def)
qed

section \<open>Every operation keeps the lockstep\<close>

lemma fold_insert_ids: "fold (\<lambda>l. hm_insert (cl_chunk_id l) f) locs t = fold (\<lambda>c. hm_insert c f) (map cl_chunk_id locs) t"
  by (simp add: fold_map comp_def)

lemma fold_remove_ids: "fold (\<lambda>l. hm_remove (cl_chunk_id l)) locs t = fold hm_remove (map cl_chunk_id locs) t"
  by (simp add: fold_map comp_def)

text \<open>Installing a file's new slots: their ids are inserted, the ids that left are removed.\<close>

lemma lockstep_install:
  assumes ls: "lockstep own s" and ok: "slots_ok locs" "\<forall>l \<in> set locs. owned own f l"
    and t: "hm_wf t" "\<And>c. hm_get t c = (if c \<in> ids locs then Some f else if c \<in> ids (locs_of s f) then None
      else hm_get (ck_to_file s) c)"
    and s': "ck_map s' = hm_insert f (locs, q) (ck_map s)" "ck_to_file s' = t"
  shows "lockstep own s'"
proof -
  note d = lockstepD [OF ls]
  have foreign: "g = f" if "hm_get (ck_to_file s) c = Some g" "c \<in> ids locs" for c g
    using that ok(2) lockstep_foreign [OF ls] by (auto simp: ids_def)
  show ?thesis
  proof (rule lockstep_set [OF ls ok t(1) _ _ _ locs_of_insert [OF d(4) s'(1)] s'(2)])
    show "hm_get t c = Some f \<longleftrightarrow> c \<in> ids locs" for c using t(2) [of c] d(3) [of c f] by simp
    show "hm_get t c = Some g \<longleftrightarrow> hm_get (ck_to_file s) c = Some g" if "g \<noteq> f" for c g
      using that t(2) [of c] d(3) [of c f] foreign by auto
    show "hm_wf (ck_map s')" unfolding s'(1) by (rule hm.wf_put [OF d(4)])
  qed
qed

lemma chunk_map_update_facts:
  fixes od :: "ChunkId \<Rightarrow> bool"
  assumes ls: "lockstep own s" and m: "meta_ok own m" and ne: "fm_chunk_locations m \<noteq> []"
  defines "s' \<equiv> chunk_map_update od m s"
  shows "lockstep own s'" "slot (locs_of s' (fm_id m)) i = pushed_slot od m s i"
    "g \<noteq> fm_id m \<Longrightarrow> locs_of s' g = locs_of s g" "map_seq s' (fm_id m) = max (fm_write_seq m) (map_seq s (fm_id m))"
proof -
  define f where "f = fm_id m"
  note d = lockstepD [OF ls]
  obtain locs gone where p: "pushed_locs od m (hm_get (ck_map s) f) = (locs, gone)"
    and locs: "slots_ok locs" "\<forall>l \<in> set locs. owned own f l"
    and gone: "\<And>c. c \<in> set gone \<longleftrightarrow> c \<in> ids (locs_of s f) \<and> c \<notin> ids locs" and sl: "\<And>i. slot locs i = pushed_slot od m s i"
  proof (cases "hm_get (ck_map s) f")
    case None
    have "slots_ok (fm_chunk_locations m)" using m by (auto simp: meta_ok_def slots_ok_def owned_def)
    with None m show ?thesis by (intro that [of "fm_chunk_locations m" "[]"])
      (auto simp: pushed_locs_def meta_ok_def locs_of_def ids_def pushed_slot_def slot_def f_def split: option.splits)
  next
    case (Some e)
    obtain ex q where e: "e = (ex, q)" by (cases e)
    then have ex: "hm_get (ck_map s) (fm_id m) = Some (ex, q)" "locs_of s f = ex" using Some by (simp_all add: f_def locs_of_def)
    have ok: "slots_ok ex" "\<forall>x \<in> set ex. owned own (fm_id m) x" using d(1,2) ex(2) by (auto simp: f_def)
    show ?thesis
      using merged_slots [OF ok m, of od q] merged_slot [OF ls m ex(1), of od] merged_gone [OF ls m ex(1), of _ od] ex
      by (intro that [of "sort_key offset_key (guarded_locs od m ex @ kept_locs od m ex q)" "gone_ids od m ex q"])
        (simp_all add: Some e pushed_locs_eq [OF ok(1)] f_def)
  qed
  have filter: "filter (\<lambda>l. cl_file_offset l \<noteq> None) locs = locs" using locs(1) by (simp add: slots_ok_def)
  define t where "t = fold hm_remove gone (fold (\<lambda>c. hm_insert c f) (map cl_chunk_id locs) (ck_to_file s))"
  have s': "ck_map s' = hm_insert f (locs, max (fm_write_seq m) (map_seq s f)) (ck_map s)" "ck_to_file s' = t"
    using ne p by (simp_all add: s'_def chunk_map_update_def Let_def f_def [symmetric] filter [simplified] fold_insert_ids t_def map_seq_def)
  have wf1: "hm_wf (fold (\<lambda>c. hm_insert c f) (map cl_chunk_id locs) (ck_to_file s))" by (rule hm.wf_put_all [OF d(5)])
  have t: "hm_wf t" "hm_get t c = (if c \<in> ids locs then Some f else if c \<in> ids (locs_of s f) then None
      else hm_get (ck_to_file s) c)" for c
    unfolding t_def using hm.wf_del_all [OF wf1] hm.get_del_all [OF wf1] hm.get_put_all [OF d(5)] gone by (auto simp: ids_def)
  show "lockstep own s'" by (rule lockstep_install [OF ls locs t s'])
  note lo = locs_of_insert [OF d(4) s'(1)]
  show "slot (locs_of s' (fm_id m)) i = pushed_slot od m s i" using lo [of f] sl by (simp add: f_def)
  show "g \<noteq> fm_id m \<Longrightarrow> locs_of s' g = locs_of s g" using lo [of g] by (simp add: f_def)
  show "map_seq s' (fm_id m) = max (fm_write_seq m) (map_seq s (fm_id m))"
    using d(4) by (simp add: map_seq_def s'(1) f_def hm.get_put)
qed

lemma chunk_map_update_empty:
  assumes "fm_chunk_locations m = []"
  shows "chunk_map_update od m s =
    (if fm_size m = 0 \<and> hm_get (ck_map s) (fm_id m) \<noteq> None \<and> fm_write_seq m > map_seq s (fm_id m)
     then s\<lparr>ck_to_file := fold hm_remove (map cl_chunk_id (locs_of s (fm_id m))) (ck_to_file s),
            ck_map := hm_insert (fm_id m) ([], fm_write_seq m) (ck_map s)\<rparr>
     else s)"
  using assms by (auto simp: chunk_map_update_def Let_def map_seq_def locs_of_def fold_remove_ids split: option.splits)

lemma removed_index:
  assumes "lockstep own s"
  shows "hm_wf (fold hm_remove (map cl_chunk_id (locs_of s f)) (ck_to_file s))"
    "hm_get (fold hm_remove (map cl_chunk_id (locs_of s f)) (ck_to_file s)) c =
      (if c \<in> ids (locs_of s f) then None else hm_get (ck_to_file s) c)"
  using hm.wf_del_all [OF lockstepD(5) [OF assms]] hm.get_del_all [OF lockstepD(5) [OF assms]] by (auto simp: ids_def)

lemma lockstep_update:
  assumes ls: "lockstep own s" and m: "meta_ok own m"
  shows "lockstep own (chunk_map_update od m s)"
proof (cases "fm_chunk_locations m = []")
  case True
  have "lockstep own (s\<lparr>ck_to_file := fold hm_remove (map cl_chunk_id (locs_of s (fm_id m))) (ck_to_file s),
      ck_map := hm_insert (fm_id m) ([], fm_write_seq m) (ck_map s)\<rparr>)"
    by (rule lockstep_install [OF ls, where locs = "[]" and f = "fm_id m" and q = "fm_write_seq m"])
      (use removed_index [OF ls] in \<open>simp_all add: slots_ok_def ids_def\<close>)
  with ls show ?thesis by (simp add: chunk_map_update_empty [OF True])
next
  case False
  then show ?thesis by (rule chunk_map_update_facts(1) [OF ls m])
qed

lemma lockstep_commit:
  assumes ls: "lockstep own s" and "slots_ok locs" and "\<forall>l \<in> set locs. owned own f l"
  shows "lockstep own (commit_chunk_map f locs q s)"
proof (rule lockstep_install [OF ls assms(2,3)])
  let ?t = "fold hm_remove (map cl_chunk_id (locs_of s f)) (ck_to_file s)"
  have s': "commit_chunk_map f locs q s = s\<lparr>ck_map := hm_insert f (locs, q) (ck_map s),
      ck_to_file := fold (\<lambda>c. hm_insert c f) (map cl_chunk_id locs) ?t\<rparr>"
    by (simp add: commit_chunk_map_def Let_def locs_of_def fold_insert_ids fold_remove_ids)
  show "ck_map (commit_chunk_map f locs q s) = hm_insert f (locs, q) (ck_map s)"
    "ck_to_file (commit_chunk_map f locs q s) = fold (\<lambda>c. hm_insert c f) (map cl_chunk_id locs) ?t" by (simp_all add: s')
  note wf = removed_index(1) [OF ls, of f]
  show "hm_wf (fold (\<lambda>c. hm_insert c f) (map cl_chunk_id locs) ?t)" by (rule hm.wf_put_all [OF wf])
  show "hm_get (fold (\<lambda>c. hm_insert c f) (map cl_chunk_id locs) ?t) c =
      (if c \<in> ids locs then Some f else if c \<in> ids (locs_of s f) then None else hm_get (ck_to_file s) c)" for c
    using hm.get_put_all [OF wf] removed_index(2) [OF ls, of f c] by (simp add: ids_def)
qed

lemma lockstep_remove:
  assumes ls: "lockstep own s"
  shows "lockstep own (chunk_map_remove f s)"
proof (cases "hm_get (ck_map s) f")
  case (Some e)
  then have s': "chunk_map_remove f s = s\<lparr>ck_map := hm_remove f (ck_map s),
      ck_to_file := fold hm_remove (map cl_chunk_id (locs_of s f)) (ck_to_file s)\<rparr>"
    by (cases e) (simp add: chunk_map_remove_def locs_of_def fold_remove_ids)
  note d = lockstepD [OF ls]
  have foreign: "g = f" if "hm_get (ck_to_file s) c = Some g" "c \<in> ids (locs_of s f)" for c g
    using that d(3) [of c f] by simp
  let ?t = "fold hm_remove (map cl_chunk_id (locs_of s f)) (ck_to_file s)"
  note rm = removed_index [OF ls, of f]
  have "lockstep own (s\<lparr>ck_map := hm_remove f (ck_map s), ck_to_file := ?t\<rparr>)"
  proof (rule lockstep_set [OF ls, where locs = "[]" and f = f])
    show "hm_get ?t c = Some f \<longleftrightarrow> c \<in> ids []" for c using rm(2) [of c] d(3) [of c f] by (simp add: ids_def)
    show "hm_get ?t c = Some g \<longleftrightarrow> hm_get (ck_to_file s) c = Some g" if "g \<noteq> f" for c g
      using that rm(2) [of c] foreign [of c g] by auto
    show "locs_of (s\<lparr>ck_map := hm_remove f (ck_map s), ck_to_file := ?t\<rparr>) g = (if g = f then [] else locs_of s g)" for g
      using d(4) by (simp add: locs_of_def hm.get_del)
  qed (use rm(1) d(4) in \<open>simp_all add: slots_ok_def hm.wf_del\<close>)
  then show ?thesis by (simp add: s')
qed (simp add: chunk_map_remove_def ls)

lemma replace_first_Some:
  "replace_first l xs = Some ys \<Longrightarrow> \<exists>p < length xs. cl_chunk_id (xs ! p) = cl_chunk_id l \<and> ys = xs[p := l]"
proof (induction xs arbitrary: ys)
  case (Cons x xs)
  show ?case
  proof (cases "cl_chunk_id x = cl_chunk_id l")
    case True
    with Cons.prems show ?thesis by (intro exI [of _ 0]) auto
  next
    case False
    with Cons.prems obtain zs where "replace_first l xs = Some zs" "ys = x # zs" by auto
    with Cons.IH obtain p where "p < length xs" "cl_chunk_id (xs ! p) = cl_chunk_id l" "ys = x # xs[p := l]" by blast
    then show ?thesis by (intro exI [of _ "Suc p"]) auto
  qed
qed simp

lemma update_location_scan_Some:
  "hm_wf m \<Longrightarrow> update_location_scan l m = Some (m', f) \<Longrightarrow>
   \<exists>locs q p. hm_get m f = Some (locs, q) \<and> p < length locs \<and> cl_chunk_id (locs ! p) = cl_chunk_id l \<and>
     m' = hm_insert f (locs[p := l], q) m"
proof (induction l m arbitrary: m' rule: update_location_scan.induct)
  case (2 l g locs q m)
  show ?case
  proof (cases "replace_first l locs")
    case (Some ys)
    with "2.prems" replace_first_Some [OF Some] show ?thesis by (auto simp: hm_get_def hm_insert_def)
  next
    case None
    with "2.prems" obtain m2 where m2: "update_location_scan l m = Some (m2, f)" "m' = (g, locs, q) # m2" by auto
    moreover have "hm_wf m" using "2.prems"(1) by (simp add: hm_wf_def)
    ultimately obtain ls r p where r: "hm_get m f = Some (ls, r)" "p < length ls" "cl_chunk_id (ls ! p) = cl_chunk_id l"
      "m2 = hm_insert f (ls[p := l], r) m" using "2.IH" [OF None] by blast
    moreover have "g \<noteq> f" using "2.prems"(1) r(1) hm_get_SomeD [OF r(1)] by (force simp: hm_wf_def)
    ultimately show ?thesis using m2(2) by (auto simp: hm_get_def hm_insert_def)
  qed
qed simp

lemma lockstep_update_location:
  assumes ls: "lockstep own s" and l: "owned own f l"
  shows "lockstep own (chunk_map_update_location l s)"
proof (cases "update_location_scan l (ck_map s)")
  case (Some r)
  obtain m' g where r: "r = (m', g)" by (cases r)
  note d = lockstepD [OF ls]
  from update_location_scan_Some [OF d(4) Some [unfolded r]] obtain locs q p where
    locs: "hm_get (ck_map s) g = Some (locs, q)" "p < length locs" "cl_chunk_id (locs ! p) = cl_chunk_id l"
    "m' = hm_insert g (locs[p := l], q) (ck_map s)" by blast
  then have lo: "locs_of s g = locs" by (simp add: locs_of_def)
  then have ok: "slots_ok locs" and all: "\<forall>x \<in> set locs. owned own g x" using d(1,2) by auto
  have "owned own g (locs ! p)" using all locs(2) by simp
  with owned_unique [OF l this] locs(3) have gf: "g = f" "cidx_of l = cidx_of (locs ! p)" by simp_all
  have off: "cl_file_offset l \<noteq> None" using l by (simp add: owned_def)
  have same: "ids (locs[p := l]) = ids locs" using ids_update [OF ok all locs(2) l [folded gf(1)] gf(2)] locs(2,3)
    by (auto simp: ids_def) (metis image_eqI nth_mem)
  have s': "chunk_map_update_location l s = s\<lparr>ck_map := m', ck_to_file := hm_insert (cl_chunk_id l) g (ck_to_file s)\<rparr>"
    by (simp add: chunk_map_update_location_def Some r)
  have mem: "cl_chunk_id l \<in> ids locs" using locs(2,3) by (metis ids_def image_eqI nth_mem)
  show ?thesis unfolding s'
  proof (rule lockstep_install [OF ls, where f = g and locs = "locs[p := l]" and q = q])
    show "slots_ok (locs[p := l])" by (rule slots_replace [OF ok locs(2) gf(2) off])
    show "\<forall>x \<in> set (locs[p := l]). owned own g x" using all l gf(1) set_update_subset_insert [of locs p l] by auto
    show "hm_get (hm_insert (cl_chunk_id l) g (ck_to_file s)) c = (if c \<in> ids (locs[p := l]) then Some g
        else if c \<in> ids (locs_of s g) then None else hm_get (ck_to_file s) c)" for c
      using d(3) [of c g] d(5) mem by (auto simp: same lo hm.get_put)
  qed (use d(5) locs(4) in \<open>simp_all add: hm.wf_put\<close>)
qed (simp add: chunk_map_update_location_def ls)

end
