(* ===== verification/Chunk_Map_Claims.thy ===== *)
theory Chunk_Map_Claims
  imports Chunk_Map_Laws
begin

text \<open>
  What the chunk map promises its clients: the reverse index in lockstep with the map in every state
  the map's own operations reach, one location update as an update of an abstract slot table, a
  rebuild that does not depend on the order of the scan, pushes that never take a slot back to an
  older write, and the two places where the code leaves these rules.
\<close>

section \<open>Reachable states\<close>

inductive chunk_reach :: "(ChunkId \<Rightarrow> FileId \<times> nat) \<Rightarrow> ChunkState \<Rightarrow> bool" for own where
  start: "ck_map s = [] \<Longrightarrow> ck_to_file s = [] \<Longrightarrow> chunk_reach own s"
| push: "chunk_reach own s \<Longrightarrow> meta_ok own m \<Longrightarrow> chunk_reach own (chunk_map_update od m s)"
| place: "chunk_reach own s \<Longrightarrow> owned own f l \<Longrightarrow>
    chunk_reach own (fst (chunk_map_update_location_for_file deleted chunk_seq f l s))"
| refresh: "chunk_reach own s \<Longrightarrow> owned own f l \<Longrightarrow> chunk_reach own (chunk_map_update_location l s)"
| commit: "chunk_reach own s \<Longrightarrow> slots_ok locs \<Longrightarrow> list_all (owned own f) locs \<Longrightarrow>
    chunk_reach own (commit_chunk_map f locs q s)"
| remove: "chunk_reach own s \<Longrightarrow> chunk_reach own (chunk_map_remove f s)"
| rebuild: "chunk_reach own s \<Longrightarrow> list_all (row_ok own) rows \<Longrightarrow> chunk_reach own (rebuild_chunk_map seqs rows s)"

lemma lockstep_cong:
  "ck_map s' = ck_map s \<Longrightarrow> ck_to_file s' = ck_to_file s \<Longrightarrow> lockstep own s' = lockstep own s"
  by (simp add: lockstep_def locs_of_def)

lemma backfill_same [simp]:
  "ck_map (backfill_generation cs f l s) = ck_map s" "ck_to_file (backfill_generation cs f l s) = ck_to_file s"
  "ck_folds (backfill_generation cs f l s) = ck_folds s" "ck_rf (backfill_generation cs f l s) = ck_rf s"
  by (auto simp: backfill_generation_def Let_def split: option.splits prod.splits)

lemma meter_same [simp]:
  "ck_map (meter_slot_merge_outcome oc s) = ck_map s" "ck_to_file (meter_slot_merge_outcome oc s) = ck_to_file s"
  by (simp_all add: meter_slot_merge_outcome_def split: SlotMergeOutcome.split RclRejectClass.split)

lemma for_file_maps:
  fixes s :: ChunkState and l :: ChunkLocation and deleted :: "FileId \<Rightarrow> bool" and cs :: "FileId \<Rightarrow> nat \<Rightarrow> nat option"
  assumes "\<not> deleted f"
  defines "s1 \<equiv> backfill_generation cs f l s"
  defines "s2 \<equiv> fst (chunk_map_update_location_for_file_sync True f l (durability_floor s1) s1)"
  defines "s' \<equiv> fst (chunk_map_update_location_for_file deleted cs f l s)"
  shows "ck_map s' = ck_map s2" "ck_to_file s' = ck_to_file s2"
  using assms(1) by (simp_all add: s'_def s2_def s1_def chunk_map_update_location_for_file_def Let_def case_prod_unfold)

lemma lockstep_for_file:
  assumes "lockstep own s" and "owned own f l"
  shows "lockstep own (fst (chunk_map_update_location_for_file deleted cs f l s))"
proof (cases "deleted f")
  case False
  let ?s1 = "backfill_generation cs f l s"
  have "lockstep own ?s1" using assms(1) by (simp add: lockstep_cong [OF backfill_same(1,2)])
  from lockstep_sync [OF this assms(2)] show ?thesis
    using for_file_maps [where deleted = deleted and f = f and s = s and cs = cs and l = l, OF False] lockstep_cong by blast
qed (simp add: chunk_map_update_location_for_file_def assms(1))

lemma reach_lockstep: "chunk_reach own s \<Longrightarrow> lockstep own s"
proof (induction rule: chunk_reach.induct)
  case (start s)
  then show ?case by (simp add: lockstep_def locs_of_def slots_ok_def ids_def hm_get_def hm_wf_def)
next
  case (commit s locs f q)
  then show ?case by (simp add: lockstep_commit list_all_iff)
next
  case (rebuild s rows seqs)
  then show ?case unfolding rebuild_chunk_map_def using rebuild_fold by blast
qed (simp_all add: lockstep_update lockstep_for_file lockstep_update_location lockstep_remove)


section \<open>The slot table\<close>

text \<open>The abstract chunk map: a table from files and slot indices to locations.\<close>

definition slot_table :: "ChunkState \<Rightarrow> FileId \<times> nat \<Rightarrow> ChunkLocation option" where
  "slot_table s k = slot (locs_of s (fst k)) (snd k)"

definition put_table ::
    "nat \<Rightarrow> ChunkState \<Rightarrow> FileId \<Rightarrow> ChunkLocation \<Rightarrow> (FileId \<times> nat \<Rightarrow> ChunkLocation option) \<Rightarrow>
     FileId \<times> nat \<Rightarrow> ChunkLocation option" where
  "put_table floor s f l tab = tab((f, cidx_of l) := put_slot True floor s l (tab (f, cidx_of l)))"

text \<open>C11. A location update of a file that is not deleted implements an update of the abstract slot
  table: it changes the one slot of the location, where the location is kept if the slot was empty
  or the slot rule accepts it, and it leaves every other slot of every file as it was.\<close>

theorem update_location_refines:
  fixes chunk_seq :: "FileId \<Rightarrow> nat \<Rightarrow> nat option"
  assumes "chunk_reach own s" and "owned own f l" and "\<not> deleted f"
  defines "s1 \<equiv> backfill_generation chunk_seq f l s"
  shows "slot_table (fst (chunk_map_update_location_for_file deleted chunk_seq f l s)) =
    put_table (durability_floor s) s1 f l (slot_table s)"
proof
  fix k :: "FileId \<times> nat"
  let ?s2 = "fst (chunk_map_update_location_for_file_sync True f l (durability_floor s1) s1)"
  have ls: "lockstep own s1"
    using reach_lockstep [OF assms(1)] by (simp add: s1_def lockstep_cong [OF backfill_same(1,2)])
  have "locs_of (fst (chunk_map_update_location_for_file deleted chunk_seq f l s)) = locs_of ?s2"
    using for_file_maps(1) [where deleted = deleted and f = f and s = s and cs = chunk_seq and l = l, OF assms(3)]
    by (intro ext) (simp add: locs_of_def s1_def)
  moreover have "locs_of s1 = locs_of s" by (intro ext) (simp add: locs_of_def s1_def)
  moreover have "durability_floor s1 = durability_floor s" by (simp add: durability_floor_def s1_def)
  ultimately show "slot_table (fst (chunk_map_update_location_for_file deleted chunk_seq f l s)) k =
      put_table (durability_floor s) s1 f l (slot_table s) k"
    using sync_slot(1) [OF ls assms(2), where with_gens = True and floor = "durability_floor s1" and g = "fst k" and j = "snd k"]
    by (cases k) (simp add: slot_table_def put_table_def)
qed

section \<open>The rebuild\<close>

lemma option_eqI: "(\<And>y. a = Some y \<longleftrightarrow> b = Some y) \<Longrightarrow> a = b"
  by (cases a; cases b) auto

lemma put_slot_arbiter:
  assumes "distinct (map cl_chunk_id ls)" and "mset ls = mset ls'"
    and "list_all (row_durable (ck_folds s) floor) ls" and "inj_on (row_key (ck_folds s)) (set ls)"
  shows "fold (put_slot False floor s) ls None = fold (put_slot False floor s) ls' None"
proof (cases ls)
  case (Cons x xs)
  with assms(2) obtain y ys where y: "ls' = y # ys" by (cases ls') auto
  have "mset (map cl_chunk_id ls) = mset (map cl_chunk_id ls')" using assms(2) by simp
  then have dy: "distinct (map cl_chunk_id (y # ys))" using assms(1) y by (metis mset_eq_imp_distinct_iff)
  have dx: "distinct (map cl_chunk_id (x # xs))" using assms(1) Cons by simp
  have first: "put_slot False floor s z None = Some z" for z by (simp add: put_slot_def)
  show ?thesis
    using scan.holder_unique [of "ck_folds s" floor x xs y ys] assms put_slot_fold [OF dx] put_slot_fold [OF dy]
    by (simp add: Cons y first)
qed (use assms(2) in simp)

lemma index_from_slots:
  assumes "lockstep own s" and "lockstep own t" and "\<And>i. slot (locs_of s f) i = slot (locs_of t f) i"
  shows "find_file_by_chunk s c = Some f \<longleftrightarrow> find_file_by_chunk t c = Some f"
proof -
  have "x \<in> set (locs_of s f) \<longleftrightarrow> x \<in> set (locs_of t f)" for x
    using slot_iff [OF lockstepD(1) [OF assms(1)], of f "cidx_of x" x]
      slot_iff [OF lockstepD(1) [OF assms(2)], of f "cidx_of x" x] assms(3) [of "cidx_of x"] by simp
  then have "set (locs_of s f) = set (locs_of t f)" by (rule set_eqI)
  then show ?thesis
    using lockstepD(3) [OF assms(1), of c f] lockstepD(3) [OF assms(2), of c f] by (simp add: find_file_by_chunk_def ids_def)
qed

text \<open>C12. The chunk map rebuilt at start-up does not depend on the order in which the chunk table is
  scanned: two scans of the same rows, each row in the slot its chunk belongs to and on a write
  quorum of nodes or the result of a fold, give the same slot table and the same reverse index,
  as long as no two rows of one slot tie on sequence number, origin and time.\<close>

theorem rebuild_scan_order:
  assumes "ck_map s = []" "ck_to_file s = []" and "mset rows = mset rows'" and "distinct (map cl_chunk_id rows)"
    and "list_all (row_ok own) rows" and "list_all (row_durable (ck_folds s) (durability_floor s)) rows"
    and "\<And>f i. inj_on (row_key (ck_folds s)) (set (rows_of f i rows))"
  shows "slot_table (rebuild_chunk_map seqs rows s) = slot_table (rebuild_chunk_map seqs rows' s) \<and>
    find_file_by_chunk (rebuild_chunk_map seqs rows s) = find_file_by_chunk (rebuild_chunk_map seqs rows' s)"
proof -
  let ?r = "rebuild_chunk_map seqs rows s" and ?r' = "rebuild_chunk_map seqs rows' s"
  have set: "set rows = set rows'" using assms(3) by (metis set_mset_mset)
  have "lockstep own s" using reach_lockstep [OF chunk_reach.start [OF assms(1,2)]] .
  note fold = rebuild_fold [OF this]
  have ok': "list_all (row_ok own) rows'" using assms(5) set by (simp add: list_all_iff)
  have ls: "lockstep own ?r" "lockstep own ?r'"
    unfolding rebuild_chunk_map_def by (rule conjunct1 [OF fold [OF assms(5)]], rule conjunct1 [OF fold [OF ok']])
  have eq: "slot (locs_of ?r f) i = slot (locs_of ?r' f) i" for f i
  proof -
    have "distinct (map cl_chunk_id (rows_of f i rows))" using assms(4) by (simp add: rows_of_def distinct_map_filter)
    moreover have "mset (rows_of f i rows) = mset (rows_of f i rows')" using assms(3) by (simp add: rows_of_def mset_filter)
    moreover have "list_all (row_durable (ck_folds s) (durability_floor s)) (rows_of f i rows)"
      using assms(6) by (simp add: rows_of_def list_all_iff)
    ultimately have "fold (put_slot False (durability_floor s) s) (rows_of f i rows) None =
        fold (put_slot False (durability_floor s) s) (rows_of f i rows') None"
      by (rule put_slot_arbiter [OF _ _ _ assms(7)])
    moreover have "slot (locs_of s f) i = None" by (simp add: slot_None locs_of_def assms(1))
    ultimately show ?thesis unfolding rebuild_chunk_map_def
      by (simp only: conjunct2 [OF fold [OF assms(5)]] conjunct2 [OF fold [OF ok']])
  qed
  then have "slot_table ?r = slot_table ?r'" by (simp add: slot_table_def fun_eq_iff)
  moreover have "find_file_by_chunk ?r c = Some f \<longleftrightarrow> find_file_by_chunk ?r' c = Some f" for c f
    by (rule index_from_slots [OF ls eq])
  from this have "find_file_by_chunk ?r = find_file_by_chunk ?r'" by (intro ext option_eqI)
  ultimately show ?thesis by (rule conjI)
qed

section \<open>Pushes and patches\<close>

lemma stale_push_seq: "\<not> stale_push od l e \<Longrightarrow> seq_rank (cl_client_write_seq e) \<le> seq_rank (cl_client_write_seq l)"
  by (auto simp: stale_push_def seq_rank_def split: option.splits)


text \<open>A push does not apply the slot rule: where a fold's result holds a slot, a client record of the
  same sequence number that the slot rule rejects takes the slot when it comes in a metadata push,
  and the reverse index drops the fold's result.\<close>

theorem push_displaces_fold:
  assumes "chunk_reach own s" and "meta_ok own m"
    and "slot (fm_chunk_locations m) i = Some l" and "slot_table s (fm_id m, i) = Some e"
    and "cl_chunk_id e \<in> ck_folds s" "cl_chunk_id l \<notin> ck_folds s" and "cl_client_write_seq l = cl_client_write_seq e"
    and "cl_client_write_seq e = Some q"
  shows "\<not> location_supersedes l e False True None None (durability_floor s) \<and>
    slot_table (chunk_map_update od m s) (fm_id m, i) = Some l \<and>
    find_file_by_chunk (chunk_map_update od m s) (cl_chunk_id e) = None"
proof -
  note ls = reach_lockstep [OF assms(1)]
  have ne: "fm_chunk_locations m \<noteq> []" using assms(3) by (auto simp: slot_def)
  note facts = chunk_map_update_facts [where od = od, OF ls assms(2) ne]
  note d = lockstepD [OF facts(1)] and d0 = lockstepD [OF ls]
  have e: "slot (locs_of s (fm_id m)) i = Some e" using assms(4) by (simp add: slot_table_def)
  have rule: "\<not> location_supersedes l e False True None None (durability_floor s)"
    using assms(7) by (auto simp: location_supersedes_def seq_supersedes_key)
  have neq: "cl_chunk_id l \<noteq> cl_chunk_id e" using assms(5,6) by auto
  have fresh: "\<not> stale_push od l e" using assms(7,8) by (simp add: stale_push_def)
  then have took: "slot_table (chunk_map_update od m s) (fm_id m, i) = Some l"
    using facts(2) [where i = i] e assms(3) by (simp add: slot_table_def pushed_slot_def)
  have own: "owned own (fm_id m) e" "cidx_of e = i" using d0(2) [where f = "fm_id m"] slot_iff [OF d0(1)] e by blast+
  have "find_file_by_chunk (chunk_map_update od m s) (cl_chunk_id e) \<noteq> Some g" for g
  proof
    assume "find_file_by_chunk (chunk_map_update od m s) (cl_chunk_id e) = Some g"
    then obtain x where x: "x \<in> set (locs_of (chunk_map_update od m s) g)" "cl_chunk_id x = cl_chunk_id e"
      using d(3) [of "cl_chunk_id e" g] by (auto simp: find_file_by_chunk_def ids_def)
    from owned_unique [OF d(2) [OF x(1)] own(1) x(2)] have "g = fm_id m" "cidx_of x = i" using own(2) by auto
    then have "slot_table (chunk_map_update od m s) (fm_id m, i) = Some x"
      using slot_iff [OF d(1)] x(1) by (simp add: slot_table_def)
    with took neq x(2) show False by simp
  qed
  with rule took show ?thesis by (metis not_None_eq)
qed

lemma find_index_Some:
  "find_index P xs = Some i \<longleftrightarrow> i < length xs \<and> P (xs ! i) \<and> (\<forall>j < i. \<not> P (xs ! j))"
proof (induction xs arbitrary: i)
  case (Cons x xs)
  then show ?case by (cases i) (auto simp: All_less_Suc2)
qed simp

lemma patched_slot_ids:
  assumes "lockstep own s" and "p < length (locs_of s f)" and "cl_chunk_id l \<noteq> cl_chunk_id (locs_of s f ! p)"
  shows "cl_chunk_id (locs_of s f ! p) \<notin> cl_chunk_id ` set ((locs_of s f)[p := l])"
proof
  let ?locs = "locs_of s f"
  note d = lockstepD [OF assms(1)]
  assume "cl_chunk_id (?locs ! p) \<in> cl_chunk_id ` set (?locs[p := l])"
  then obtain j where j: "j < length ?locs" "cl_chunk_id (?locs[p := l] ! j) = cl_chunk_id (?locs ! p)"
    by (auto simp: in_set_conv_nth)
  then have "j \<noteq> p" using assms(2,3) by auto
  then have "cl_chunk_id (?locs ! j) = cl_chunk_id (?locs ! p)" using j(2) by simp
  from owned_unique [OF d(2) [where f = f] d(2) [where f = f] this] have "cidx_of (?locs ! j) = cidx_of (?locs ! p)" using j(1) assms(2) by simp
  moreover have "distinct (map cidx_of ?locs)" using d(1) [of f] by (simp add: slots_ok_def strict_sorted_iff)
  ultimately show False using \<open>j \<noteq> p\<close> j(1) assms(2) by (metis length_map nth_eq_iff_index_eq nth_map)
qed

text \<open>A locally computed patch moves its slot to the new chunk and leaves the reverse index alone: from
  a state in lockstep, when the slot's current chunk is replaced and the new chunk was unknown, the
  map holds the new chunk while the index does not know it, and the index still names the file for
  the replaced chunk, which the map no longer holds.\<close>

theorem after_patch_index_diverges:
  fixes sz now :: nat
  assumes "chunk_reach own s" and "p < length (locs_of s f)" and "cl_file_offset (locs_of s f ! p) = Some off"
    and "cl_chunk_id (locs_of s f ! p) = old_id" and "new_id \<noteq> old_id" and "find_file_by_chunk s new_id = None"
    and "seq_rank (cl_client_write_seq (locs_of s f ! p)) \<le> seq_rank new_seq"
  defines "s' \<equiv> fst (update_chunk_map_after_patch f (Some (off div CHUNK_SIZE)) old_id new_id sz now new_seq s)"
  shows "new_id \<in> cl_chunk_id ` set (locs_of s' f) \<and> find_file_by_chunk s' new_id = None \<and>
    old_id \<notin> cl_chunk_id ` set (locs_of s' f) \<and> find_file_by_chunk s' old_id = Some f"
proof -
  define locs where "locs = locs_of s f"
  note ls = reach_lockstep [OF assms(1)]
  note d = lockstepD [OF ls]
  obtain q where get: "hm_get (ck_map s) f = Some (locs, q)"
    using assms(2) by (cases "hm_get (ck_map s) f") (auto simp: locs_def locs_of_def)
  let ?P = "\<lambda>l. map_option (\<lambda>off. off div CHUNK_SIZE) (cl_file_offset l) = Some (off div CHUNK_SIZE)"
  have ok: "slots_ok locs" using d(1) by (simp add: locs_def)
  have len: "p < length locs" and off: "cl_file_offset (locs ! p) = Some off" using assms(2,3) by (simp_all add: locs_def)
  have other: "\<not> ?P (locs ! j)" if "j < length locs" "j \<noteq> p" for j
  proof
    assume "?P (locs ! j)"
    then have "cidx_of (locs ! j) = cidx_of (locs ! p)" by (auto simp: cidx_of_def off)
    moreover have "distinct (map cidx_of locs)" using ok by (simp add: slots_ok_def strict_sorted_iff)
    ultimately show False using that len by (simp add: distinct_conv_nth)
  qed
  have found: "find_index ?P locs = Some p" unfolding find_index_Some
  proof (intro conjI allI impI)
    show "\<not> ?P (locs ! j)" if "j < p" for j using other [of j] that len by simp
  qed (use len off in simp_all)
  have fresh: "\<not> (case (new_seq, cl_client_write_seq (locs ! p)) of (Some n, Some e) \<Rightarrow> n < e
      | (Some _, None) \<Rightarrow> False | (None, Some _) \<Rightarrow> True | (None, None) \<Rightarrow> False)"
    using assms(7) by (auto simp: locs_def seq_rank_def split: option.splits)
  define l' where "l' = (locs ! p)\<lparr>cl_chunk_id := new_id, cl_checksum := hash new_id, cl_size := sz,
      cl_written_at := Some now, cl_client_write_seq := new_seq\<rparr>"
  have s': "ck_map s' = hm_insert f (locs[p := l'], q) (ck_map s)" "ck_to_file s' = ck_to_file s"
    using assms(5) found fresh get by (simp_all add: s'_def update_chunk_map_after_patch_def l'_def Let_def)
  have lo: "locs_of s' f = locs[p := l']" using locs_of_insert [OF d(4) s'(1)] by simp
  have id: "cl_chunk_id l' = new_id" by (simp add: l'_def)
  have "new_id \<in> cl_chunk_id ` set (locs[p := l'])" using set_update_memI [OF len, of l'] id by force
  moreover have "old_id \<notin> cl_chunk_id ` set (locs[p := l'])"
    using patched_slot_ids [OF ls assms(2)] assms(4,5) id by (simp add: locs_def)
  moreover have "hm_get (ck_to_file s) old_id = Some f"
    using d(3) [of old_id f] assms(2,4) by (auto simp: ids_def)
  ultimately show ?thesis using assms(6) by (simp add: lo find_file_by_chunk_def s'(2))
qed

section \<open>Examples\<close>

definition demo_file :: FileId where
  "demo_file = FileId 7"

definition demo_own :: "ChunkId \<Rightarrow> FileId \<times> nat" where
  "demo_own c = (demo_file, 0)"

definition demo_empty :: ChunkState where
  "demo_empty = \<lparr>ck_map = [], ck_to_file = [], ck_folds = {ChunkId (replicate 32 1)}, ck_gens = [], ck_rf = 3,
     ck_rejected_older = 0, ck_rejected_equal = 0, ck_rejected_newer = 0\<rparr>"

text \<open>A file of one slot, held by a fold's result with sequence number 5.\<close>

definition demo_chunks :: ChunkState where
  "demo_chunks = commit_chunk_map demo_file [demo_loc 1 3 (Some 5) (Some 100)] 5 demo_empty"

definition demo_push :: "nat \<Rightarrow> FileMetadata" where
  "demo_push q = (new_FileMetadata 0 demo_file ''/a'' RegularFile)\<lparr>fm_size := 10, fm_write_seq := q,
     fm_chunk_locations := [demo_loc 2 3 (Some q) (Some 50)]\<rparr>"

lemmas demo_defs = demo_file_def demo_own_def demo_empty_def demo_push_def demo_loc_def new_FileMetadata_def

lemma demo_map: "ck_map demo_chunks = [(demo_file, [demo_loc 1 3 (Some 5) (Some 100)], 5)]"
  "ck_to_file demo_chunks = [(ChunkId (replicate 32 1), demo_file)]" "ck_folds demo_chunks = {ChunkId (replicate 32 1)}"
  "ck_gens demo_chunks = []" "ck_rf demo_chunks = 3"
  by (simp_all add: demo_chunks_def commit_chunk_map_def demo_empty_def hm_get_def hm_insert_def demo_loc_def)

lemma demo_locs: "locs_of demo_chunks demo_file = [demo_loc 1 3 (Some 5) (Some 100)]"
  by (simp add: locs_of_def demo_map hm_get_def)

lemma demo_owned: "owned demo_own demo_file (demo_loc b n q w)"
  by (simp add: owned_def demo_own_def demo_loc_def cidx_of_def)

lemma demo_loc_fields [simp]: "cl_chunk_id (demo_loc b n q w) = ChunkId (replicate 32 b)"
  "cidx_of (demo_loc b n q w) = 0" "cl_client_write_seq (demo_loc b n q w) = q" "cl_file_offset (demo_loc b n q w) = Some 0"
  "cl_written_at (demo_loc b n q w) = w" "length (cl_nodes (demo_loc b n q w)) = n"
  by (simp_all add: demo_loc_def cidx_of_def)

lemma demo_reach: "chunk_reach demo_own demo_chunks"
  unfolding demo_chunks_def
  by (rule chunk_reach.commit [OF chunk_reach.start]) (simp_all add: demo_empty_def slots_ok_def demo_owned)

lemma demo_meta: "meta_ok demo_own (demo_push q)"
  by (simp add: meta_ok_def demo_push_def new_FileMetadata_def demo_owned)

lemma demo_slot: "slot_table demo_chunks (demo_file, 0) = Some (demo_loc 1 3 (Some 5) (Some 100))"
  by (simp add: slot_table_def demo_locs slot_def)


theorem update_location_refines_witness:
  "slot_table (fst (chunk_map_update_location_for_file (\<lambda>_. False) (\<lambda>_ _. None) demo_file
      (demo_loc 2 3 (Some 6) (Some 90)) demo_chunks)) (demo_file, 0) = Some (demo_loc 2 3 (Some 6) (Some 90))"
  using update_location_refines [OF demo_reach demo_owned [of 2 3 "Some 6" "Some 90"], of "\<lambda>_. False" "\<lambda>_ _. None"]
  by (simp add: put_table_def demo_slot put_slot_def takes_slot_def backfill_generation_def demo_map hm_get_def
      chunk_map_find_by_idx_def Let_def location_supersedes_def seq_supersedes_def durability_floor_def write_quorum_def split: option.splits)

theorem rebuild_scan_order_witness:
  "slot_table (rebuild_chunk_map (\<lambda>_. None)
      [(demo_loc 2 3 (Some 6) None)\<lparr>cl_file_id := Some demo_file\<rparr>, (demo_loc 1 3 (Some 5) None)\<lparr>cl_file_id := Some demo_file\<rparr>] demo_empty) =
   slot_table (rebuild_chunk_map (\<lambda>_. None)
      [(demo_loc 1 3 (Some 5) None)\<lparr>cl_file_id := Some demo_file\<rparr>, (demo_loc 2 3 (Some 6) None)\<lparr>cl_file_id := Some demo_file\<rparr>] demo_empty)"
proof -
  let ?a = "(demo_loc 2 3 (Some 6) None)\<lparr>cl_file_id := Some demo_file\<rparr>" and ?b = "(demo_loc 1 3 (Some 5) None)\<lparr>cl_file_id := Some demo_file\<rparr>"
  have "list_all (row_ok demo_own) [?a, ?b]"
    by (simp add: row_ok_def owned_def demo_own_def cidx_of_def)
  moreover have "list_all (row_durable (ck_folds demo_empty) (durability_floor demo_empty)) [?a, ?b]"
    by (simp add: row_durable_def demo_empty_def durability_floor_def write_quorum_def)
  moreover have "inj_on (row_key (ck_folds demo_empty)) (set (rows_of f i [?a, ?b]))" for f i
    by (rule inj_on_subset [of _ "{?a, ?b}"]) (auto simp: row_key_def seq_rank_def rows_of_def inj_on_def)
  ultimately show ?thesis
    using rebuild_scan_order [of demo_empty "[?a, ?b]" "[?b, ?a]" demo_own "\<lambda>_. None"] by (simp add: demo_empty_def)
qed


theorem push_displaces_fold_witness:
  "\<not> location_supersedes (demo_loc 2 3 (Some 5) (Some 50)) (demo_loc 1 3 (Some 5) (Some 100)) False True None None 2 \<and>
   slot_table (chunk_map_update (\<lambda>_. False) (demo_push 5) demo_chunks) (demo_file, 0) = Some (demo_loc 2 3 (Some 5) (Some 50)) \<and>
   find_file_by_chunk (chunk_map_update (\<lambda>_. False) (demo_push 5) demo_chunks) (ChunkId (replicate 32 1)) = None"
proof -
  have id: "fm_id (demo_push 5) = demo_file" "slot (fm_chunk_locations (demo_push 5)) 0 = Some (demo_loc 2 3 (Some 5) (Some 50))"
    by (simp_all add: demo_push_def new_FileMetadata_def slot_def)
  show ?thesis
    using push_displaces_fold [OF demo_reach demo_meta id(2), unfolded id(1), OF demo_slot, where q = 5 and od = "\<lambda>_. False"]
    by (simp add: demo_map durability_floor_def write_quorum_def)
qed

theorem after_patch_index_diverges_witness:
  "find_file_by_chunk (fst (update_chunk_map_after_patch demo_file (Some 0) (ChunkId (replicate 32 1)) (ChunkId (replicate 32 3))
     10 200 (Some 6) demo_chunks)) (ChunkId (replicate 32 3)) = None \<and>
   find_file_by_chunk (fst (update_chunk_map_after_patch demo_file (Some 0) (ChunkId (replicate 32 1)) (ChunkId (replicate 32 3))
     10 200 (Some 6) demo_chunks)) (ChunkId (replicate 32 1)) = Some demo_file"
  using after_patch_index_diverges [OF demo_reach, of 0 demo_file 0 "ChunkId (replicate 32 1)" "ChunkId (replicate 32 3)" "Some 6" 10 200]
  by (simp add: demo_locs seq_rank_def find_file_by_chunk_def demo_map hm_get_def)

end
