(* ===== verification/File_Locks.thy ===== *)
theory File_Locks
  imports Prelude
begin

text \<open>
  The byte-range locks of a client: \<^verbatim>\<open>dfs-client/src/locks.rs\<close>, and the two callbacks of the file
  system that use them (\<open>setlk\<close> and \<open>getlk\<close> in \<^verbatim>\<open>dfs-client/src/fuse_impl.rs\<close>). \<open>now\<close> is the clock;
  the mutex makes every operation one step. A blocking request is a loop that sleeps between
  attempts, and \<open>env\<close> is what the other requests do to the table meanwhile.

  Shown: locks of different processes never conflict, a conflict query answers what a request would
  do, a blocking request is granted as soon as an attempt finds no conflict, after the waits the
  source names, and a request that covers part of an owner's lock releases the rest of it.
\<close>

section \<open>Definitions\<close>

datatype LockType = Shared | Exclusive

record FileLock =
  lk_owner :: nat
  lk_pid :: nat
  lk_type :: LockType
  lk_start :: nat
  lk_len :: nat
  lk_acquired_at :: nat

definition new_FileLock :: "nat \<Rightarrow> nat \<Rightarrow> nat \<Rightarrow> LockType \<Rightarrow> nat \<Rightarrow> nat \<Rightarrow> FileLock" where
  "new_FileLock now owner pid lt start len =
     \<lparr>lk_owner = owner, lk_pid = pid, lk_type = lt, lk_start = start, lk_len = len, lk_acquired_at = now\<rparr>"

definition lock_end :: "FileLock \<Rightarrow> nat" where
  "lock_end l = (if lk_start l = 0 \<and> lk_len l = 0 then u64_max
     else if lk_len l = 0 then u64_max
     else u64_sat_add (lk_start l) (lk_len l))"

definition overlaps :: "FileLock \<Rightarrow> FileLock \<Rightarrow> bool" where
  "overlaps a b \<longleftrightarrow> lk_start a < lock_end b \<and> lk_start b < lock_end a"

definition conflicts_with :: "FileLock \<Rightarrow> FileLock \<Rightarrow> bool" where
  "conflicts_with a b =
     (if lk_owner a = lk_owner b then False
      else if \<not> overlaps a b then False
      else lk_type a = Exclusive \<or> lk_type b = Exclusive)"

record LockManager =
  lm_locks :: "(nat, FileLock list) hash_map"

definition new_LockManager :: LockManager where
  "new_LockManager = \<lparr>lm_locks = []\<rparr>"

datatype LockResult = LockOk | WouldBlock

definition same_process :: "nat \<Rightarrow> FileLock \<Rightarrow> bool" where
  "same_process pid e \<longleftrightarrow> lk_pid e \<noteq> 0 \<and> pid \<noteq> 0 \<and> lk_pid e = pid"

definition try_lock ::
    "nat \<Rightarrow> nat \<Rightarrow> nat \<Rightarrow> nat \<Rightarrow> LockType \<Rightarrow> nat \<Rightarrow> nat \<Rightarrow> LockManager \<Rightarrow> LockManager \<times> LockResult" where
  "try_lock now ino owner pid lt start len lm =
     (let file_locks = (case hm_get (lm_locks lm) ino of Some ls \<Rightarrow> ls | None \<Rightarrow> []);
          new_lock = new_FileLock now owner pid lt start len
      in if list_ex (\<lambda>e. \<not> same_process pid e \<and> conflicts_with new_lock e) file_locks
         then (lm\<lparr>lm_locks := hm_insert ino file_locks (lm_locks lm)\<rparr>, WouldBlock)
         else (lm\<lparr>lm_locks := hm_insert ino
                 (filter (\<lambda>l. \<not> (lk_owner l = owner \<and> overlaps l new_lock)) file_locks @ [new_lock]) (lm_locks lm)\<rparr>,
               LockOk))"

text \<open>The blocking request: the table when it is granted, and the milliseconds of every wait.\<close>

partial_function (option) lock_wait_loop ::
    "(nat \<Rightarrow> LockManager \<Rightarrow> LockManager) \<Rightarrow> (nat \<Rightarrow> nat) \<Rightarrow> nat \<Rightarrow> nat \<Rightarrow> nat \<Rightarrow> LockType \<Rightarrow> nat \<Rightarrow> nat \<Rightarrow>
     nat \<Rightarrow> nat \<Rightarrow> nat list \<Rightarrow> LockManager \<Rightarrow> (LockManager \<times> nat list) option" where
  "lock_wait_loop env now ino owner pid lt start len k backoff_ms waits lm =
     (case try_lock (now k) ino owner pid lt start len lm of
        (lm', LockOk) \<Rightarrow> Some (lm', waits)
      | (lm', WouldBlock) \<Rightarrow>
          lock_wait_loop env now ino owner pid lt start len (Suc k) (min (backoff_ms * 2) 100) (waits @ [backoff_ms]) (env k lm'))"

definition lock_wait ::
    "(nat \<Rightarrow> LockManager \<Rightarrow> LockManager) \<Rightarrow> (nat \<Rightarrow> nat) \<Rightarrow> nat \<Rightarrow> nat \<Rightarrow> nat \<Rightarrow> LockType \<Rightarrow> nat \<Rightarrow> nat \<Rightarrow>
     LockManager \<Rightarrow> (LockManager \<times> nat list) option" where
  "lock_wait env now ino owner pid lt start len lm = lock_wait_loop env now ino owner pid lt start len 0 1 [] lm"

definition retain_locks :: "nat \<Rightarrow> (FileLock \<Rightarrow> bool) \<Rightarrow> LockManager \<Rightarrow> LockManager" where
  "retain_locks ino P lm =
     (case hm_get (lm_locks lm) ino of
        None \<Rightarrow> lm
      | Some file_locks \<Rightarrow>
          let kept = filter P file_locks in
          if kept = [] then lm\<lparr>lm_locks := hm_remove ino (lm_locks lm)\<rparr>
          else lm\<lparr>lm_locks := hm_insert ino kept (lm_locks lm)\<rparr>)"

definition unlock :: "nat \<Rightarrow> nat \<Rightarrow> nat \<Rightarrow> nat \<Rightarrow> nat \<Rightarrow> LockManager \<Rightarrow> LockManager" where
  "unlock now ino owner start len lm =
     (let unlock_range = new_FileLock now owner 0 Shared start len
      in retain_locks ino (\<lambda>l. \<not> (lk_owner l = owner \<and> overlaps l unlock_range)) lm)"

definition get_conflict ::
    "nat \<Rightarrow> nat \<Rightarrow> nat \<Rightarrow> nat \<Rightarrow> LockType \<Rightarrow> nat \<Rightarrow> nat \<Rightarrow> LockManager \<Rightarrow> FileLock option" where
  "get_conflict now ino owner pid lt start len lm =
     (case hm_get (lm_locks lm) ino of
        None \<Rightarrow> None
      | Some file_locks \<Rightarrow>
          List.find (\<lambda>e. \<not> same_process pid e \<and> conflicts_with (new_FileLock now owner pid lt start len) e) file_locks)"

definition release_all :: "nat \<Rightarrow> nat \<Rightarrow> LockManager \<Rightarrow> LockManager" where
  "release_all ino owner lm = retain_locks ino (\<lambda>l. lk_owner l \<noteq> owner) lm"

subsection \<open>The callbacks\<close>

text \<open>The lock types and error numbers of Linux.\<close>

definition F_RDLCK :: int where "F_RDLCK = 0"
definition F_WRLCK :: int where "F_WRLCK = 1"
definition F_UNLCK :: int where "F_UNLCK = 2"

datatype errno = EINVAL | EIO | EAGAIN

datatype lock_reply = ReplyOk | ReplyError errno | ReplyLocked nat nat int nat

definition fuse_len :: "nat \<Rightarrow> nat \<Rightarrow> nat" where
  "fuse_len start fin = (if fin = u64_max then 0 else fin - start)"

text \<open>\<open>None\<close>: the request never returns.\<close>

definition setlk ::
    "(nat \<Rightarrow> LockManager \<Rightarrow> LockManager) \<Rightarrow> (nat \<Rightarrow> nat) \<Rightarrow> nat \<Rightarrow> nat \<Rightarrow> nat \<Rightarrow> nat \<Rightarrow> int \<Rightarrow> nat \<Rightarrow> bool \<Rightarrow>
     LockManager \<Rightarrow> (LockManager \<times> lock_reply) option" where
  "setlk env now ino lock_owner start fin typ pid sleep lm =
     (let len = fuse_len start fin;
          acquire = (\<lambda>lt. if sleep
            then map_option (\<lambda>(lm', _). (lm', ReplyOk)) (lock_wait env now ino lock_owner pid lt start len lm)
            else (case try_lock (now 0) ino lock_owner pid lt start len lm of
                    (lm', LockOk) \<Rightarrow> Some (lm', ReplyOk)
                  | (lm', WouldBlock) \<Rightarrow> Some (lm', ReplyError EAGAIN)))
      in if typ = F_RDLCK then acquire Shared
         else if typ = F_WRLCK then acquire Exclusive
         else if typ = F_UNLCK then Some (unlock (now 0) ino lock_owner start len lm, ReplyOk)
         else Some (lm, ReplyError EINVAL))"

definition getlk :: "nat \<Rightarrow> nat \<Rightarrow> nat \<Rightarrow> nat \<Rightarrow> nat \<Rightarrow> int \<Rightarrow> nat \<Rightarrow> LockManager \<Rightarrow> lock_reply" where
  "getlk now ino lock_owner start fin typ pid lm =
     (if typ \<noteq> F_RDLCK \<and> typ \<noteq> F_WRLCK then ReplyError EINVAL
      else let lock_type = (if typ = F_RDLCK then Shared else Exclusive);
               len = fuse_len start fin
           in case get_conflict now ino lock_owner pid lock_type start len lm of
                Some conflict \<Rightarrow>
                  ReplyLocked (lk_start conflict)
                    (if lk_len conflict = 0 then u64_max else u64_sat_add (lk_start conflict) (lk_len conflict))
                    (case lk_type conflict of Shared \<Rightarrow> F_RDLCK | Exclusive \<Rightarrow> F_WRLCK) (lk_pid conflict)
              | None \<Rightarrow> ReplyLocked start fin F_UNLCK pid)"

section \<open>Ranges\<close>

definition lock_bytes :: "FileLock \<Rightarrow> nat set" where
  "lock_bytes l = {x. lk_start l \<le> x \<and> x < lock_end l}"

lemma new_FileLock_fields [simp]:
  "lk_owner (new_FileLock now owner pid lt start len) = owner" "lk_pid (new_FileLock now owner pid lt start len) = pid"
  "lk_type (new_FileLock now owner pid lt start len) = lt" "lk_start (new_FileLock now owner pid lt start len) = start"
  "lk_len (new_FileLock now owner pid lt start len) = len"
  by (simp_all add: new_FileLock_def)

lemma overlaps_new: "overlaps a (new_FileLock now owner pid lt start len) = overlaps a (new_FileLock now' owner' pid' lt' start len)"
  by (simp add: overlaps_def lock_end_def)

lemma lock_end_le: "lock_end l \<le> u64_max"
  by (simp add: lock_end_def u64_sat_add_def)

lemma lock_end_gt: "lk_start l < u64_max \<Longrightarrow> lk_start l < lock_end l"
  by (simp add: lock_end_def u64_sat_add_def)

lemma overlaps_bytes: "overlaps a b \<longleftrightarrow> lock_bytes a \<inter> lock_bytes b \<noteq> {}"
proof
  assume ov: "overlaps a b"
  then have "lk_start a < u64_max" "lk_start b < u64_max"
    using lock_end_le [of a] lock_end_le [of b] by (auto simp: overlaps_def)
  then have "max (lk_start a) (lk_start b) \<in> lock_bytes a \<inter> lock_bytes b"
    using ov lock_end_gt [of a] lock_end_gt [of b] by (auto simp: overlaps_def lock_bytes_def max_def)
  then show "lock_bytes a \<inter> lock_bytes b \<noteq> {}" by blast
qed (auto simp: overlaps_def lock_bytes_def)

lemma overlaps_sym: "overlaps a b = overlaps b a"
  by (auto simp: overlaps_bytes)

lemma conflicts_sym: "conflicts_with a b = conflicts_with b a"
  by (auto simp: conflicts_with_def overlaps_sym)

section \<open>The table\<close>

definition held :: "LockManager \<Rightarrow> nat \<Rightarrow> FileLock list" where
  "held lm ino = (case hm_get (lm_locks lm) ino of Some ls \<Rightarrow> ls | None \<Rightarrow> [])"

text \<open>Two locks that may stand side by side: of one process, or without a conflict.\<close>

definition compatible :: "FileLock \<Rightarrow> FileLock \<Rightarrow> bool" where
  "compatible a b \<longleftrightarrow> same_process (lk_pid a) b \<or> \<not> conflicts_with a b"

definition locks_ok :: "LockManager \<Rightarrow> bool" where
  "locks_ok lm \<longleftrightarrow> hm_wf (lm_locks lm) \<and> (\<forall>ino. \<forall>a \<in> set (held lm ino). \<forall>b \<in> set (held lm ino). compatible a b)"

lemma compatible_sym: "compatible a b = compatible b a"
  by (auto simp: compatible_def same_process_def conflicts_sym)

lemma compatible_refl: "compatible a a"
  by (simp add: compatible_def conflicts_with_def)

lemma held_set:
  "hm_wf (lm_locks lm) \<Longrightarrow> lm_locks lm' = hm_insert ino ls (lm_locks lm) \<Longrightarrow>
   held lm' j = (if j = ino then ls else held lm j)"
  by (simp add: held_def hm.get_put)

lemma held_retain:
  "hm_wf (lm_locks lm) \<Longrightarrow> held (retain_locks ino P lm) j = (if j = ino then filter P (held lm j) else held lm j)"
  by (auto simp: held_def retain_locks_def Let_def hm.get_put hm.get_del split: option.splits)

lemma wf_retain: "hm_wf (lm_locks lm) \<Longrightarrow> hm_wf (lm_locks (retain_locks ino P lm))"
  by (auto simp: retain_locks_def Let_def hm.wf_put hm.wf_del split: option.splits)

lemma held_unlock:
  "hm_wf (lm_locks lm) \<Longrightarrow> held (unlock now ino owner start len lm) j =
   (if j = ino then filter (\<lambda>l. \<not> (lk_owner l = owner \<and> overlaps l (new_FileLock now owner 0 Shared start len))) (held lm j)
    else held lm j)"
  by (simp add: unlock_def held_retain)

lemma try_lock_cases:
  fixes now ino owner pid start len :: nat and lt :: LockType
  assumes "hm_wf (lm_locks lm)"
  defines "new \<equiv> new_FileLock now owner pid lt start len"
  defines "r \<equiv> try_lock now ino owner pid lt start len lm"
  shows "hm_wf (lm_locks (fst r))"
    and "snd r = LockOk \<longleftrightarrow> (\<forall>e \<in> set (held lm ino). compatible new e)"
    and "held (fst r) j = (if j = ino \<and> snd r = LockOk
        then filter (\<lambda>l. \<not> (lk_owner l = owner \<and> overlaps l new)) (held lm j) @ [new] else held lm j)"
proof -
  have pid: "lk_pid new = pid" by (simp add: new_def new_FileLock_def)
  show "hm_wf (lm_locks (fst r))" using assms(1) by (simp add: r_def try_lock_def Let_def hm.wf_put)
  show ok: "snd r = LockOk \<longleftrightarrow> (\<forall>e \<in> set (held lm ino). compatible new e)"
    by (auto simp: r_def try_lock_def Let_def held_def list_ex_iff compatible_def pid new_def [symmetric])
  show "held (fst r) j = (if j = ino \<and> snd r = LockOk
        then filter (\<lambda>l. \<not> (lk_owner l = owner \<and> overlaps l new)) (held lm j) @ [new] else held lm j)"
    using assms(1) by (auto simp: r_def try_lock_def Let_def held_def hm.get_put new_def [symmetric])
qed

inductive lock_reach :: "LockManager \<Rightarrow> bool" where
  fresh: "lock_reach new_LockManager"
| try_lock: "lock_reach lm \<Longrightarrow> lock_reach (fst (try_lock now ino owner pid lt start len lm))"
| unlock: "lock_reach lm \<Longrightarrow> lock_reach (unlock now ino owner start len lm)"
| release_all: "lock_reach lm \<Longrightarrow> lock_reach (release_all ino owner lm)"

lemma locks_ok_retain: "locks_ok lm \<Longrightarrow> locks_ok (retain_locks ino P lm)"
  by (auto simp: locks_ok_def wf_retain held_retain)

lemma locks_ok_try:
  assumes "locks_ok lm"
  shows "locks_ok (fst (try_lock now ino owner pid lt start len lm))"
proof -
  have wf: "hm_wf (lm_locks lm)" and ok: "\<And>j a b. a \<in> set (held lm j) \<Longrightarrow> b \<in> set (held lm j) \<Longrightarrow> compatible a b"
    using assms by (auto simp: locks_ok_def)
  show ?thesis unfolding locks_ok_def
    using try_lock_cases(1,2) [OF wf, of now ino owner pid lt start len] ok
    by (auto simp: try_lock_cases(3) [OF wf] compatible_refl compatible_sym)
qed

lemma reach_locks_ok: "lock_reach lm \<Longrightarrow> locks_ok lm"
proof (induction rule: lock_reach.induct)
  case fresh
  then show ?case by (simp add: locks_ok_def new_LockManager_def held_def)
qed (simp_all add: locks_ok_try unlock_def release_all_def Let_def locks_ok_retain)

text \<open>C14. Mutual exclusion: in every state that the operations of the lock manager reach, two locks on
  one file that cover a common byte and belong to different owners and different known processes
  are both shared.\<close>

theorem lock_exclusion:
  assumes "lock_reach lm" and "a \<in> set (held lm ino)" "b \<in> set (held lm ino)"
    and "x \<in> lock_bytes a" "x \<in> lock_bytes b" and "lk_owner a \<noteq> lk_owner b"
    and "lk_pid a = 0 \<or> lk_pid a \<noteq> lk_pid b"
  shows "lk_type a = Shared \<and> lk_type b = Shared"
proof -
  have "compatible a b" using reach_locks_ok [OF assms(1)] assms(2,3) by (auto simp: locks_ok_def)
  then have "\<not> conflicts_with a b" using assms(7) by (auto simp: compatible_def same_process_def)
  moreover have "overlaps a b" using assms(4,5) by (auto simp: overlaps_bytes)
  ultimately show ?thesis using assms(6) LockType.exhaust by (auto simp: conflicts_with_def)
qed

section \<open>Blocking requests\<close>

text \<open>The table at the \<open>k\<close>-th attempt, when every earlier attempt failed.\<close>

fun table_at :: "(nat \<Rightarrow> LockManager \<Rightarrow> LockManager) \<Rightarrow> (nat \<Rightarrow> LockManager \<Rightarrow> LockManager \<times> LockResult) \<Rightarrow>
    LockManager \<Rightarrow> nat \<Rightarrow> LockManager" where
  "table_at env attempt lm 0 = lm"
| "table_at env attempt lm (Suc k) = env k (fst (attempt k (table_at env attempt lm k)))"

lemma lock_wait_loop_run:
  fixes now :: "nat \<Rightarrow> nat" and ino owner pid start len :: nat and lt :: LockType
  defines "att \<equiv> \<lambda>k. try_lock (now k) ino owner pid lt start len"
  assumes "k \<le> n" and "snd (att n (table_at env att lm n)) = LockOk"
    and "\<And>i. i < n \<Longrightarrow> snd (att i (table_at env att lm i)) = WouldBlock"
  shows "lock_wait_loop env now ino owner pid lt start len k (min (2 ^ k) 100) (map (\<lambda>i. min (2 ^ i) 100) [0..<k])
      (table_at env att lm k) =
    Some (fst (att n (table_at env att lm n)), map (\<lambda>i. min (2 ^ i) 100) [0..<n])"
  using assms(2)
proof (induction "n - k" arbitrary: k)
  case 0
  then have "k = n" by simp
  with assms(3) show ?case
    by (subst lock_wait_loop.simps) (cases "att n (table_at env att lm n)", simp add: att_def)
next
  case (Suc d)
  then have k: "k < n" by simp
  have b: "min (min (2 ^ k) 100 * 2) 100 = min (2 ^ Suc k) (100 :: nat)" by (simp add: min_def)
  from Suc.hyps(1) [of "Suc k"] Suc.hyps(2) k
  have ih: "lock_wait_loop env now ino owner pid lt start len (Suc k) (min (2 ^ Suc k) 100)
      (map (\<lambda>i. min (2 ^ i) 100) [0..<k] @ [min (2 ^ k) 100]) (env k (fst (att k (table_at env att lm k)))) =
    Some (fst (att n (table_at env att lm n)), map (\<lambda>i. min (2 ^ i) 100) [0..<n])" by simp
  obtain lm' where a: "try_lock (now k) ino owner pid lt start len (table_at env att lm k) = (lm', WouldBlock)"
    using assms(4) [OF k] by (cases "att k (table_at env att lm k)") (simp add: att_def)
  then have "fst (att k (table_at env att lm k)) = lm'" by (simp add: att_def)
  with ih show ?case by (subst lock_wait_loop.simps) (simp add: a b)
qed

text \<open>A blocking lock request returns as soon as one of its attempts finds no conflict: whatever the
  other requests do meanwhile, if some attempt would succeed then the request is granted at the first
  such attempt, having waited 1, 2, 4, \<dots> milliseconds, at most 100 each.\<close>

theorem lock_wait_granted:
  fixes now :: "nat \<Rightarrow> nat" and ino owner pid start len :: nat and lt :: LockType
  defines "att \<equiv> \<lambda>k. try_lock (now k) ino owner pid lt start len"
  assumes "snd (att m (table_at env att lm m)) = LockOk"
  shows "\<exists>n \<le> m. snd (att n (table_at env att lm n)) = LockOk \<and>
    lock_wait env now ino owner pid lt start len lm =
      Some (fst (att n (table_at env att lm n)), map (\<lambda>i. min (2 ^ i) 100) [0..<n])"
proof -
  let ?ok = "\<lambda>k. snd (att k (table_at env att lm k)) = LockOk"
  define n where "n = (LEAST k. ?ok k)"
  have n: "?ok n" "n \<le> m" using assms(2) LeastI [of ?ok m] Least_le [of ?ok m] by (simp_all add: n_def)
  have before: "snd (att i (table_at env att lm i)) = WouldBlock" if "i < n" for i
    using not_less_Least [of i ?ok] that LockResult.exhaust by (auto simp: n_def)
  have "lock_wait env now ino owner pid lt start len lm =
      Some (fst (att n (table_at env att lm n)), map (\<lambda>i. min (2 ^ i) 100) [0..<n])"
    unfolding lock_wait_def
    using lock_wait_loop_run [of 0 n now ino owner pid lt start len env lm] n(1) before by (simp add: att_def)
  with n show ?thesis by blast
qed

section \<open>Queries and partial requests\<close>

lemma get_conflict_None:
  assumes "hm_wf (lm_locks lm)"
  shows "get_conflict now ino owner pid lt start len lm = None \<longleftrightarrow> snd (try_lock now' ino owner pid lt start len lm) = LockOk"
proof -
  have "conflicts_with (new_FileLock now owner pid lt start len) = conflicts_with (new_FileLock now' owner pid lt start len)"
    by (simp add: fun_eq_iff conflicts_with_def overlaps_def lock_end_def new_FileLock_def)
  then show ?thesis
    by (cases "hm_get (lm_locks lm) ino") (simp_all add: get_conflict_def try_lock_def Let_def find_None_iff list_ex_iff Bex_def del: not_None_eq)
qed

text \<open>A lock query agrees with a lock request: \<open>getlk\<close> answers that the range is free exactly when a
  non-blocking \<open>setlk\<close> of the same range, type, owner and process is granted, and otherwise names a
  lock that is held and keeps the request out.\<close>

theorem getlk_agrees:
  assumes "lock_reach lm" and "typ = F_RDLCK \<or> typ = F_WRLCK"
  defines "lt \<equiv> (if typ = F_RDLCK then Shared else Exclusive)"
  shows "(getlk t ino owner start fin typ pid lm = ReplyLocked start fin F_UNLCK pid \<longleftrightarrow>
      (\<exists>lm'. setlk env now ino owner start fin typ pid False lm = Some (lm', ReplyOk))) \<and>
    (getlk t ino owner start fin typ pid lm = ReplyLocked start fin F_UNLCK pid \<or>
     (\<exists>c \<in> set (held lm ino). \<not> compatible (new_FileLock t owner pid lt start (fuse_len start fin)) c \<and>
       getlk t ino owner start fin typ pid lm =
         ReplyLocked (lk_start c) (lock_end c) (case lk_type c of Shared \<Rightarrow> F_RDLCK | Exclusive \<Rightarrow> F_WRLCK) (lk_pid c)))"
proof -
  have wf: "hm_wf (lm_locks lm)" using reach_locks_ok [OF assms(1)] by (simp add: locks_ok_def)
  let ?g = "get_conflict t ino owner pid lt start (fuse_len start fin) lm"
  have g: "getlk t ino owner start fin typ pid lm = (case ?g of Some c \<Rightarrow> ReplyLocked (lk_start c) (lock_end c)
      (case lk_type c of Shared \<Rightarrow> F_RDLCK | Exclusive \<Rightarrow> F_WRLCK) (lk_pid c) | None \<Rightarrow> ReplyLocked start fin F_UNLCK pid)"
    using assms(2) by (auto simp: getlk_def Let_def lt_def lock_end_def split: option.split)
  have s: "(\<exists>lm'. setlk env now ino owner start fin typ pid False lm = Some (lm', ReplyOk)) \<longleftrightarrow> ?g = None"
    unfolding get_conflict_None [OF wf, of t ino owner pid lt start "fuse_len start fin" "now 0"]
    using assms(2) by (auto simp: setlk_def Let_def lt_def F_RDLCK_def F_WRLCK_def split: prod.splits LockResult.splits)
  show ?thesis
  proof (cases ?g)
    case None
    then show ?thesis using g s by simp
  next
    case (Some c)
    then have "c \<in> set (held lm ino)" "\<not> same_process pid c \<and> conflicts_with (new_FileLock t owner pid lt start (fuse_len start fin)) c"
      by (auto simp: get_conflict_def held_def find_Some_iff split: option.splits)
    moreover have "(case lk_type c of Shared \<Rightarrow> F_RDLCK | Exclusive \<Rightarrow> F_WRLCK) \<noteq> F_UNLCK"
      by (simp add: F_RDLCK_def F_WRLCK_def F_UNLCK_def split: LockType.split)
    ultimately show ?thesis using g s Some by (auto simp: compatible_def)
  qed
qed

text \<open>Requests do not split locks: when an owner locks or unlocks a part of a range it holds, the whole
  lock that overlaps the part goes, so a byte that only this lock protected and that the request does
  not name is protected by no lock of the owner afterwards.\<close>

theorem partial_request_releases_rest:
  assumes "lock_reach lm" and "a \<in> set (held lm ino)" "lk_owner a = owner" "overlaps a (new_FileLock now owner pid lt start len)"
    and "x \<in> lock_bytes a" "x \<notin> lock_bytes (new_FileLock now owner pid lt start len)"
    and "\<And>l. l \<in> set (held lm ino) \<Longrightarrow> lk_owner l = owner \<Longrightarrow> x \<in> lock_bytes l \<Longrightarrow> l = a"
  shows "\<not> (\<exists>l \<in> set (held (unlock now ino owner start len lm) ino). lk_owner l = owner \<and> x \<in> lock_bytes l) \<and>
    (snd (try_lock now ino owner pid lt start len lm) = LockOk \<longrightarrow>
      \<not> (\<exists>l \<in> set (held (fst (try_lock now ino owner pid lt start len lm)) ino). lk_owner l = owner \<and> x \<in> lock_bytes l))"
proof -
  have wf: "hm_wf (lm_locks lm)" using reach_locks_ok [OF assms(1)] by (simp add: locks_ok_def)
  have "overlaps a (new_FileLock now owner 0 Shared start len)"
    using assms(4) overlaps_new by blast
  then show ?thesis
    using assms(3-7) by (auto simp: held_unlock [OF wf] try_lock_cases(3) [OF wf])
qed

section \<open>Examples\<close>

text \<open>Owner 10 holds the first 100 bytes of file 2 exclusively.\<close>

definition demo_locks :: LockManager where
  "demo_locks = fst (try_lock 0 2 10 100 Exclusive 0 100 new_LockManager)"

lemma demo_locks_eq: "demo_locks = \<lparr>lm_locks = [(2, [new_FileLock 0 10 100 Exclusive 0 100])]\<rparr>"
  by (simp add: demo_locks_def try_lock_def new_LockManager_def hm_insert_def)

lemma demo_locks_reach: "lock_reach demo_locks"
  unfolding demo_locks_def by (intro lock_reach.intros)

lemma demo_held: "held demo_locks 2 = [new_FileLock 0 10 100 Exclusive 0 100]"
  by (simp add: demo_locks_eq held_def hm_get_def)

lemmas lock_eval = try_lock_def conflicts_with_def overlaps_def lock_end_def same_process_def hm_get_def hm_insert_def
  u64_sat_add_def u64_max_def

lemma table_at_2: "table_at env att lm 2 = env 1 (fst (att 1 (env 0 (fst (att 0 lm)))))"
  by (simp add: numeral_2_eq_2)

theorem lock_exclusion_witness:
  "\<exists>lm a b. lk_owner a \<noteq> lk_owner b \<and> set (held lm 2) = {a, b} \<and> lk_type a = Shared \<and> lk_type b = Shared"
proof -
  let ?a = "new_FileLock 0 10 100 Shared 0 100" and ?b = "new_FileLock 1 20 200 Shared 50 0"
  define lm where "lm = fst (try_lock 1 2 20 200 Shared 50 0 (fst (try_lock 0 2 10 100 Shared 0 100 new_LockManager)))"
  have "lm = \<lparr>lm_locks = [(2, [?a, ?b])]\<rparr>" by (simp add: lm_def new_LockManager_def lock_eval)
  then have h: "held lm 2 = [?a, ?b]" by (simp add: held_def hm_get_def)
  have "lock_reach lm" unfolding lm_def by (intro lock_reach.intros)
  then have "lk_type ?a = Shared \<and> lk_type ?b = Shared"
    by (rule lock_exclusion [of lm ?a 2 ?b 60]) (simp_all add: h lock_bytes_def lock_end_def u64_sat_add_def u64_max_def)
  with h show ?thesis by (intro exI [of _ lm] exI [of _ ?a] exI [of _ ?b]) auto
qed

theorem lock_wait_granted_witness:
  "\<exists>n \<le> 2. \<exists>lm. lock_wait (\<lambda>k lm. if k = 1 then release_all 2 10 lm else lm) (\<lambda>_. 7) 2 20 200 Shared 50 10 demo_locks =
     Some (lm, map (\<lambda>i. min (2 ^ i) 100) [0..<n])"
proof -
  let ?env = "\<lambda>k lm. if k = (1::nat) then release_all 2 10 lm else lm"
  let ?att = "\<lambda>k :: nat. try_lock 7 2 20 200 Shared 50 10"
  have "fst (?att k demo_locks) = demo_locks" for k by (simp add: demo_locks_eq lock_eval)
  then have "table_at ?env ?att demo_locks 2 = release_all 2 10 demo_locks" by (simp add: table_at_2)
  also have "\<dots> = \<lparr>lm_locks = []\<rparr>"
    by (simp add: demo_locks_eq release_all_def retain_locks_def hm_remove_def hm_get_def)
  finally have "table_at ?env ?att demo_locks 2 = \<lparr>lm_locks = []\<rparr>" .
  then have "snd (?att 2 (table_at ?env ?att demo_locks 2)) = LockOk" by (simp add: lock_eval)
  note g = lock_wait_granted [where env = ?env and now = "\<lambda>_. 7" and ino = 2 and owner = 20 and pid = 200 and lt = Shared
      and start = 50 and len = 10 and m = 2 and lm = demo_locks, OF this]
  then obtain n where "n \<le> 2" and "lock_wait ?env (\<lambda>_. 7) 2 20 200 Shared 50 10 demo_locks =
      Some (fst (?att n (table_at ?env ?att demo_locks n)), map (\<lambda>i. min (2 ^ i) 100) [0..<n])" by (elim exE conjE)
  then show ?thesis by (intro exI conjI)
qed

theorem getlk_agrees_witness:
  "getlk 5 2 20 50 60 F_RDLCK 200 demo_locks = ReplyLocked 0 100 F_WRLCK 100"
proof -
  let ?c = "new_FileLock 0 10 100 Exclusive 0 100" and ?env = "\<lambda>_ lm. lm"
  have "snd (try_lock 5 2 20 200 Shared 50 10 demo_locks) = WouldBlock"
    by (simp add: demo_locks_eq lock_eval)
  then have "setlk ?env (\<lambda>_. 5) 2 20 50 60 F_RDLCK 200 False demo_locks \<noteq> Some (lm', ReplyOk)" for lm'
    by (cases "try_lock 5 2 20 200 Shared 50 10 demo_locks") (simp add: setlk_def fuse_len_def u64_max_def)
  with getlk_agrees [OF demo_locks_reach, of F_RDLCK 5 2 20 50 60 200 ?env "\<lambda>_. 5"]
  have "getlk 5 2 20 50 60 F_RDLCK 200 demo_locks =
      ReplyLocked (lk_start ?c) (lock_end ?c) (case lk_type ?c of Shared \<Rightarrow> F_RDLCK | Exclusive \<Rightarrow> F_WRLCK) (lk_pid ?c)"
    by (simp add: demo_held) blast
  then show ?thesis by (simp add: lock_end_def u64_sat_add_def u64_max_def)
qed

theorem partial_request_releases_rest_witness:
  "\<not> (\<exists>l \<in> set (held (unlock 3 2 10 50 10 demo_locks) 2). lk_owner l = 10 \<and> 5 \<in> lock_bytes l)"
proof -
  let ?a = "new_FileLock 0 10 100 Exclusive 0 100" and ?new = "new_FileLock 3 10 100 Shared 50 10"
  have a: "overlaps ?a ?new" "5 \<in> lock_bytes ?a" "5 \<notin> lock_bytes ?new"
    by (simp_all add: overlaps_def lock_bytes_def lock_end_def u64_sat_add_def u64_max_def)
  show ?thesis
    by (rule conjunct1 [OF partial_request_releases_rest [OF demo_locks_reach _ _ a]]) (simp_all add: demo_held)
qed

end
