(* ===== verification/Sharded_Caches.thy ===== *)
theory Sharded_Caches
  imports Dfs_Types
begin

text \<open>
  The sharded caches of \<^verbatim>\<open>dfs-server/src/server.rs\<close>: the rings of chunk contents and the map of
  forwarding pointers from retired chunks to the chunks that replaced them. The least-recently-used
  cache itself is a library: \<open>lru\<close> is its interface, an argument of every definition that uses one,
  and the locale \<open>lru_cache\<close> states what its documentation promises.

  Shown: the sizes of the shards, and that following the forwarding pointers always ends and
  answers exactly the end of a chain of at most four, never a chunk inside a cycle.
\<close>

section \<open>Least-recently-used caches\<close>

record ('c, 'k, 'v) lru =
  lru_new :: "nat \<Rightarrow> 'c"
  lru_get :: "'k \<Rightarrow> 'c \<Rightarrow> 'v option \<times> 'c"
  lru_peek :: "'k \<Rightarrow> 'c \<Rightarrow> 'v option"
  lru_put :: "'k \<Rightarrow> 'v \<Rightarrow> 'c \<Rightarrow> 'c"
  lru_pop :: "'k \<Rightarrow> 'c \<Rightarrow> 'c"

locale lru_cache =
  fixes L :: "('c, 'k, 'v) lru"
  assumes peek_new: "lru_peek L k (lru_new L n) = None"
    and get_peek: "fst (lru_get L k c) = lru_peek L k c"
    and peek_get: "lru_peek L j (snd (lru_get L k c)) = lru_peek L j c"
    and peek_put: "lru_peek L k (lru_put L k v c) = Some v"
    and peek_put_other: "j \<noteq> k \<Longrightarrow> lru_peek L j (lru_put L k v c) = Some w \<Longrightarrow> lru_peek L j c = Some w"
    and peek_pop: "lru_peek L j (lru_pop L k c) = (if j = k then None else lru_peek L j c)"
begin

text \<open>A cache that only ever receives right answers gives right answers, whatever it evicts.\<close>

definition sound :: "('k \<Rightarrow> 'v \<Rightarrow> bool) \<Rightarrow> 'c \<Rightarrow> bool" where
  "sound R c \<longleftrightarrow> (\<forall>k v. lru_peek L k c = Some v \<longrightarrow> R k v)"

lemma sound_new: "sound R (lru_new L n)"
  by (simp add: sound_def peek_new)

lemma sound_get: "sound R c \<Longrightarrow> sound R (snd (lru_get L k c))"
  by (simp add: sound_def peek_get)

lemma sound_hit: "sound R c \<Longrightarrow> fst (lru_get L k c) = Some v \<Longrightarrow> R k v"
  by (simp add: sound_def get_peek)

lemma sound_put: "sound R c \<Longrightarrow> R k v \<Longrightarrow> sound R (lru_put L k v c)"
  unfolding sound_def by (metis option.inject peek_put peek_put_other)

lemma sound_pop: "sound R c \<Longrightarrow> sound R (lru_pop L k c)"
  by (simp add: sound_def peek_pop)

text \<open>After a key is popped, what is right of it may change.\<close>

lemma sound_pop_change: "sound R c \<Longrightarrow> (\<And>j v. j \<noteq> k \<Longrightarrow> R j v \<Longrightarrow> R' j v) \<Longrightarrow> sound R' (lru_pop L k c)"
  by (simp add: sound_def peek_pop)

end

text \<open>The cache as its documentation describes it: a capacity, and the entries by recency.\<close>

definition recency_put :: "'k \<Rightarrow> 'v \<Rightarrow> nat \<times> ('k \<times> 'v) list \<Rightarrow> nat \<times> ('k \<times> 'v) list" where
  "recency_put k v c = (fst c, take (max 1 (fst c)) ((k, v) # AList.delete k (snd c)))"

definition recency_get :: "'k \<Rightarrow> nat \<times> ('k \<times> 'v) list \<Rightarrow> 'v option \<times> nat \<times> ('k \<times> 'v) list" where
  "recency_get k c = (case map_of (snd c) k of
      None \<Rightarrow> (None, c) | Some v \<Rightarrow> (Some v, fst c, (k, v) # AList.delete k (snd c)))"

definition recency_lru :: "(nat \<times> ('k \<times> 'v) list, 'k, 'v) lru" where
  "recency_lru = \<lparr>lru_new = (\<lambda>n. (n, [])), lru_get = recency_get, lru_peek = (\<lambda>k c. map_of (snd c) k),
     lru_put = recency_put, lru_pop = (\<lambda>k c. (fst c, AList.delete k (snd c)))\<rparr>"

lemma map_of_take: "map_of (take n xs) k = Some v \<Longrightarrow> map_of xs k = Some v"
proof (induction xs arbitrary: n)
  case (Cons x xs)
  then show ?case by (cases n) (auto split: if_splits)
qed simp

interpretation recency: lru_cache recency_lru
proof
  fix k j :: 'k and v w :: 'v and c :: "nat \<times> ('k \<times> 'v) list"
  have cons: "take (max 1 (fst c)) ((k, v) # xs) = (k, v) # take (max 1 (fst c) - 1) xs" for xs
    by (cases "max 1 (fst c)") auto
  show "lru_peek recency_lru k (lru_put recency_lru k v c) = Some v"
    by (simp add: recency_lru_def recency_put_def cons del: One_nat_def)
  show "lru_peek recency_lru j c = Some w" if "j \<noteq> k" "lru_peek recency_lru j (lru_put recency_lru k v c) = Some w"
    using that by (auto simp: recency_lru_def recency_put_def cons delete_conv' simp del: One_nat_def dest!: map_of_take split: if_splits)
qed (auto simp: recency_lru_def recency_get_def delete_conv' split: option.splits)

section \<open>Sharded caches\<close>

definition CHUNK_RING_SHARD_COUNT :: nat where
  "CHUNK_RING_SHARD_COUNT = 16"

definition ring_shard_index :: "ChunkId \<Rightarrow> nat \<Rightarrow> nat" where
  "ring_shard_index c shard_count = unat (hash c ! 0) mod shard_count"

text \<open>The number of shards and the capacity of each, for the rings and for the forwarding map.\<close>

definition shard_sizes :: "nat \<Rightarrow> nat \<times> nat" where
  "shard_sizes total_capacity =
     (let shard_count = min CHUNK_RING_SHARD_COUNT (max total_capacity 1)
      in (shard_count, max (total_capacity div shard_count) 1))"

record 'c ShardedChunkRing =
  ring_shards :: "'c list"

definition new_ring_cache :: "('c, ChunkId, 'v) lru \<Rightarrow> nat \<Rightarrow> 'c ShardedChunkRing" where
  "new_ring_cache L total_capacity =
     (let (shard_count, per_shard) = shard_sizes total_capacity
      in \<lparr>ring_shards = map (\<lambda>_. lru_new L per_shard) [0..<shard_count]\<rparr>)"

definition ring_shard :: "'c ShardedChunkRing \<Rightarrow> ChunkId \<Rightarrow> 'c" where
  "ring_shard r c = ring_shards r ! ring_shard_index c (length (ring_shards r))"

definition ring_get :: "('c, ChunkId, 'v) lru \<Rightarrow> ChunkId \<Rightarrow> 'c ShardedChunkRing \<Rightarrow> 'v option \<times> 'c ShardedChunkRing" where
  "ring_get L c r =
     (let (v, s) = lru_get L c (ring_shard r c)
      in (v, r\<lparr>ring_shards := (ring_shards r)[ring_shard_index c (length (ring_shards r)) := s]\<rparr>))"

record 'c ShardedAliasMap =
  alias_shards :: "'c list"

definition new_alias_map :: "('c, ChunkId, ChunkId) lru \<Rightarrow> nat \<Rightarrow> 'c ShardedAliasMap" where
  "new_alias_map L total_capacity =
     (let (shard_count, per_shard) = shard_sizes total_capacity
      in \<lparr>alias_shards = map (\<lambda>_. lru_new L per_shard) [0..<shard_count]\<rparr>)"

definition alias_insert :: "('c, ChunkId, ChunkId) lru \<Rightarrow> ChunkId \<Rightarrow> ChunkId \<Rightarrow> 'c ShardedAliasMap \<Rightarrow> 'c ShardedAliasMap" where
  "alias_insert L old_chunk_id new_chunk_id a =
     (let i = ring_shard_index old_chunk_id (length (alias_shards a))
      in a\<lparr>alias_shards := (alias_shards a)[i := lru_put L old_chunk_id new_chunk_id (alias_shards a ! i)]\<rparr>)"

definition MAX_HOPS :: nat where
  "MAX_HOPS = 4"

text \<open>The loop of \<open>resolve\<close>; a lookup refreshes the recency of its shard.\<close>

function resolve_loop ::
    "('c, ChunkId, ChunkId) lru \<Rightarrow> 'c list \<Rightarrow> ChunkId \<Rightarrow> ChunkId list \<Rightarrow> nat \<Rightarrow> 'c list \<times> ChunkId option" where
  "resolve_loop L shards cur visited hops =
     (let i = ring_shard_index cur (length shards);
          (nxt, s) = lru_get L cur (shards ! i);
          shards' = shards[i := s]
      in case nxt of
           None \<Rightarrow> (shards', if hops > 0 then Some cur else None)
         | Some n \<Rightarrow>
             if n \<in> set visited then (shards', None)
             else if hops \<ge> MAX_HOPS then (shards', None)
             else resolve_loop L shards' n (visited @ [n]) (hops + 1))"
  by pat_completeness auto
termination
  by (relation "measure (\<lambda>(_, _, _, _, hops). MAX_HOPS - hops)") auto

definition alias_resolve :: "('c, ChunkId, ChunkId) lru \<Rightarrow> ChunkId \<Rightarrow> 'c ShardedAliasMap \<Rightarrow> ChunkId option \<times> 'c ShardedAliasMap" where
  "alias_resolve L c a =
     (let (shards, r) = resolve_loop L (alias_shards a) c [c] 0 in (r, a\<lparr>alias_shards := shards\<rparr>))"

declare resolve_loop.simps [simp del]

section \<open>Sizes\<close>

text \<open>The shards of a cache never exceed its capacity: there are between 1 and 16 of them, never more
  than there are entries to hold, each holds at least one entry, and together they hold at most the
  capacity and lose fewer than one entry per shard to rounding.\<close>

theorem shard_sizes_bounds:
  assumes "shard_sizes cap = (n, k)"
  shows "1 \<le> n \<and> n \<le> 16 \<and> n \<le> max cap 1 \<and> 1 \<le> k \<and> n * k \<le> max cap 1 \<and> cap < n * k + n"
proof -
  have n: "n = min 16 (max cap 1)" and k: "k = max (cap div n) 1"
    using assms by (auto simp: shard_sizes_def Let_def CHUNK_RING_SHARD_COUNT_def)
  then have pos: "0 < n" by simp
  have "n * (cap div n) \<le> cap" by simp
  moreover have "cap < n * (cap div n) + n" using pos by (metis dividend_less_times_div mult.commute add.commute)
  moreover have "cap div n = 0 \<Longrightarrow> cap = 0 \<and> n = 1" using n pos by (auto simp: div_eq_0_iff)
  ultimately show ?thesis using n k pos by (cases "cap div n = 0") (auto simp: max_def)
qed

theorem shard_sizes_bounds_witness: "shard_sizes 100 = (16, 6) \<and> 16 * 6 \<le> (100::nat)"
  using shard_sizes_bounds [of 100 16 6] by (simp add: shard_sizes_def CHUNK_RING_SHARD_COUNT_def)

section \<open>Forwarding\<close>

text \<open>The pointer of a chunk, and the chunk that so many pointers lead to.\<close>

definition forward :: "('c, ChunkId, ChunkId) lru \<Rightarrow> 'c list \<Rightarrow> ChunkId \<Rightarrow> ChunkId option" where
  "forward L shards c = lru_peek L c (shards ! ring_shard_index c (length shards))"

fun walk :: "('a \<Rightarrow> 'a option) \<Rightarrow> nat \<Rightarrow> 'a \<Rightarrow> 'a option" where
  "walk f 0 x = Some x"
| "walk f (Suc n) x = Option.bind (f x) (walk f n)"

lemma walk_add: "walk f (m + n) x = Option.bind (walk f m x) (walk f n)"
  by (induction m arbitrary: x) (auto simp: Option.bind_eq_None_conv split: bind_splits)

lemma walk_Suc: "walk f (Suc n) x = Option.bind (walk f n x) f"
proof -
  have "walk f (Suc 0) = f" by (intro ext) (simp split: bind_splits)
  then show ?thesis using walk_add [of f n "Suc 0" x] by simp
qed

text \<open>A walk from a chunk on a cycle never ends.\<close>

lemma walk_cycle: "walk f m x = Some x \<Longrightarrow> walk f (m * q) x = Some x"
  by (induction q) (simp_all add: walk_add)

lemma walk_prefix: "walk f n x = Some y \<Longrightarrow> m \<le> n \<Longrightarrow> walk f m x \<noteq> None"
  using walk_add [of f m "n - m" x] by (cases "walk f m x") auto

lemma cycle_no_end:
  assumes "walk f (Suc m) x = Some x" and "walk f n x = Some y"
  shows "f y \<noteq> None"
proof -
  have "walk f (Suc m * Suc n) x = Some x" by (rule walk_cycle [OF assms(1)])
  then have "walk f (Suc n) x \<noteq> None" by (rule walk_prefix) simp
  then show ?thesis using assms(2) by (simp only: walk_Suc) simp
qed

text \<open>A lookup changes no pointer.\<close>

lemma forward_get:
  assumes "lru_cache L" and "shards \<noteq> []"
  shows "forward L (shards[ring_shard_index c (length shards) := snd (lru_get L c (shards ! ring_shard_index c (length shards)))]) = forward L shards"
proof
  fix d
  let ?i = "ring_shard_index c (length shards)" and ?j = "ring_shard_index d (length shards)"
  have "?i < length shards" using assms(2) by (simp add: ring_shard_index_def)
  then show "forward L (shards[?i := snd (lru_get L c (shards ! ?i))]) d = forward L shards d"
    by (cases "?i = ?j") (simp_all add: forward_def lru_cache.peek_get [OF assms(1)])
qed

lemma resolve_loop_correct:
  assumes "lru_cache L" and "shards \<noteq> []" and "\<forall>v \<in> set visited. \<exists>k. walk (forward L shards) k v = Some cur"
    and "hops \<le> MAX_HOPS"
  shows "forward L (fst (resolve_loop L shards cur visited hops)) = forward L shards \<and>
    (snd (resolve_loop L shards cur visited hops) = Some d \<longleftrightarrow>
      (\<exists>h. 0 < hops + h \<and> hops + h \<le> MAX_HOPS \<and> walk (forward L shards) h cur = Some d \<and> forward L shards d = None))"
  using assms
proof (induction L shards cur visited hops rule: resolve_loop.induct)
  case (1 L shards cur visited hops)
  note lc = "1.prems"(1)
  define f where "f = forward L shards"
  define i where "i = ring_shard_index cur (length shards)"
  obtain nxt s where g: "lru_get L cur (shards ! i) = (nxt, s)" by fastforce
  have nxt: "nxt = f cur" using lru_cache.get_peek [OF lc, of cur "shards ! i"] g by (simp add: f_def forward_def i_def)
  have fwd: "forward L (shards[i := s]) = f" using forward_get [OF lc "1.prems"(2), of cur] g by (simp add: f_def i_def)
  note loop = resolve_loop.simps [of L shards cur visited hops, folded i_def, unfolded g Let_def prod.case nxt]
  show ?case
  proof (cases "f cur")
    case None
    have "walk f h cur = Some d \<longleftrightarrow> h = 0 \<and> d = cur" for h by (cases h) (auto simp: None)
    then show ?thesis using None "1.prems"(4) by (auto simp: loop fwd f_def [symmetric])
  next
    case (Some n)
    have step: "walk f (Suc h) cur = walk f h n" for h by (simp add: Some)
    consider (cycle) "n \<in> set visited" | (long) "n \<notin> set visited" "MAX_HOPS \<le> hops" | (go) "n \<notin> set visited" "hops < MAX_HOPS"
      by linarith
    then show ?thesis
    proof cases
      case cycle
      then obtain k where "walk f k n = Some cur" using "1.prems"(3) by (auto simp: f_def)
      then have "walk f (Suc k) cur = Some cur" by (simp only: step)
      then have "f d \<noteq> None" if "walk f h cur = Some d" for h using cycle_no_end that by metis
      then show ?thesis using cycle Some by (auto simp: loop fwd f_def [symmetric])
    next
      case long
      then have "f d \<noteq> None" if "hops + h \<le> MAX_HOPS" "walk f h cur = Some d" for h
        using that Some by (cases h) auto
      then show ?thesis using long Some by (auto simp: loop fwd f_def [symmetric])
    next
      case go
      have vis: "\<forall>v \<in> set (visited @ [n]). \<exists>k. walk f k v = Some n"
      proof
        fix v assume "v \<in> set (visited @ [n])"
        then consider "v = n" | k where "walk f k v = Some cur" using "1.prems"(3) by (auto simp: f_def)
        then show "\<exists>k. walk f k v = Some n"
        proof cases
          case 1
          then show ?thesis by (intro exI [of _ 0]) simp
        next
          case 2
          then show ?thesis by (intro exI [of _ "Suc k"]) (simp only: walk_Suc, simp add: Some)
        qed
      qed
      have ih: "forward L (fst (resolve_loop L (shards[i := s]) n (visited @ [n]) (hops + 1))) = f \<and>
          (snd (resolve_loop L (shards[i := s]) n (visited @ [n]) (hops + 1)) = Some d \<longleftrightarrow>
            (\<exists>h. 0 < hops + 1 + h \<and> hops + 1 + h \<le> MAX_HOPS \<and> walk f h n = Some d \<and> f d = None))"
        using "1.IH" [of i "(nxt, s)" nxt s "shards[i := s]" n] g nxt Some go vis lc "1.prems"(2) fwd
        by (simp add: i_def)
      have "(\<exists>h. 0 < hops + h \<and> hops + h \<le> MAX_HOPS \<and> walk f h cur = Some d \<and> f d = None) \<longleftrightarrow>
          (\<exists>h. 0 < hops + 1 + h \<and> hops + 1 + h \<le> MAX_HOPS \<and> walk f h n = Some d \<and> f d = None)" (is "?l \<longleftrightarrow> ?r")
      proof
        assume ?l
        then obtain h where h: "hops + h \<le> MAX_HOPS" "walk f h cur = Some d" "f d = None" by blast
        then obtain k where "h = Suc k" using Some by (cases h) auto
        with h show ?r by (intro exI [of _ k]) (simp add: Some)
      next
        assume ?r
        then obtain h where "hops + 1 + h \<le> MAX_HOPS" "walk f h n = Some d" "f d = None" by blast
        then show ?l by (intro exI [of _ "Suc h"]) (simp add: Some)
      qed
      with ih show ?thesis using go by (simp add: loop Some f_def [symmetric])
    qed
  qed
qed

text \<open>C15. Following the forwarding pointers of retired chunks always ends, changes no pointer, and answers
  a chunk exactly when it is the end of the chain, between one and four pointers away: a longer
  chain and a cycle, which arise when a chunk is rewritten to content it had before, give no answer.\<close>

theorem alias_resolve_correct:
  assumes "lru_cache L" and "alias_shards a \<noteq> []"
  shows "(fst (alias_resolve L c a) = Some d \<longleftrightarrow>
      (\<exists>h. 1 \<le> h \<and> h \<le> 4 \<and> walk (forward L (alias_shards a)) h c = Some d \<and> forward L (alias_shards a) d = None)) \<and>
    forward L (alias_shards (snd (alias_resolve L c a))) = forward L (alias_shards a)"
proof -
  have "\<forall>v \<in> set [c]. \<exists>k. walk (forward L (alias_shards a)) k v = Some c" by (auto intro: exI [of _ 0])
  from resolve_loop_correct [OF assms this, of 0 d]
  show ?thesis by (auto simp: alias_resolve_def Let_def MAX_HOPS_def case_prod_unfold Suc_le_eq)
qed

theorem alias_resolve_correct_witness:
  "let a = alias_insert recency_lru (ChunkId (replicate 32 1)) (ChunkId (replicate 32 2)) (new_alias_map recency_lru 64)
   in fst (alias_resolve recency_lru (ChunkId (replicate 32 1)) a) = Some (ChunkId (replicate 32 2))"
proof -
  let ?A = "ChunkId (replicate 32 1)" and ?B = "ChunkId (replicate 32 2)"
  define a where "a = alias_insert recency_lru ?A ?B (new_alias_map recency_lru 64)"
  have idx: "ring_shard_index ?A 16 = 1" "ring_shard_index ?B 16 = 2" by (simp_all add: ring_shard_index_def)
  have sh: "alias_shards a = (map (\<lambda>_. (4, [])) [0..<16])[1 := (4, [(?A, ?B)])]"
    by (simp add: a_def alias_insert_def new_alias_map_def shard_sizes_def CHUNK_RING_SHARD_COUNT_def idx recency_lru_def recency_put_def)
  have "forward recency_lru (alias_shards a) ?A = Some ?B" "forward recency_lru (alias_shards a) ?B = None"
    by (simp_all add: forward_def sh idx recency_lru_def)
  then have "\<exists>h. 1 \<le> h \<and> h \<le> 4 \<and> walk (forward recency_lru (alias_shards a)) h ?A = Some ?B \<and> forward recency_lru (alias_shards a) ?B = None"
    by (intro exI [of _ 1]) simp
  moreover have "alias_shards a \<noteq> []" by (simp add: sh)
  ultimately have "fst (alias_resolve recency_lru ?A a) = Some ?B"
    using alias_resolve_correct [OF recency.lru_cache_axioms, of a ?A ?B] by blast
  then show ?thesis by (simp add: a_def Let_def)
qed

end
