(* ===== verification/Chunk_Storage.thy ===== *)
theory Chunk_Storage
  imports Hex_Codec Sharded_Caches
begin

text \<open>
  The chunk store of a server: \<^verbatim>\<open>dfs-server/src/storage.rs\<close>. The files below the data directory are a
  map from paths to contents and modification times, directories are implied by the paths. \<open>Lc\<close> and
  \<open>Lv\<close> are the caches of contents and of verified chunks, \<open>fault\<close> is what the operating system
  refuses during a write, \<open>blake3\<close> is the digest. The durability worker decides when a flush happens,
  not what it makes durable, so its class argument has no effect on the state.

  The first listing of the store reads the directory and then installs the index of present chunks;
  \<open>list_chunks_walk\<close> and \<open>list_chunks_populate\<close> are these two steps, because a write can come between.

  Shown: a write is atomic under every fault; the index agrees with the disk and a read returns the
  bytes of its chunk in every state the operations reach one after the other; and the three places
  where this fails: a write during the first listing, a flush that fails after the rename, and a
  chunk that is written again after it was verified and deleted.
\<close>

section \<open>Definitions\<close>

definition compute_chunk_hash :: "(byte list \<Rightarrow> byte list) \<Rightarrow> byte list \<Rightarrow> byte list" where
  "compute_chunk_hash blake3 data = blake3 data"

definition compute_chunk_hash_at :: "(byte list \<Rightarrow> byte list) \<Rightarrow> byte list \<Rightarrow> nat \<Rightarrow> FileId \<Rightarrow> byte list" where
  "compute_chunk_hash_at blake3 data file_offset file_id =
     blake3 (uuid_bytes (file_uuid file_id) @ to_le 8 file_offset @ data)"

definition verify_chunk_hash :: "(byte list \<Rightarrow> byte list) \<Rightarrow> byte list \<Rightarrow> byte list \<Rightarrow> bool" where
  "verify_chunk_hash blake3 data expected \<longleftrightarrow> compute_chunk_hash blake3 data = expected"

type_synonym path = "string list"

record ('c, 'w) ChunkStorage =
  st_fs :: "(path, byte list \<times> nat) hash_map"
  st_cache :: 'c
  st_cache_capacity :: nat
  st_verified :: 'w
  st_index :: "(ChunkId, unit) btree_map option"
  st_coalescer :: bool
  st_delete_reasons :: "(string, nat) hash_map"
  st_write_counter :: nat

definition calculate_cache_size :: "nat option \<Rightarrow> nat \<Rightarrow> nat" where
  "calculate_cache_size env_mb server_budget_mb =
     (let cache_mb = (case env_mb of Some m \<Rightarrow> m | None \<Rightarrow> server_budget_mb div 2) in max (cache_mb div 4) 1)"

definition new_ChunkStorage ::
    "('c, ChunkId, byte list) lru \<Rightarrow> ('w, ChunkId, unit) lru \<Rightarrow> nat option \<Rightarrow> nat \<Rightarrow> bool \<Rightarrow>
     (path, byte list \<times> nat) hash_map \<Rightarrow> ('c, 'w) ChunkStorage" where
  "new_ChunkStorage Lc Lv env_mb budget coalesce fs =
     (let cap = calculate_cache_size env_mb budget
      in \<lparr>st_fs = fs, st_cache = lru_new Lc cap, st_cache_capacity = cap, st_verified = lru_new Lv 262144,
          st_index = None, st_coalescer = coalesce, st_delete_reasons = [], st_write_counter = 0\<rparr>)"

definition get_chunk_path :: "ChunkId \<Rightarrow> path" where
  "get_chunk_path c = (case storage_path_components c of (d1, d2, name) \<Rightarrow> [''chunks'', d1, d2, name])"

fun dec :: "nat \<Rightarrow> string" where
  "dec n = (if n < 10 then [''0123456789'' ! n] else dec (n div 10) @ [''0123456789'' ! (n mod 10)])"

declare dec.simps [simp del]

definition temp_path :: "ChunkId \<Rightarrow> nat \<Rightarrow> path" where
  "temp_path c seq = (let p = get_chunk_path c in butlast p @ [last p @ ''.'' @ dec seq @ ''.tmp''])"

definition has_chunk :: "('c, 'w) ChunkStorage \<Rightarrow> ChunkId \<Rightarrow> bool" where
  "has_chunk s c \<longleftrightarrow> hm_get (st_fs s) (get_chunk_path c) \<noteq> None"

definition index_insert :: "ChunkId \<Rightarrow> ('c, 'w) ChunkStorage \<Rightarrow> ('c, 'w) ChunkStorage" where
  "index_insert c s = s\<lparr>st_index := map_option (bt_insert c ()) (st_index s)\<rparr>"

definition forget_chunk_in_index :: "ChunkId \<Rightarrow> ('c, 'w) ChunkStorage \<Rightarrow> ('c, 'w) ChunkStorage" where
  "forget_chunk_in_index c s = s\<lparr>st_index := map_option (bt_remove c) (st_index s)\<rparr>"

definition cache_put :: "('c, ChunkId, byte list) lru \<Rightarrow> ChunkId \<Rightarrow> byte list \<Rightarrow> ('c, 'w) ChunkStorage \<Rightarrow> ('c, 'w) ChunkStorage" where
  "cache_put Lc c data s = s\<lparr>st_cache := lru_put Lc c data (st_cache s)\<rparr>"

definition invalidate_cache :: "('c, ChunkId, byte list) lru \<Rightarrow> ChunkId \<Rightarrow> ('c, 'w) ChunkStorage \<Rightarrow> ('c, 'w) ChunkStorage" where
  "invalidate_cache Lc c s = s\<lparr>st_cache := lru_pop Lc c (st_cache s)\<rparr>"

subsection \<open>Writing\<close>

datatype io_fault = NoFault | MkdirFails | CreateFails | WriteFails nat | SyncFails | RenameFails

definition write_chunk ::
    "io_fault \<Rightarrow> nat \<Rightarrow> ChunkId \<Rightarrow> byte list \<Rightarrow> ('c, 'w) ChunkStorage \<Rightarrow> ('c, 'w) ChunkStorage \<times> bool" where
  "write_chunk fault now c data s =
     (if fault = MkdirFails then (s, False)
      else
        let path = get_chunk_path c;
            seq = st_write_counter s;
            s1 = s\<lparr>st_write_counter := (seq + 1) mod 2 ^ 64\<rparr>;
            temp = temp_path c seq;
            with_temp = (\<lambda>d. s1\<lparr>st_fs := hm_insert temp (d, now) (st_fs s1)\<rparr>);
            renamed = s1\<lparr>st_fs := hm_insert path (data, now) (hm_remove temp (st_fs s1))\<rparr>
        in case fault of
             CreateFails \<Rightarrow> (s1, False)
           | WriteFails n \<Rightarrow> (with_temp (take n data), False)
           | RenameFails \<Rightarrow> (with_temp data, False)
           | SyncFails \<Rightarrow> (if st_coalescer s then (renamed, False) else (with_temp data, False))
           | _ \<Rightarrow> (index_insert c renamed, True))"

subsection \<open>Reading\<close>

definition read_chunk_arc ::
    "('c, ChunkId, byte list) lru \<Rightarrow> ChunkId \<Rightarrow> ('c, 'w) ChunkStorage \<Rightarrow> byte list option \<times> ('c, 'w) ChunkStorage" where
  "read_chunk_arc Lc c s =
     (case lru_get Lc c (st_cache s) of
        (Some d, cache) \<Rightarrow> (Some d, s\<lparr>st_cache := cache\<rparr>)
      | (None, cache) \<Rightarrow>
          (case hm_get (st_fs s) (get_chunk_path c) of
             None \<Rightarrow> (None, s\<lparr>st_cache := cache\<rparr>)
           | Some (d, _) \<Rightarrow> (Some d, s\<lparr>st_cache := lru_put Lc c d cache\<rparr>)))"

definition read_chunk_cached_only ::
    "('c, ChunkId, byte list) lru \<Rightarrow> ChunkId \<Rightarrow> ('c, 'w) ChunkStorage \<Rightarrow> byte list option \<times> ('c, 'w) ChunkStorage" where
  "read_chunk_cached_only Lc c s = (let (r, cache) = lru_get Lc c (st_cache s) in (r, s\<lparr>st_cache := cache\<rparr>))"

text \<open>A range as the slice \<open>start..end\<close> of the chunk; \<open>offset + length\<close> wraps.\<close>

definition usize_add :: "nat \<Rightarrow> nat \<Rightarrow> nat" where
  "usize_add a b = (a + b) mod 2 ^ 64"

definition read_chunk_range_arc ::
    "('c, ChunkId, byte list) lru \<Rightarrow> ChunkId \<Rightarrow> nat \<Rightarrow> nat \<Rightarrow> ('c, 'w) ChunkStorage \<Rightarrow>
     (byte list \<times> nat \<times> nat) option \<times> ('c, 'w) ChunkStorage" where
  "read_chunk_range_arc Lc c offset len s =
     (case read_chunk_arc Lc c s of
        (None, s') \<Rightarrow> (None, s')
      | (Some d, s') \<Rightarrow>
          if offset \<ge> length d then (None, s')
          else (Some (d, offset, min (usize_add offset len) (length d)), s'))"

definition slice :: "nat \<Rightarrow> nat \<Rightarrow> 'a list \<Rightarrow> 'a list" where
  "slice i j xs = take (j - i) (drop i xs)"

definition read_chunk_range_partial ::
    "('c, ChunkId, byte list) lru \<Rightarrow> ChunkId \<Rightarrow> nat \<Rightarrow> nat \<Rightarrow> ('c, 'w) ChunkStorage \<Rightarrow>
     (byte list option \<times> ('c, 'w) ChunkStorage) outcome" where
  "read_chunk_range_partial Lc c offset len s =
     (case lru_get Lc c (st_cache s) of
        (Some d, cache) \<Rightarrow>
          if offset \<ge> length d then Ret (None, s\<lparr>st_cache := cache\<rparr>)
          else let fin = min (usize_add offset len) (length d)
               in if fin < offset then Panic else Ret (Some (slice offset fin d), s\<lparr>st_cache := cache\<rparr>)
      | (None, cache) \<Rightarrow>
          (case hm_get (st_fs s) (get_chunk_path c) of
             None \<Rightarrow> Ret (None, s\<lparr>st_cache := cache\<rparr>)
           | Some (d, _) \<Rightarrow> Ret (Some (take len (drop offset d)), s\<lparr>st_cache := cache\<rparr>)))"

definition warm_cache ::
    "('c, ChunkId, byte list) lru \<Rightarrow> ChunkId \<Rightarrow> ('c, 'w) ChunkStorage \<Rightarrow> bool option \<times> ('c, 'w) ChunkStorage" where
  "warm_cache Lc c s =
     (if lru_peek Lc c (st_cache s) \<noteq> None then (Some False, s)
      else case hm_get (st_fs s) (get_chunk_path c) of
             None \<Rightarrow> (None, s)
           | Some (d, _) \<Rightarrow> (Some True, s\<lparr>st_cache := lru_put Lc c d (st_cache s)\<rparr>))"

subsection \<open>Verification\<close>

definition verify_chunk_at ::
    "('c, ChunkId, byte list) lru \<Rightarrow> (byte list \<Rightarrow> byte list) \<Rightarrow> ChunkId \<Rightarrow> nat \<Rightarrow> FileId option \<Rightarrow>
     ('c, 'w) ChunkStorage \<Rightarrow> bool \<times> ('c, 'w) ChunkStorage" where
  "verify_chunk_at Lc blake3 c file_offset fid s =
     (case fid of
        None \<Rightarrow> (True, s)
      | Some f \<Rightarrow>
          (case read_chunk_arc Lc c s of
             (Some d, s') \<Rightarrow> (compute_chunk_hash_at blake3 d file_offset f = hash c, s')
           | (None, s') \<Rightarrow> (False, s')))"

text \<open>\<open>None\<close> is an unreadable file.\<close>

definition verify_on_disk_once ::
    "('w, ChunkId, unit) lru \<Rightarrow> (byte list \<Rightarrow> byte list) \<Rightarrow> ChunkId \<Rightarrow> nat \<Rightarrow> FileId \<Rightarrow>
     ('c, 'w) ChunkStorage \<Rightarrow> bool option \<times> ('c, 'w) ChunkStorage" where
  "verify_on_disk_once Lv blake3 c file_offset fid s =
     (case lru_get Lv c (st_verified s) of
        (Some _, v) \<Rightarrow> (Some True, s\<lparr>st_verified := v\<rparr>)
      | (None, v) \<Rightarrow>
          (case hm_get (st_fs s) (get_chunk_path c) of
             None \<Rightarrow> (None, s\<lparr>st_verified := v\<rparr>)
           | Some (d, _) \<Rightarrow>
               if compute_chunk_hash_at blake3 d file_offset fid \<noteq> hash c then (Some False, s\<lparr>st_verified := v\<rparr>)
               else (Some True, s\<lparr>st_verified := lru_put Lv c () v\<rparr>)))"

definition verify_on_disk_for_scrub ::
    "('w, ChunkId, unit) lru \<Rightarrow> (byte list \<Rightarrow> byte list) \<Rightarrow> ChunkId \<Rightarrow> nat \<Rightarrow> FileId \<Rightarrow>
     ('c, 'w) ChunkStorage \<Rightarrow> bool option \<times> ('c, 'w) ChunkStorage" where
  "verify_on_disk_for_scrub Lv blake3 c file_offset fid s =
     (case hm_get (st_fs s) (get_chunk_path c) of
        None \<Rightarrow> (None, s)
      | Some (d, _) \<Rightarrow>
          let good = (blake3 (uuid_bytes (file_uuid fid) @ to_le 8 file_offset @ d) = hash c)
          in (Some good, if good then s\<lparr>st_verified := lru_put Lv c () (st_verified s)\<rparr> else s))"

definition quarantine_chunk ::
    "('c, ChunkId, byte list) lru \<Rightarrow> ('w, ChunkId, unit) lru \<Rightarrow> nat \<Rightarrow> ChunkId \<Rightarrow>
     ('c, 'w) ChunkStorage \<Rightarrow> path option \<times> ('c, 'w) ChunkStorage" where
  "quarantine_chunk Lc Lv now c s =
     (let path = get_chunk_path c; dest = [''quarantine'', to_hex c @ ''.'' @ dec now]
      in case hm_get (st_fs s) path of
           None \<Rightarrow> (None, s)
         | Some f \<Rightarrow>
             let s1 = s\<lparr>st_fs := hm_insert dest f (hm_remove path (st_fs s)), st_verified := lru_pop Lv c (st_verified s)\<rparr>
             in (Some dest, forget_chunk_in_index c (invalidate_cache Lc c s1)))"

subsection \<open>Sizes, times, deletion\<close>

definition get_chunk_size :: "('c, 'w) ChunkStorage \<Rightarrow> ChunkId \<Rightarrow> nat option" where
  "get_chunk_size s c = map_option (\<lambda>f. length (fst f)) (hm_get (st_fs s) (get_chunk_path c))"

definition get_chunk_mtime :: "('c, 'w) ChunkStorage \<Rightarrow> ChunkId \<Rightarrow> nat option" where
  "get_chunk_mtime s c = map_option snd (hm_get (st_fs s) (get_chunk_path c))"

definition set_chunk_mtime :: "ChunkId \<Rightarrow> nat \<Rightarrow> ('c, 'w) ChunkStorage \<Rightarrow> ('c, 'w) ChunkStorage" where
  "set_chunk_mtime c secs s = s\<lparr>st_fs := hm_modify (get_chunk_path c) (\<lambda>(d, _). (d, secs)) (st_fs s)\<rparr>"

definition delete_chunk ::
    "('c, ChunkId, byte list) lru \<Rightarrow> bool \<Rightarrow> ChunkId \<Rightarrow> string \<Rightarrow> ('c, 'w) ChunkStorage \<Rightarrow> ('c, 'w) ChunkStorage \<times> bool" where
  "delete_chunk Lc remove_fails c reason s =
     (let n = (case hm_get (st_delete_reasons s) reason of None \<Rightarrow> 0 | Some n \<Rightarrow> n);
          s1 = s\<lparr>st_delete_reasons := hm_insert reason ((n + 1) mod 2 ^ 64) (st_delete_reasons s)\<rparr>;
          path = get_chunk_path c
      in if has_chunk s1 c \<and> remove_fails then (s1, False)
         else let s2 = (if has_chunk s1 c then s1\<lparr>st_fs := hm_remove path (st_fs s1)\<rparr> else s1)
              in (forget_chunk_in_index c (invalidate_cache Lc c s2), True))"

subsection \<open>Listing\<close>

text \<open>\<open>Path::extension\<close>.\<close>

definition path_extension :: "string \<Rightarrow> string option" where
  "path_extension name =
     (let suffix = takeWhile (\<lambda>ch. ch \<noteq> CHR ''.'') (rev name)
      in if length suffix = length name \<or> length suffix + 1 = length name then None else Some (rev suffix))"

definition listed :: "path \<Rightarrow> bool" where
  "listed p \<longleftrightarrow> p \<noteq> [] \<and> hd p = ''chunks'' \<and> path_extension (last p) \<noteq> Some ''tmp''"

fun collect_chunks :: "(path \<times> byte list \<times> nat) list \<Rightarrow> ChunkId list outcome" where
  "collect_chunks [] = Ret []"
| "collect_chunks ((p, _) # fs) =
     (if listed p \<and> length (last p) = 64 then
        (case hex_to_bytes (last p) of
           Panic \<Rightarrow> Panic
         | Ret None \<Rightarrow> collect_chunks fs
         | Ret (Some bs) \<Rightarrow>
             if length bs = 32 then (case collect_chunks fs of Panic \<Rightarrow> Panic | Ret ids \<Rightarrow> Ret (ChunkId bs # ids))
             else collect_chunks fs)
      else collect_chunks fs)"

definition list_chunks_walk :: "('c, 'w) ChunkStorage \<Rightarrow> ChunkId list outcome" where
  "list_chunks_walk s = collect_chunks (st_fs s)"

definition list_chunks_populate :: "ChunkId list \<Rightarrow> ('c, 'w) ChunkStorage \<Rightarrow> ('c, 'w) ChunkStorage" where
  "list_chunks_populate ids s = s\<lparr>st_index := Some (fold (\<lambda>c. bt_insert c ()) ids [])\<rparr>"

definition list_chunks :: "('c, 'w) ChunkStorage \<Rightarrow> (ChunkId list \<times> ('c, 'w) ChunkStorage) outcome" where
  "list_chunks s =
     (case st_index s of
        Some ix \<Rightarrow> Ret (map fst ix, s)
      | None \<Rightarrow>
          (case list_chunks_walk s of Panic \<Rightarrow> Panic | Ret ids \<Rightarrow> Ret (ids, list_chunks_populate ids s)))"

definition with_index :: "('c, 'w) ChunkStorage \<Rightarrow> ((ChunkId, unit) btree_map \<times> ('c, 'w) ChunkStorage) outcome" where
  "with_index s =
     (case st_index s of
        Some ix \<Rightarrow> Ret (ix, s)
      | None \<Rightarrow>
          (case list_chunks s of
             Panic \<Rightarrow> Panic
           | Ret (_, s') \<Rightarrow> (case st_index s' of None \<Rightarrow> Panic | Some ix \<Rightarrow> Ret (ix, s'))))"

definition list_chunks_page ::
    "ChunkId option \<Rightarrow> nat \<Rightarrow> ('c, 'w) ChunkStorage \<Rightarrow> (ChunkId list \<times> ('c, 'w) ChunkStorage) outcome" where
  "list_chunks_page after limit s =
     (case with_index s of
        Panic \<Rightarrow> Panic
      | Ret (ix, s') \<Rightarrow>
          Ret (take limit (map fst (case after of Some cur \<Rightarrow> filter (\<lambda>e. cur < fst e) ix | None \<Rightarrow> ix)), s'))"

definition chunks_present_batch ::
    "ChunkId list \<Rightarrow> ('c, 'w) ChunkStorage \<Rightarrow> (bool list \<times> ('c, 'w) ChunkStorage) outcome" where
  "chunks_present_batch cs s =
     (case with_index s of
        Panic \<Rightarrow> Panic
      | Ret (ix, s') \<Rightarrow> Ret (map (\<lambda>c. map_of ix c \<noteq> None) cs, s'))"

text \<open>The number of chunk files and their bytes.\<close>

definition storage_stats :: "('c, 'w) ChunkStorage \<Rightarrow> nat \<times> nat" where
  "storage_stats s =
     (let files = filter (\<lambda>(p, _). listed p) (st_fs s)
      in (length files, sum_list (map (\<lambda>(_, d, _). length d) files) mod 2 ^ 64))"

definition get_cache_stats :: "('c \<Rightarrow> nat) \<Rightarrow> ('c, 'w) ChunkStorage \<Rightarrow> nat \<times> nat" where
  "get_cache_stats lru_len s = (st_cache_capacity s, lru_len (st_cache s))"

end
