(* ===== verification/Chunk_Storage_Laws.thy ===== *)
theory Chunk_Storage_Laws
  imports Chunk_Storage
begin

text \<open>
  The laws of the chunk store: names of chunk files, temporary files and quarantined files never
  collide, a listing finds exactly the chunk files, and the invariant that ties the index and the
  cache to the disk.
\<close>

section \<open>Names\<close>

lemma hex_digit_not_dot: "n < 16 \<Longrightarrow> hex_digit n \<noteq> CHR ''.''"
proof -
  have "\<forall>n \<in> set [0..<16]. hex_digit n \<noteq> CHR ''.''" by code_simp
  then show "n < 16 \<Longrightarrow> ?thesis" by simp
qed

lemma dot_not_hex: "CHR ''.'' \<notin> set (hex_encode bs)"
proof (induction bs)
  case (Cons b bs)
  then show ?case
    using hex_digit_not_dot [OF nibbles(1), of b] hex_digit_not_dot [OF nibbles(2), of b] by (auto simp: hex_encode_def hex_byte_def)
qed (simp add: hex_encode_def)

lemma to_hex_inj: "to_hex c = to_hex d \<longleftrightarrow> c = d"
proof
  assume "to_hex c = to_hex d"
  then have "Ret (Some (hash c)) = Ret (Some (hash d))" unfolding to_hex_def by (metis hex_pairs_encode)
  then show "c = d" by (simp add: ChunkId.expand)
qed simp

lemma chunk_path_parts: "get_chunk_path c = [''chunks'', take 2 (to_hex c), take 2 (drop 2 (to_hex c)), to_hex c]"
  by (simp add: get_chunk_path_def storage_path_components_def Let_def)

lemma chunk_path_inj [simp]: "get_chunk_path c = get_chunk_path d \<longleftrightarrow> c = d"
  by (auto simp: chunk_path_parts to_hex_inj)

lemma temp_path_last: "last (temp_path c n) = to_hex c @ ''.'' @ dec n @ ''.tmp''"
  by (simp add: temp_path_def Let_def chunk_path_parts)

lemma temp_not_chunk [simp]: "temp_path c n \<noteq> get_chunk_path d" "get_chunk_path d \<noteq> temp_path c n"
proof -
  have "CHR ''.'' \<in> set (last (temp_path c n))" by (simp add: temp_path_last)
  moreover have "CHR ''.'' \<notin> set (last (get_chunk_path d))" by (simp add: chunk_path_parts to_hex_def dot_not_hex)
  ultimately show "temp_path c n \<noteq> get_chunk_path d" "get_chunk_path d \<noteq> temp_path c n" by metis+
qed

lemma quarantine_not_chunk [simp]: "[''quarantine'', x] \<noteq> get_chunk_path c" "get_chunk_path c \<noteq> [''quarantine'', x]"
  by (simp_all add: chunk_path_parts)

lemma temp_not_listed: "\<not> listed (temp_path c n)"
  by (simp add: listed_def temp_path_last path_extension_def Let_def)

lemma chunk_listed: "listed (get_chunk_path c)"
proof -
  have "takeWhile (\<lambda>ch. ch \<noteq> CHR ''.'') (rev (to_hex c)) = rev (to_hex c)"
    using dot_not_hex [of "hash c"] by (auto simp: to_hex_def takeWhile_eq_all_conv)
  then have "path_extension (to_hex c) = None" unfolding path_extension_def Let_def by (simp only: length_rev simp_thms if_True)
  then show ?thesis by (simp add: listed_def chunk_path_parts)
qed

definition path_ok :: "path \<Rightarrow> bool" where
  "path_ok p \<longleftrightarrow> (\<exists>c. wf_chunk_id c \<and> p = get_chunk_path c) \<or> (\<exists>c n. p = temp_path c n) \<or> (\<exists>x. p = [''quarantine'', x])"

lemma path_okI [intro]: "wf_chunk_id c \<Longrightarrow> path_ok (get_chunk_path c)" "path_ok (temp_path c n)" "path_ok [''quarantine'', x]"
  by (auto simp: path_ok_def)

lemma collect_chunks_ok:
  "\<forall>p \<in> fst ` set fs. path_ok p \<Longrightarrow>
   \<exists>ids. collect_chunks fs = Ret ids \<and> set ids = {c. wf_chunk_id c \<and> get_chunk_path c \<in> fst ` set fs}"
proof (induction fs)
  case (Cons e fs)
  obtain p f where e: "e = (p, f)" by (cases e)
  from Cons obtain ids where ids: "collect_chunks fs = Ret ids" "set ids = {c. wf_chunk_id c \<and> get_chunk_path c \<in> fst ` set fs}"
    by auto
  have "path_ok p" using Cons.prems e by simp
  then consider (chunk) c where "wf_chunk_id c" "p = get_chunk_path c" | (temp) c n where "p = temp_path c n"
    | (quar) x where "p = [''quarantine'', x]" by (auto simp: path_ok_def)
  then show ?case
  proof cases
    case chunk
    have "hex_to_bytes (to_hex c) = Ret (Some (hash c))" by (simp add: hex_to_bytes_def to_hex_def hex_pairs_encode)
    moreover have "length (to_hex c) = 64" "length (hash c) = 32"
      using chunk(1) by (simp_all add: wf_chunk_id_def to_hex_def length_hex_encode)
    moreover have "last p = to_hex c" by (simp add: chunk(2) chunk_path_parts)
    ultimately show ?thesis using chunk ids chunk_listed [of c] by (auto simp: e)
  next
    case temp
    then show ?thesis using ids temp_not_listed by (auto simp: e)
  next
    case quar
    then show ?thesis using ids by (auto simp: e listed_def)
  qed
qed simp

section \<open>The invariant\<close>

definition fs_ok :: "(ChunkId \<Rightarrow> byte list) \<Rightarrow> (path, byte list \<times> nat) hash_map \<Rightarrow> bool" where
  "fs_ok content fs \<longleftrightarrow> hm_wf fs \<and> (\<forall>p \<in> fst ` set fs. path_ok p) \<and>
     (\<forall>c d t. hm_get fs (get_chunk_path c) = Some (d, t) \<longrightarrow> d = content c)"

definition index_ok :: "('c, 'w) ChunkStorage \<Rightarrow> bool" where
  "index_ok s \<longleftrightarrow> (case st_index s of None \<Rightarrow> True | Some ix \<Rightarrow>
     bt_wf ix \<and> (\<forall>c. map_of ix c \<noteq> None \<longleftrightarrow> wf_chunk_id c \<and> has_chunk s c))"

definition cache_ok :: "('c, ChunkId, byte list) lru \<Rightarrow> (ChunkId \<Rightarrow> byte list) \<Rightarrow> ('c, 'w) ChunkStorage \<Rightarrow> bool" where
  "cache_ok Lc content s \<longleftrightarrow> (\<forall>c d. lru_peek Lc c (st_cache s) = Some d \<longrightarrow> d = content c)"

definition storage_ok :: "('c, ChunkId, byte list) lru \<Rightarrow> (ChunkId \<Rightarrow> byte list) \<Rightarrow> ('c, 'w) ChunkStorage \<Rightarrow> bool" where
  "storage_ok Lc content s \<longleftrightarrow> fs_ok content (st_fs s) \<and> index_ok s \<and> cache_ok Lc content s"

lemma fs_put:
  assumes "fs_ok content fs" and "path_ok p" and "\<And>c. p = get_chunk_path c \<Longrightarrow> fst f = content c"
  shows "fs_ok content (hm_insert p f fs)"
  using assms by (auto simp: fs_ok_def hm.wf_put hm.get_put fst_hm_insert split: if_splits)

lemma fs_del: "fs_ok content fs \<Longrightarrow> fs_ok content (hm_remove p fs)"
  by (auto simp: fs_ok_def hm.wf_del hm.get_del fst_hm_remove split: if_splits)

lemma fs_path:
  assumes "fs_ok content fs" and "hm_get fs (get_chunk_path c) \<noteq> None"
  shows "wf_chunk_id c"
proof -
  have "get_chunk_path c \<in> fst ` set fs" using assms(2) by (simp add: hm_get_None_iff)
  then have "path_ok (get_chunk_path c)" using assms(1) unfolding fs_ok_def by blast
  then show ?thesis by (auto simp: path_ok_def)
qed

lemma cache_sound: "lru_cache Lc \<Longrightarrow> cache_ok Lc content s \<longleftrightarrow> lru_cache.sound Lc (\<lambda>c d. d = content c) (st_cache s)"
  by (simp add: cache_ok_def lru_cache.sound_def)

lemma cache_get:
  assumes "lru_cache Lc" and "cache_ok Lc content s" and "lru_get Lc c (st_cache s) = (r, cache)"
  shows "cache_ok Lc content (s'\<lparr>st_cache := cache\<rparr>)" and "r = None \<or> r = Some (content c)"
proof -
  have "lru_peek Lc j cache = lru_peek Lc j (st_cache s)" for j
    using lru_cache.peek_get [OF assms(1), of j c "st_cache s"] assms(3) by simp
  then show "cache_ok Lc content (s'\<lparr>st_cache := cache\<rparr>)" using assms(2) by (simp add: cache_ok_def)
  have "r = lru_peek Lc c (st_cache s)" using lru_cache.get_peek [OF assms(1), of c "st_cache s"] assms(3) by simp
  then show "r = None \<or> r = Some (content c)" using assms(2) unfolding cache_ok_def by (metis not_None_eq)
qed

lemma cache_put_ok: "lru_cache Lc \<Longrightarrow> cache_ok Lc content (s\<lparr>st_cache := cache\<rparr>) \<Longrightarrow>
    cache_ok Lc content (s'\<lparr>st_cache := lru_put Lc c (content c) cache\<rparr>)"
  using lru_cache.sound_put [of Lc "\<lambda>c d. d = content c" cache c "content c"] by (simp add: cache_sound)

text \<open>Operations that change neither the files nor the index.\<close>

lemma index_cong: "(\<And>d. has_chunk s' d = has_chunk s d) \<Longrightarrow> st_index s' = st_index s \<Longrightarrow> index_ok s' = index_ok s"
  by (simp add: index_ok_def split: option.split)

lemma cache_cong: "st_cache s' = st_cache s \<Longrightarrow> cache_ok Lc content s' = cache_ok Lc content s"
  by (simp add: cache_ok_def)

lemma storage_okD: "storage_ok Lc content s \<Longrightarrow> fs_ok content (st_fs s)" "storage_ok Lc content s \<Longrightarrow> index_ok s"
    "storage_ok Lc content s \<Longrightarrow> cache_ok Lc content s"
  by (simp_all add: storage_ok_def)

lemma ok_cache:
  assumes "storage_ok Lc content s" and "cache_ok Lc content s'" and "st_fs s' = st_fs s" "st_index s' = st_index s"
  shows "storage_ok Lc content s'"
proof -
  have "index_ok s' = index_ok s" using assms(3,4) by (intro index_cong) (simp_all add: has_chunk_def)
  then show ?thesis using assms by (simp add: storage_ok_def)
qed

lemma index_put:
  assumes "index_ok s" and "wf_chunk_id c" and "\<And>d. has_chunk s' d \<longleftrightarrow> d = c \<or> has_chunk s d" and "st_index s' = st_index s"
  shows "index_ok (index_insert c s')"
proof (cases "st_index s")
  case (Some ix)
  have h: "has_chunk (index_insert c s') d \<longleftrightarrow> d = c \<or> has_chunk s d" for d
    using assms(3) by (simp add: has_chunk_def index_insert_def)
  show ?thesis using assms(1,2,4) Some unfolding index_ok_def h
    by (auto simp: index_insert_def bt_wf_insert map_of_bt_insert)
qed (simp add: index_ok_def index_insert_def assms(4))

lemma index_del:
  assumes "index_ok s" and "\<And>d. has_chunk s' d \<longleftrightarrow> d \<noteq> c \<and> has_chunk s d" and "st_index s' = st_index s"
  shows "index_ok (forget_chunk_in_index c s')"
proof (cases "st_index s")
  case (Some ix)
  have h: "has_chunk (forget_chunk_in_index c s') d \<longleftrightarrow> d \<noteq> c \<and> has_chunk s d" for d
    using assms(2) by (simp add: has_chunk_def forget_chunk_in_index_def)
  show ?thesis using assms(1,3) Some unfolding index_ok_def h
    by (auto simp: forget_chunk_in_index_def bt_wf_remove map_of_bt_remove)
qed (simp add: index_ok_def forget_chunk_in_index_def assms(3))

section \<open>Every operation keeps the invariant\<close>

lemma ok_read:
  assumes "lru_cache Lc" and "storage_ok Lc content s"
  shows "storage_ok Lc content (snd (read_chunk_arc Lc c s))"
    and "fst (read_chunk_arc Lc c s) = None \<or> fst (read_chunk_arc Lc c s) = Some (content c)"
    and "has_chunk s c \<Longrightarrow> fst (read_chunk_arc Lc c s) = Some (content c)"
proof -
  have ok: "cache_ok Lc content s" "fs_ok content (st_fs s)" using assms(2) by (simp_all add: storage_ok_def)
  obtain r cache where g: "lru_get Lc c (st_cache s) = (r, cache)" by fastforce
  note get = cache_get [OF assms(1) ok(1) g]
  have disk: "d = content c" if "hm_get (st_fs s) (get_chunk_path c) = Some (d, t)" for d t
    using ok(2) that by (simp add: fs_ok_def)
  have "cache_ok Lc content (snd (read_chunk_arc Lc c s)) \<and> st_fs (snd (read_chunk_arc Lc c s)) = st_fs s \<and>
      st_index (snd (read_chunk_arc Lc c s)) = st_index s"
    using get(1) [of s] cache_put_ok [OF assms(1) get(1) [of s], where s' = s and c = c] disk
    by (auto simp: read_chunk_arc_def g split: option.splits)
  then show "storage_ok Lc content (snd (read_chunk_arc Lc c s))" using ok_cache [OF assms(2)] by blast
  show "fst (read_chunk_arc Lc c s) = None \<or> fst (read_chunk_arc Lc c s) = Some (content c)"
    "has_chunk s c \<Longrightarrow> fst (read_chunk_arc Lc c s) = Some (content c)"
    using get(2) disk by (cases r; fastforce simp: read_chunk_arc_def g has_chunk_def split: option.splits)+
qed

lemma ok_get:
  assumes "lru_cache Lc" and "storage_ok Lc content s" and "lru_get Lc c (st_cache s) = (r, cache)"
  shows "storage_ok Lc content (s\<lparr>st_cache := cache\<rparr>)"
  using assms(2) cache_get(1) [OF assms(1) _ assms(3), of content s] by (intro ok_cache [OF assms(2)]) (simp_all add: storage_ok_def)

lemma ok_partial:
  assumes "lru_cache Lc" and "storage_ok Lc content s" and "read_chunk_range_partial Lc c off len s = Ret (r, s')"
  shows "storage_ok Lc content s'"
proof -
  obtain v cache where g: "lru_get Lc c (st_cache s) = (v, cache)" by fastforce
  have "s' = s\<lparr>st_cache := cache\<rparr>"
    using assms(3) by (auto simp: read_chunk_range_partial_def g Let_def split: option.splits if_splits)
  then show ?thesis using ok_get [OF assms(1,2) g] by simp
qed

lemma ok_cached_only:
  assumes "lru_cache Lc" and "storage_ok Lc content s"
  shows "storage_ok Lc content (snd (read_chunk_cached_only Lc c s))"
  using ok_get [OF assms, of c] by (cases "lru_get Lc c (st_cache s)") (simp add: read_chunk_cached_only_def)

lemma ok_put:
  assumes "lru_cache Lc" and "storage_ok Lc content s"
  shows "storage_ok Lc content (cache_put Lc c (content c) s)"
  using assms(2) cache_put_ok [OF assms(1), where cache = "st_cache s" and s = s and s' = s and c = c]
  by (intro ok_cache [OF assms(2)]) (simp_all add: cache_put_def storage_ok_def)

lemma ok_warm:
  assumes "lru_cache Lc" and "storage_ok Lc content s"
  shows "storage_ok Lc content (snd (warm_cache Lc c s))"
proof (cases "snd (warm_cache Lc c s) = s")
  case False
  then obtain d t where "hm_get (st_fs s) (get_chunk_path c) = Some (d, t)" "snd (warm_cache Lc c s) = cache_put Lc c d s"
    by (auto simp: warm_cache_def cache_put_def split: option.splits if_splits)
  moreover from this(1) have "d = content c" using assms(2) by (simp add: storage_ok_def fs_ok_def)
  ultimately show ?thesis using ok_put [OF assms] by simp
qed (simp add: assms(2))

lemma ok_write:
  assumes "storage_ok Lc content s" and "wf_chunk_id c" and "\<not> (fault = SyncFails \<and> st_coalescer s)"
  shows "storage_ok Lc content (fst (write_chunk fault now c (content c) s))"
proof -
  define s1 where "s1 = s\<lparr>st_write_counter := (st_write_counter s + 1) mod 2 ^ 64\<rparr>"
  define temp where "temp = temp_path c (st_write_counter s)"
  have ok: "fs_ok content (st_fs s)" "index_ok s" "cache_ok Lc content s" using assms(1) by (simp_all add: storage_ok_def)
  have wf: "hm_wf (st_fs s)" using ok(1) by (simp add: fs_ok_def)
  have ok1: "storage_ok Lc content s1"
    by (rule ok_cache [OF assms(1)]) (use ok(3) in \<open>simp_all add: s1_def cache_ok_def\<close>)
  have with_temp: "storage_ok Lc content (s1\<lparr>st_fs := hm_insert temp (d, now) (st_fs s1)\<rparr>)" for d
  proof -
    let ?s = "s1\<lparr>st_fs := hm_insert temp (d, now) (st_fs s1)\<rparr>"
    have "fs_ok content (st_fs ?s)" using fs_put [OF ok(1), of temp "(d, now)"] by (auto simp: temp_def s1_def)
    moreover have "index_ok ?s = index_ok s"
      using wf by (intro index_cong) (simp_all add: has_chunk_def hm.get_put s1_def temp_def)
    moreover have "cache_ok Lc content ?s = cache_ok Lc content s" by (rule cache_cong) (simp add: s1_def)
    ultimately show ?thesis using ok(2,3) by (simp only: storage_ok_def simp_thms)
  qed
  define r where "r = s1\<lparr>st_fs := hm_insert (get_chunk_path c) (content c, now) (hm_remove temp (st_fs s1))\<rparr>"
  have "storage_ok Lc content (index_insert c r)"
  proof -
    have "fs_ok content (st_fs r)" unfolding r_def s1_def
      using fs_put [OF fs_del [OF ok(1)], of "get_chunk_path c" "(content c, now)" temp] assms(2) by auto
    moreover have "index_ok (index_insert c r)"
      by (rule index_put [OF ok(2) assms(2)])
        (auto simp: r_def s1_def has_chunk_def hm.get_put hm.get_del hm.wf_del wf temp_def)
    ultimately show ?thesis using ok(3) by (simp add: storage_ok_def index_insert_def r_def s1_def cache_ok_def)
  qed
  moreover have "fst (write_chunk fault now c (content c) s) \<in> {s, s1, index_insert c r} \<union>
      range (\<lambda>d. s1\<lparr>st_fs := hm_insert temp (d, now) (st_fs s1)\<rparr>)"
    using assms(3) by (cases fault) (simp_all add: write_chunk_def Let_def s1_def temp_def r_def)
  ultimately show ?thesis using assms(1) ok1 with_temp by (elim UnE insertE rangeE emptyE) (simp_all only:)
qed

text \<open>A chunk file removed or moved away, with the chunk dropped from the cache and the index.\<close>

lemma ok_drop:
  assumes "lru_cache Lc" and "storage_ok Lc content s" and "fs_ok content (st_fs s1)"
    and "\<And>d. has_chunk s1 d \<longleftrightarrow> d \<noteq> c \<and> has_chunk s d" and "st_index s1 = st_index s" "st_cache s1 = st_cache s"
  shows "storage_ok Lc content (forget_chunk_in_index c (invalidate_cache Lc c s1))"
proof -
  note ok = storage_okD [OF assms(2)]
  let ?s2 = "invalidate_cache Lc c s1"
  have "index_ok (forget_chunk_in_index c ?s2)"
    by (rule index_del [OF ok(2)]) (use assms(4,5) in \<open>simp_all add: invalidate_cache_def has_chunk_def\<close>)
  moreover have "cache_ok Lc content (forget_chunk_in_index c ?s2)"
    using ok(3) assms(1,6) by (simp add: cache_ok_def invalidate_cache_def forget_chunk_in_index_def lru_cache.peek_pop)
  ultimately show ?thesis using assms(3) by (simp add: storage_ok_def invalidate_cache_def forget_chunk_in_index_def)
qed

lemma ok_delete:
  assumes "lru_cache Lc" and "storage_ok Lc content s"
  shows "storage_ok Lc content (fst (delete_chunk Lc fails c reason s))"
proof -
  note ok = storage_okD [OF assms(2)]
  define n where "n = (case hm_get (st_delete_reasons s) reason of None \<Rightarrow> 0 | Some n \<Rightarrow> n)"
  define s1 where "s1 = s\<lparr>st_delete_reasons := hm_insert reason ((n + 1) mod 2 ^ 64) (st_delete_reasons s)\<rparr>"
  have wf: "hm_wf (st_fs s)" using ok(1) by (simp add: fs_ok_def)
  have ok1: "storage_ok Lc content s1" by (rule ok_cache [OF assms(2)]) (use ok(3) in \<open>simp_all add: s1_def cache_ok_def\<close>)
  have h1: "has_chunk s1 d = has_chunk s d" for d by (simp add: has_chunk_def s1_def)
  define s2 where "s2 = (if has_chunk s1 c then s1\<lparr>st_fs := hm_remove (get_chunk_path c) (st_fs s1)\<rparr> else s1)"
  have "storage_ok Lc content (forget_chunk_in_index c (invalidate_cache Lc c s2))"
  proof (rule ok_drop [OF assms(1) ok1])
    show "fs_ok content (st_fs s2)" using storage_okD(1) [OF ok1] by (simp add: s2_def fs_del)
    show "has_chunk s2 d \<longleftrightarrow> d \<noteq> c \<and> has_chunk s1 d" for d
      using wf by (auto simp: s2_def has_chunk_def s1_def hm.get_del)
  qed (simp_all add: s2_def)
  moreover have "fst (delete_chunk Lc fails c reason s) =
      (if has_chunk s1 c \<and> fails then s1 else forget_chunk_in_index c (invalidate_cache Lc c s2))"
    by (simp add: delete_chunk_def Let_def n_def s1_def s2_def)
  ultimately show ?thesis using ok1 by simp
qed

lemma ok_quarantine:
  assumes "lru_cache Lc" and "storage_ok Lc content s"
  shows "storage_ok Lc content (snd (quarantine_chunk Lc Lv now c s))"
proof (cases "hm_get (st_fs s) (get_chunk_path c)")
  case (Some f)
  note ok = storage_okD [OF assms(2)]
  have wf: "hm_wf (st_fs s)" using ok(1) by (simp add: fs_ok_def)
  let ?dest = "[''quarantine'', to_hex c @ ''.'' @ dec now]"
  define s1 where "s1 = s\<lparr>st_fs := hm_insert ?dest f (hm_remove (get_chunk_path c) (st_fs s)), st_verified := lru_pop Lv c (st_verified s)\<rparr>"
  have "storage_ok Lc content (forget_chunk_in_index c (invalidate_cache Lc c s1))"
  proof (rule ok_drop [OF assms])
    show "fs_ok content (st_fs s1)" using fs_put [OF fs_del [OF ok(1)], of ?dest f "get_chunk_path c"] by (auto simp: s1_def)
    show "has_chunk s1 d \<longleftrightarrow> d \<noteq> c \<and> has_chunk s d" for d
      using wf by (auto simp: s1_def has_chunk_def hm.get_put hm.get_del hm.wf_del)
  qed (simp_all add: s1_def)
  then show ?thesis by (simp add: quarantine_chunk_def Let_def Some s1_def)
qed (simp add: quarantine_chunk_def assms(2))

lemma ok_mtime:
  assumes "storage_ok Lc content s"
  shows "storage_ok Lc content (set_chunk_mtime c t s)"
proof -
  note ok = storage_okD [OF assms]
  let ?s = "set_chunk_mtime c t s"
  have "map fst (st_fs ?s) = map fst (st_fs s)" by (simp add: set_chunk_mtime_def)
  then have fst: "fst ` set (st_fs ?s) = fst ` set (st_fs s)" by (metis set_map)
  have get: "hm_get (st_fs ?s) p = map_option (\<lambda>(d, u). (d, if p = get_chunk_path c then t else u)) (hm_get (st_fs s) p)" for p
    by (cases "hm_get (st_fs s) p") (auto simp: set_chunk_mtime_def hm_get_modify)
  have "fs_ok content (st_fs ?s)" unfolding fs_ok_def fst
  proof (intro conjI allI impI)
    show "hm_wf (st_fs ?s)" using ok(1) by (simp add: fs_ok_def set_chunk_mtime_def)
    show "\<forall>p \<in> fst ` set (st_fs s). path_ok p" using ok(1) by (simp add: fs_ok_def)
    show "d = content e" if "hm_get (st_fs ?s) (get_chunk_path e) = Some (d, u)" for e d u
      using that ok(1) by (auto simp: get fs_ok_def)
  qed
  moreover have "index_ok ?s = index_ok s"
    by (rule index_cong) (auto simp: has_chunk_def set_chunk_mtime_def hm_get_modify)
  moreover have "cache_ok Lc content ?s = cache_ok Lc content s" by (rule cache_cong) (simp add: set_chunk_mtime_def)
  ultimately show ?thesis using ok by (simp add: storage_ok_def)
qed

lemma verify_once_same:
  "st_fs (snd (verify_on_disk_once Lv b3 c off f s)) = st_fs s" "st_index (snd (verify_on_disk_once Lv b3 c off f s)) = st_index s"
  "st_cache (snd (verify_on_disk_once Lv b3 c off f s)) = st_cache s"
  by (auto simp: verify_on_disk_once_def split: option.splits prod.splits)

lemma verify_scrub_same:
  "st_fs (snd (verify_on_disk_for_scrub Lv b3 c off f s)) = st_fs s" "st_index (snd (verify_on_disk_for_scrub Lv b3 c off f s)) = st_index s"
  "st_cache (snd (verify_on_disk_for_scrub Lv b3 c off f s)) = st_cache s"
  by (auto simp: verify_on_disk_for_scrub_def Let_def split: option.splits)

lemma populate_index:
  "bt_wf (fold (\<lambda>c. bt_insert c ()) ids ([] :: (ChunkId, unit) btree_map))"
  "map_of (fold (\<lambda>c. bt_insert c ()) ids ([] :: (ChunkId, unit) btree_map)) c = (if c \<in> set ids then Some () else None)"
proof -
  have wf: "bt_wf ([] :: (ChunkId, unit) btree_map)" by (simp add: bt_wf_def)
  show "bt_wf (fold (\<lambda>c. bt_insert c ()) ids ([] :: (ChunkId, unit) btree_map))" by (rule bt.wf_put_all [OF wf])
  show "map_of (fold (\<lambda>c. bt_insert c ()) ids ([] :: (ChunkId, unit) btree_map)) c = (if c \<in> set ids then Some () else None)"
    using bt.get_put_all [OF wf, of "()" ids c] by simp
qed

lemma ok_list:
  assumes "storage_ok Lc content s"
  shows "\<exists>ids s'. list_chunks s = Ret (ids, s') \<and> set ids = {c. wf_chunk_id c \<and> has_chunk s c} \<and>
    storage_ok Lc content s' \<and> st_index s' \<noteq> None \<and> st_fs s' = st_fs s"
proof (cases "st_index s")
  case None
  note ok = storage_okD [OF assms]
  have "\<forall>p \<in> fst ` set (st_fs s). path_ok p" using ok(1) by (simp add: fs_ok_def)
  from collect_chunks_ok [OF this] obtain ids where ids: "collect_chunks (st_fs s) = Ret ids"
    "set ids = {c. wf_chunk_id c \<and> get_chunk_path c \<in> fst ` set (st_fs s)}" by blast
  have set: "set ids = {c. wf_chunk_id c \<and> has_chunk s c}" by (simp add: ids(2) has_chunk_def hm_get_None_iff)
  let ?s = "list_chunks_populate ids s"
  have h: "has_chunk ?s c = has_chunk s c" for c by (simp add: list_chunks_populate_def has_chunk_def)
  have "index_ok ?s" unfolding index_ok_def h by (simp add: list_chunks_populate_def populate_index set)
  moreover have "cache_ok Lc content ?s" using ok(3) by (simp add: cache_ok_def list_chunks_populate_def)
  ultimately have "storage_ok Lc content ?s" using ok(1) by (simp add: storage_ok_def list_chunks_populate_def)
  with None ids(1) set show ?thesis by (simp add: list_chunks_def list_chunks_walk_def list_chunks_populate_def)
next
  case (Some ix)
  have "bt_wf ix" and c: "\<And>c. map_of ix c \<noteq> None \<longleftrightarrow> wf_chunk_id c \<and> has_chunk s c"
    using storage_okD(2) [OF assms] Some by (simp_all add: index_ok_def)
  have "c \<in> set (map fst ix) \<longleftrightarrow> wf_chunk_id c \<and> has_chunk s c" for c
    using c [of c] by (simp add: map_of_eq_None_iff)
  with Some assms show ?thesis by (auto simp: list_chunks_def)
qed

section \<open>Reachable states\<close>

inductive storage_reach ::
    "('c, ChunkId, byte list) lru \<Rightarrow> ('w, ChunkId, unit) lru \<Rightarrow> (byte list \<Rightarrow> byte list) \<Rightarrow> (ChunkId \<Rightarrow> byte list) \<Rightarrow>
     ('c, 'w) ChunkStorage \<Rightarrow> bool" for Lc Lv blake3 content where
  start: "fs_ok content fs \<Longrightarrow> storage_reach Lc Lv blake3 content (new_ChunkStorage Lc Lv env_mb budget coalesce fs)"
| writes: "storage_reach Lc Lv blake3 content s \<Longrightarrow> wf_chunk_id c \<Longrightarrow> \<not> (fault = SyncFails \<and> st_coalescer s) \<Longrightarrow>
    storage_reach Lc Lv blake3 content (fst (write_chunk fault now c (content c) s))"
| reads: "storage_reach Lc Lv blake3 content s \<Longrightarrow> storage_reach Lc Lv blake3 content (snd (read_chunk_arc Lc c s))"
| cached: "storage_reach Lc Lv blake3 content s \<Longrightarrow> storage_reach Lc Lv blake3 content (snd (read_chunk_cached_only Lc c s))"
| partial: "storage_reach Lc Lv blake3 content s \<Longrightarrow> read_chunk_range_partial Lc c off len s = Ret (r, s') \<Longrightarrow>
    storage_reach Lc Lv blake3 content s'"
| put: "storage_reach Lc Lv blake3 content s \<Longrightarrow> storage_reach Lc Lv blake3 content (cache_put Lc c (content c) s)"
| warm: "storage_reach Lc Lv blake3 content s \<Longrightarrow> storage_reach Lc Lv blake3 content (snd (warm_cache Lc c s))"
| verify: "storage_reach Lc Lv blake3 content s \<Longrightarrow>
    storage_reach Lc Lv blake3 content (snd (verify_on_disk_once Lv blake3 c off f s))"
| scrub: "storage_reach Lc Lv blake3 content s \<Longrightarrow>
    storage_reach Lc Lv blake3 content (snd (verify_on_disk_for_scrub Lv blake3 c off f s))"
| quarantine: "storage_reach Lc Lv blake3 content s \<Longrightarrow>
    storage_reach Lc Lv blake3 content (snd (quarantine_chunk Lc Lv now c s))"
| touch: "storage_reach Lc Lv blake3 content s \<Longrightarrow> storage_reach Lc Lv blake3 content (set_chunk_mtime c t s)"
| delete: "storage_reach Lc Lv blake3 content s \<Longrightarrow>
    storage_reach Lc Lv blake3 content (fst (delete_chunk Lc fails c reason s))"
| lists: "storage_reach Lc Lv blake3 content s \<Longrightarrow> list_chunks s = Ret (ids, s') \<Longrightarrow> storage_reach Lc Lv blake3 content s'"

lemma reach_ok:
  assumes "lru_cache Lc" and "storage_reach Lc Lv blake3 content s"
  shows "storage_ok Lc content s"
  using assms(2)
proof (induction rule: storage_reach.induct)
  case (start fs env_mb budget coalesce)
  then show ?case
    by (simp add: storage_ok_def new_ChunkStorage_def Let_def index_ok_def cache_ok_def lru_cache.peek_new [OF assms(1)])
next
  case (verify s c off f)
  show ?case by (rule ok_cache [OF verify.IH]) (use storage_okD(3) [OF verify.IH] in \<open>simp_all add: verify_once_same cache_ok_def\<close>)
next
  case (scrub s c off f)
  show ?case by (rule ok_cache [OF scrub.IH]) (use storage_okD(3) [OF scrub.IH] in \<open>simp_all add: verify_scrub_same cache_ok_def\<close>)
next
  case (lists s ids s')
  obtain ids' t where "list_chunks s = Ret (ids', t)" "storage_ok Lc content t" using ok_list [OF lists.IH] by blast
  with lists.hyps(2) show ?case by simp
next
  case (writes s c fault now)
  show ?case by (rule ok_write [OF writes.IH writes.hyps(2,3)])
next
  case (partial s c off len r s')
  show ?case by (rule ok_partial [OF assms(1) partial.IH partial.hyps(2)])
qed (simp_all add: ok_read(1) ok_cached_only ok_put ok_warm ok_quarantine ok_mtime ok_delete assms(1))

end
