(* ===== verification/Chunk_Storage_Claims.thy ===== *)
theory Chunk_Storage_Claims
  imports Chunk_Storage_Laws
begin

text \<open>
  What the chunk store promises, and the three places where it does not keep the promise: a write
  during the first listing, a flush that fails after the rename, and a verified chunk that is
  deleted and written again.
\<close>

section \<open>Writes, reads and the index\<close>

text \<open>C16. A chunk write is atomic under every fault of the file system: the chunk's file keeps its old
  bytes or has exactly the new ones, a reported success means the new ones, without the shared flush
  a reported failure means the old ones, and no other chunk's file changes.\<close>

theorem write_chunk_atomic:
  assumes "hm_wf (st_fs s)"
  shows "hm_get (st_fs (fst (write_chunk fault now c data s))) (get_chunk_path c) \<in>
      {hm_get (st_fs s) (get_chunk_path c), Some (data, now)} \<and>
    (snd (write_chunk fault now c data s) \<longrightarrow>
      hm_get (st_fs (fst (write_chunk fault now c data s))) (get_chunk_path c) = Some (data, now)) \<and>
    (\<not> snd (write_chunk fault now c data s) \<and> \<not> st_coalescer s \<longrightarrow>
      hm_get (st_fs (fst (write_chunk fault now c data s))) (get_chunk_path c) = hm_get (st_fs s) (get_chunk_path c)) \<and>
    (d \<noteq> c \<longrightarrow> hm_get (st_fs (fst (write_chunk fault now c data s))) (get_chunk_path d) = hm_get (st_fs s) (get_chunk_path d))"
  using assms by (cases fault) (simp_all add: write_chunk_def Let_def index_insert_def hm.get_put hm.get_del hm.wf_del)


lemma present_ok:
  assumes "storage_ok Lc content s"
  shows "\<exists>s'. chunks_present_batch cs s = Ret (map (\<lambda>c. wf_chunk_id c \<and> has_chunk s c) cs, s')"
proof (cases "st_index s")
  case (Some ix)
  then show ?thesis using storage_okD(2) [OF assms] by (simp add: chunks_present_batch_def with_index_def index_ok_def)
next
  case None
  obtain ids s' where l: "list_chunks s = Ret (ids, s')" "storage_ok Lc content s'" "st_index s' \<noteq> None" "st_fs s' = st_fs s"
    using ok_list [OF assms] by blast
  then obtain ix where ix: "st_index s' = Some ix" by blast
  have "map_of ix c \<noteq> None \<longleftrightarrow> wf_chunk_id c \<and> has_chunk s c" for c
    using storage_okD(2) [OF l(2)] ix l(4) by (simp add: index_ok_def has_chunk_def)
  then show ?thesis by (simp add: chunks_present_batch_def with_index_def None l(1) ix)
qed


section \<open>Ranges\<close>

text \<open>The two ways to read a range agree on every range that starts inside the chunk and does not
  overflow: reading only the range from disk gives the slice that reading the whole chunk gives. Past
  the end of the chunk they agree only when the chunk is cached; from disk the partial read reports
  success with no bytes where the full read reports an error.\<close>

theorem range_reads_agree:
  assumes "lru_cache Lc" and "storage_reach Lc Lv blake3 content s" and "has_chunk s c" and "offset + len < 2 ^ 64"
  shows "(offset < length (content c) \<longrightarrow>
      (\<exists>s1 s2. read_chunk_range_partial Lc c offset len s = Ret (Some (slice offset (min (offset + len) (length (content c))) (content c)), s1) \<and>
        read_chunk_range_arc Lc c offset len s = (Some (content c, offset, min (offset + len) (length (content c))), s2))) \<and>
    (length (content c) \<le> offset \<longrightarrow> fst (read_chunk_range_arc Lc c offset len s) = None \<and>
      (\<exists>s1. read_chunk_range_partial Lc c offset len s = Ret (if lru_peek Lc c (st_cache s) = None then Some [] else None, s1)))"
proof -
  note ok = reach_ok [OF assms(1,2)]
  have full: "fst (read_chunk_arc Lc c s) = Some (content c)" using ok_read(3) [OF assms(1) ok assms(3)] .
  then obtain s2 where arc: "read_chunk_arc Lc c s = (Some (content c), s2)" by (metis prod.collapse)
  obtain r cache where g: "lru_get Lc c (st_cache s) = (r, cache)" by fastforce
  have r: "r = lru_peek Lc c (st_cache s)" using lru_cache.get_peek [OF assms(1), of c "st_cache s"] g by simp
  have rc: "r = None \<or> r = Some (content c)" by (rule cache_get(2) [OF assms(1) storage_okD(3) [OF ok] g])
  obtain d t where "hm_get (st_fs s) (get_chunk_path c) = Some (d, t)" using assms(3) by (auto simp: has_chunk_def)
  then have disk: "hm_get (st_fs s) (get_chunk_path c) = Some (content c, t)"
    using storage_okD(1) [OF ok] by (simp add: fs_ok_def)
  have add: "usize_add offset len = offset + len" using assms(4) by (simp add: usize_add_def)
  have slice: "take len (drop offset (content c)) = slice offset (min (offset + len) (length (content c))) (content c)"
    by (simp add: slice_def min_def)
  have fin: "\<not> min (offset + len) (length (content c)) < offset" if "offset < length (content c)" using that by simp
  show ?thesis using rc fin by (elim disjE)
      (simp_all add: read_chunk_range_partial_def read_chunk_range_arc_def arc g disk add slice r [symmetric] Let_def)
qed

section \<open>Where the index and the check miss\<close>

text \<open>The index of present chunks can miss a chunk for good. When a chunk is written between the two
  steps of the first listing, or when the shared flush fails after the rename, the chunk's file is on
  disk and the store answers that the chunk is not present.\<close>

theorem index_misses_chunk:
  assumes "storage_ok Lc content s" and "wf_chunk_id c" and "\<not> has_chunk s c"
  shows "(st_index s = None \<longrightarrow> (\<forall>ids. list_chunks_walk s = Ret ids \<longrightarrow>
      (let s' = list_chunks_populate ids (fst (write_chunk NoFault now c data s))
       in has_chunk s' c \<and> chunks_present_batch [c] s' = Ret ([False], s')))) \<and>
    (st_index s \<noteq> None \<and> st_coalescer s \<longrightarrow>
      (let s' = fst (write_chunk SyncFails now c data s)
       in has_chunk s' c \<and> chunks_present_batch [c] s' = Ret ([False], s')))"
proof -
  note ok = storage_okD [OF assms(1)]
  have wf: "hm_wf (st_fs s)" using ok(1) by (simp add: fs_ok_def)
  have "\<forall>p \<in> fst ` set (st_fs s). path_ok p" using ok(1) by (simp add: fs_ok_def)
  from collect_chunks_ok [OF this] obtain ids0 where ids: "list_chunks_walk s = Ret ids0"
    "set ids0 = {c. wf_chunk_id c \<and> get_chunk_path c \<in> fst ` set (st_fs s)}" unfolding list_chunks_walk_def by blast
  then have "c \<notin> set ids0" using assms(3) by (simp add: has_chunk_def hm_get_None_iff)
  moreover have "map_of ix c = None" if "st_index s = Some ix" for ix
  proof -
    have "(map_of ix c \<noteq> None) = (wf_chunk_id c \<and> has_chunk s c)" using ok(2) that by (simp add: index_ok_def)
    with assms(3) show ?thesis by blast
  qed
  ultimately show ?thesis using wf ids(1)
    by (auto simp: write_chunk_def Let_def index_insert_def list_chunks_populate_def has_chunk_def hm.get_put hm.wf_del
        chunks_present_batch_def with_index_def populate_index)
qed

text \<open>Deleting a chunk does not forget that it was verified: after a successful check, a deletion and a
  write of other bytes under the same id, the check still reports that the bytes on disk are good.\<close>

theorem verified_survives_delete:
  fixes now :: nat and data :: "byte list" and reason :: string
  assumes "lru_cache Lc" and "lru_cache Lv" and "hm_wf (st_fs s)" and "lru_peek Lv c (st_verified s) = Some ()"
  defines "s' \<equiv> fst (write_chunk NoFault now c data (fst (delete_chunk Lc False c reason s)))"
  shows "fst (verify_on_disk_once Lv blake3 c off f s') = Some True \<and>
    hm_get (st_fs s') (get_chunk_path c) = Some (data, now)"
proof -
  have v: "st_verified s' = st_verified s" by (simp add: s'_def write_chunk_def delete_chunk_def Let_def index_insert_def
        forget_chunk_in_index_def invalidate_cache_def)
  have "fst (lru_get Lv c (st_verified s')) = Some ()" using lru_cache.get_peek [OF assms(2)] assms(4) v by simp
  then obtain w where "lru_get Lv c (st_verified s') = (Some (), w)" by (metis prod.collapse)
  then have "fst (verify_on_disk_once Lv blake3 c off f s') = Some True" by (simp add: verify_on_disk_once_def)
  moreover have "hm_wf (st_fs (fst (delete_chunk Lc False c reason s)))"
    using assms(3) by (simp add: delete_chunk_def Let_def forget_chunk_in_index_def invalidate_cache_def hm.wf_del)
  then have "hm_get (st_fs s') (get_chunk_path c) = Some (data, now)"
    unfolding s'_def by (simp add: write_chunk_def Let_def index_insert_def hm.get_put hm.wf_del)
  ultimately show ?thesis by (rule conjI)
qed

section \<open>Examples\<close>

definition demo_chunk :: ChunkId where
  "demo_chunk = ChunkId (replicate 32 5)"

definition demo_content :: "ChunkId \<Rightarrow> byte list" where
  "demo_content c = [1, 2, 3]"

definition demo_digest :: "byte list \<Rightarrow> byte list" where
  "demo_digest bs = replicate 32 (if length bs = 27 then 5 else 0)"

type_synonym demo_store = "(nat \<times> (ChunkId \<times> byte list) list, nat \<times> (ChunkId \<times> unit) list) ChunkStorage"

definition demo_empty_store :: demo_store where
  "demo_empty_store = new_ChunkStorage recency_lru recency_lru (Some 64) 0 True []"

definition demo_store :: demo_store where
  "demo_store = fst (write_chunk NoFault 9 demo_chunk (demo_content demo_chunk) demo_empty_store)"

lemma demo_wf: "wf_chunk_id demo_chunk"
  by (simp add: wf_chunk_id_def demo_chunk_def)

lemma demo_empty_reach: "storage_reach recency_lru recency_lru demo_digest demo_content demo_empty_store"
  unfolding demo_empty_store_def by (rule storage_reach.start) (simp add: fs_ok_def)

lemma demo_store_reach: "storage_reach recency_lru recency_lru demo_digest demo_content demo_store"
  unfolding demo_store_def by (rule storage_reach.writes [OF demo_empty_reach demo_wf]) simp

lemma demo_empty_fields: "st_fs demo_empty_store = []" "st_index demo_empty_store = None" "st_coalescer demo_empty_store"
  "st_cache demo_empty_store = (16, [])" "st_verified demo_empty_store = (262144, [])"
  by (simp_all add: demo_empty_store_def new_ChunkStorage_def calculate_cache_size_def recency_lru_def)

lemma demo_store_fields: "st_fs demo_store = [(get_chunk_path demo_chunk, [1, 2, 3], 9)]" "st_cache demo_store = (16, [])"
  "st_verified demo_store = (262144, [])"
  by (simp_all add: demo_store_def write_chunk_def Let_def index_insert_def demo_empty_fields hm_insert_def hm_remove_def demo_content_def)

lemma demo_has: "has_chunk demo_store demo_chunk"
  by (simp add: has_chunk_def demo_store_fields hm_get_def)

theorem write_chunk_atomic_witness:
  "hm_get (st_fs (fst (write_chunk NoFault 12 demo_chunk [7, 8] demo_store))) (get_chunk_path demo_chunk) = Some ([7, 8], 12)"
proof -
  have "hm_wf (st_fs demo_store)" by (simp add: demo_store_fields hm_wf_def)
  moreover have "snd (write_chunk NoFault 12 demo_chunk [7, 8] demo_store)" by (simp add: write_chunk_def Let_def)
  ultimately show ?thesis using write_chunk_atomic [of demo_store NoFault 12 demo_chunk "[7, 8]" demo_chunk] by blast
qed



theorem range_reads_agree_witness:
  "\<exists>s1. read_chunk_range_partial recency_lru demo_chunk 3 1 demo_store = Ret (Some [], s1)"
  using range_reads_agree [OF recency.lru_cache_axioms demo_store_reach demo_has, of 3 1]
  by (simp add: demo_content_def demo_store_fields recency_lru_def)

theorem index_misses_chunk_witness:
  "let s' = list_chunks_populate [] (fst (write_chunk NoFault 3 demo_chunk [1] demo_empty_store))
   in has_chunk s' demo_chunk \<and> chunks_present_batch [demo_chunk] s' = Ret ([False], s')"
proof -
  have "\<not> has_chunk demo_empty_store demo_chunk" by (simp add: has_chunk_def demo_empty_fields)
  from index_misses_chunk [OF reach_ok [OF recency.lru_cache_axioms demo_empty_reach] demo_wf this, of 3 "[1]"]
  show ?thesis by (simp add: demo_empty_fields list_chunks_walk_def)
qed

theorem verified_survives_delete_witness:
  "fst (verify_on_disk_once recency_lru demo_digest demo_chunk 0 (FileId 0)
     (fst (write_chunk NoFault 3 demo_chunk [9] (fst (delete_chunk recency_lru False demo_chunk ''heal''
       (snd (verify_on_disk_once recency_lru demo_digest demo_chunk 0 (FileId 0) demo_store))))))) = Some True \<and>
   compute_chunk_hash_at demo_digest [9] 0 (FileId 0) \<noteq> hash demo_chunk"
proof -
  define s where "s = snd (verify_on_disk_once recency_lru demo_digest demo_chunk 0 (FileId 0) demo_store)"
  have h: "compute_chunk_hash_at demo_digest [1, 2, 3] 0 (FileId 0) = hash demo_chunk"
    by (simp add: compute_chunk_hash_at_def demo_digest_def demo_chunk_def)
  have s: "s = demo_store\<lparr>st_verified := (262144, [(demo_chunk, ())])\<rparr>"
    by (simp add: s_def verify_on_disk_once_def demo_store_fields recency_lru_def recency_get_def recency_put_def hm_get_def h)
  have "hm_wf (st_fs s)" "lru_peek recency_lru demo_chunk (st_verified s) = Some ()"
    by (simp_all add: s demo_store_fields hm_wf_def recency_lru_def)
  note vs = verified_survives_delete [OF recency.lru_cache_axioms recency.lru_cache_axioms this,
      where now = 3 and data = "[9]" and reason = "''heal''" and off = 0 and f = "FileId 0"]
  have "compute_chunk_hash_at demo_digest [9] 0 (FileId 0) \<noteq> hash demo_chunk"
    by (simp add: compute_chunk_hash_at_def demo_digest_def demo_chunk_def)
  with conjunct1 [OF vs] show ?thesis unfolding s_def by (rule conjI)
qed

end
