(* ===== verification/Usable_Capacity.thy ===== *)
theory Usable_Capacity
  imports Prelude "HOL-Library.Multiset"
begin

text \<open>
  The usable capacity of a cluster: \<open>calculate_usable_capacity\<close> of
  \<^verbatim>\<open>dfs-common/src/storage_stats.rs\<close>, a greedy loop over the capacities of the nodes.

  Shown: the loop ends; what it reports can be stored, that is, there is a plan that puts every byte
  on as many different nodes as the replication factor asks and fills no node beyond its capacity;
  and the report is not always the most that can be stored.
\<close>

section \<open>Definitions\<close>

text \<open>One value of the top group: the first node with that capacity, unless enough were decremented.\<close>

fun decrement_first :: "nat \<Rightarrow> nat \<Rightarrow> nat list \<Rightarrow> nat list \<times> bool" where
  "decrement_first d v [] = ([], False)"
| "decrement_first d v (c # cs) =
     (if c = v then ((c - d) # cs, True) else (let (cs', found) = decrement_first d v cs in (c # cs', found)))"

definition decrement_value :: "nat \<Rightarrow> nat \<Rightarrow> nat \<Rightarrow> nat list \<times> nat \<Rightarrow> nat list \<times> nat" where
  "decrement_value rf d v acc =
     (case acc of (caps, cnt) \<Rightarrow>
        if cnt < rf then (let (caps', found) = decrement_first d v caps in (caps', if found then cnt + 1 else cnt))
        else (caps, cnt))"

definition top_values :: "nat list \<Rightarrow> nat list" where
  "top_values caps = rev (sort (filter (\<lambda>c. 0 < c) caps))"

definition next_capacities :: "nat \<Rightarrow> nat list \<Rightarrow> nat list" where
  "next_capacities rf caps =
     (let nz = top_values caps; d = nz ! (rf - 1)
      in fst (fold (decrement_value rf d) (take rf nz) (caps, 0)))"

lemma length_decrement_first: "length (fst (decrement_first d v caps)) = length caps"
  by (induction caps) (auto simp: Let_def split: prod.splits)

lemma decrement_first_mset:
  "v \<in># mset caps \<Longrightarrow> mset (fst (decrement_first d v caps)) = mset caps - {#v#} + {#v - d#} \<and> snd (decrement_first d v caps)"
proof (induction caps)
  case (Cons c cs)
  then show ?case by (cases "c = v") (auto simp: Let_def case_prod_unfold)
qed simp

lemma decrement_values_mset:
  assumes "mset vs \<subseteq># mset caps" and "cnt + length vs \<le> rf"
  shows "mset (fst (fold (decrement_value rf d) vs (caps, cnt))) = mset caps - mset vs + mset (map (\<lambda>v. v - d) vs)"
  using assms
proof (induction vs arbitrary: caps cnt)
  case (Cons v vs)
  let ?c = "fst (decrement_first d v caps)"
  have v: "v \<in># mset caps" and sub: "mset vs \<subseteq># mset caps - {#v#}"
    using Cons.prems(1) by (auto simp: insert_subset_eq_iff)
  note df = decrement_first_mset [OF v, of d]
  have step: "decrement_value rf d v (caps, cnt) = (?c, cnt + 1)"
    using Cons.prems(2) df by (simp add: decrement_value_def Let_def case_prod_unfold)
  have sub': "mset vs \<subseteq># mset ?c" using sub df by (metis mset_subset_eq_add_left subset_mset.order_trans)
  have "mset (fst (fold (decrement_value rf d) vs (?c, cnt + 1))) = mset ?c - mset vs + mset (map (\<lambda>v. v - d) vs)"
    using Cons.prems(2) by (intro Cons.IH [OF sub']) simp
  moreover have "mset ?c - mset vs = mset caps - {#v#} - mset vs + {#v - d#}"
    using subset_mset.add_diff_assoc2 [OF sub, of "{#v - d#}"] df by metis
  ultimately show ?case by (simp add: step)
qed simp

lemma top_values_sub: "mset (take rf (top_values caps)) \<subseteq># mset caps"
proof -
  have "mset (take rf (top_values caps)) \<subseteq># mset (top_values caps)"
    by (metis append_take_drop_id mset_append mset_subset_eq_add_left)
  also have "\<dots> \<subseteq># mset caps" by (simp add: top_values_def)
  finally show ?thesis .
qed

lemma next_capacities_mset:
  "mset (next_capacities rf caps) = mset caps - mset (take rf (top_values caps)) +
     mset (map (\<lambda>v. v - top_values caps ! (rf - 1)) (take rf (top_values caps)))"
  unfolding next_capacities_def Let_def by (rule decrement_values_mset [OF top_values_sub]) simp

lemma top_values_facts:
  assumes "0 < rf" and "rf \<le> length (top_values caps)"
  shows "0 < top_values caps ! (rf - 1)" and "v \<in> set (take rf (top_values caps)) \<Longrightarrow> top_values caps ! (rf - 1) \<le> v"
proof -
  have "top_values caps ! (rf - 1) \<in> set (top_values caps)" using assms by simp
  then show "0 < top_values caps ! (rf - 1)" by (auto simp: top_values_def)
  have sorted: "sorted_wrt (\<ge>) (top_values caps)" by (simp add: top_values_def sorted_wrt_rev)
  assume "v \<in> set (take rf (top_values caps))"
  then obtain i where i: "i < rf" "v = top_values caps ! i" using assms(2) by (auto simp: in_set_conv_nth)
  show "top_values caps ! (rf - 1) \<le> v"
  proof (cases "i = rf - 1")
    case False
    then show ?thesis using sorted_wrt_nth_less [OF sorted, of i "rf - 1"] i assms by simp
  qed (simp add: i(2))
qed

lemma sum_list_minus: "(\<And>v. v \<in> set vs \<Longrightarrow> d \<le> v) \<Longrightarrow> sum_list (map (\<lambda>v. v - d) vs) + length vs * d = sum_list vs" for d :: nat
proof (induction vs)
  case (Cons v vs)
  then have "d \<le> v" and "sum_list (map (\<lambda>v. v - d) vs) + length vs * d = sum_list vs" by auto
  then show ?case by simp
qed simp

lemma next_capacities_sum:
  assumes "0 < rf" and "rf \<le> length (top_values caps)"
  shows "sum_list (next_capacities rf caps) + rf * (top_values caps ! (rf - 1)) = sum_list caps"
proof -
  let ?top = "take rf (top_values caps)" and ?d = "top_values caps ! (rf - 1)"
  have "sum_list (next_capacities rf caps) = sum_mset (mset caps - mset ?top) + sum_list (map (\<lambda>v. v - ?d) ?top)"
    by (metis next_capacities_mset sum_mset.union sum_mset_sum_list)
  moreover have "sum_mset (mset caps) = sum_mset (mset caps - mset ?top) + sum_mset (mset ?top)"
    by (metis top_values_sub subset_mset.diff_add sum_mset.union)
  moreover have "sum_list (map (\<lambda>v. v - ?d) ?top) + rf * ?d = sum_list ?top"
    using sum_list_minus [of ?top ?d] top_values_facts(2) [OF assms] assms(2) by simp
  ultimately show ?thesis by (simp add: sum_mset_sum_list)
qed

text \<open>The loop; \<open>total\<close> wraps. A replication factor of 0 never enters it.\<close>

function usable_loop :: "nat \<Rightarrow> nat list \<Rightarrow> nat \<Rightarrow> nat" where
  "usable_loop rf caps tot =
     (if rf = 0 \<or> length (top_values caps) < rf then tot
      else usable_loop rf (next_capacities rf caps) ((tot + top_values caps ! (rf - 1)) mod 2 ^ 64))"
  by pat_completeness auto
termination
proof (relation "measure (\<lambda>(_, caps, _). sum_list caps)")
  fix rf :: nat and caps :: "nat list" and tot :: nat
  assume "\<not> (rf = 0 \<or> length (top_values caps) < rf)"
  then have "0 < rf" "rf \<le> length (top_values caps)" by auto
  with next_capacities_sum [OF this] top_values_facts(1) [OF this]
  show "((rf, next_capacities rf caps, (tot + top_values caps ! (rf - 1)) mod 2 ^ 64), (rf, caps, tot))
      \<in> measure (\<lambda>(_, caps, _). sum_list caps)" by simp (metis less_add_same_cancel1 mult_pos_pos)
qed simp

declare usable_loop.simps [simp del]

definition calculate_usable_capacity :: "nat list \<Rightarrow> nat \<Rightarrow> nat" where
  "calculate_usable_capacity node_capacities rf =
     (if node_capacities = [] \<or> rf = 0 then 0 else usable_loop rf node_capacities 0)"

section \<open>Storage plans\<close>

text \<open>A plan stores amounts on sets of nodes; it fits when every set has as many nodes as there are
  replicas and no node gets more than its capacity.\<close>

type_synonym 'n plan = "(nat \<times> 'n set) list"

definition load :: "'n plan \<Rightarrow> 'n \<Rightarrow> nat" where
  "load plan n = sum_list (map (\<lambda>(a, S). if n \<in> S then a else 0) plan)"

definition plan_total :: "'n plan \<Rightarrow> nat" where
  "plan_total plan = sum_list (map fst plan)"

definition plan_fits :: "nat \<Rightarrow> ('n \<times> nat) list \<Rightarrow> 'n plan \<Rightarrow> bool" where
  "plan_fits rf ps plan \<longleftrightarrow> (\<forall>(a, S) \<in> set plan. card S = rf \<and> S \<subseteq> fst ` set ps) \<and> (\<forall>(n, c) \<in> set ps. load plan n \<le> c)"

lemma sort_key_map: "map f (sort_key f xs) = sort (map f xs)"
  by (rule properties_for_sort [symmetric]) simp_all

lemma top_values_mset: "mset xs = mset ys \<Longrightarrow> top_values xs = top_values ys"
  unfolding top_values_def by (metis mset_filter mset_sort properties_for_sort sorted_sort)

text \<open>The nodes that one round fills.\<close>

definition chosen :: "nat \<Rightarrow> ('n \<times> nat) list \<Rightarrow> ('n \<times> nat) list" where
  "chosen rf ps = take rf (rev (sort_key snd (filter (\<lambda>p. 0 < snd p) ps)))"

lemma chosen_values: "map snd (chosen rf ps) = take rf (top_values (map snd ps))"
  by (simp add: chosen_def top_values_def take_map [symmetric] rev_map [symmetric] sort_key_map filter_map comp_def)

lemma chosen_mset:
  assumes "distinct (map fst ps)"
  shows "mset (filter (\<lambda>p. fst p \<in> fst ` set (chosen rf ps)) ps) = mset (chosen rf ps)" and "distinct (map fst (chosen rf ps))"
    and "set (chosen rf ps) \<subseteq> set ps"
proof -
  let ?qs = "rev (sort_key snd (filter (\<lambda>p. 0 < snd p) ps))"
  have "distinct (map fst (filter (\<lambda>p. 0 < snd p) ps))" using assms by (rule distinct_map_filter)
  moreover have "mset (map fst ?qs) = mset (map fst (filter (\<lambda>p. 0 < snd p) ps))" by simp
  ultimately have "distinct (map fst ?qs)" by (metis mset_eq_imp_distinct_iff)
  then show dist: "distinct (map fst (chosen rf ps))" unfolding chosen_def take_map [symmetric] by (rule distinct_take)
  show sub: "set (chosen rf ps) \<subseteq> set ps" unfolding chosen_def by (auto dest: in_set_takeD)
  have "set (filter (\<lambda>p. fst p \<in> fst ` set (chosen rf ps)) ps) = set (chosen rf ps)"
  proof (intro set_eqI iffI)
    fix p assume "p \<in> set (filter (\<lambda>p. fst p \<in> fst ` set (chosen rf ps)) ps)"
    then obtain q where q: "q \<in> set (chosen rf ps)" "fst p = fst q" and p: "p \<in> set ps" by auto
    then have "p = q" using assms sub by (metis (mono_tags) distinct_map inj_onD subsetD)
    with q show "p \<in> set (chosen rf ps)" by simp
  qed (use sub in auto)
  then show "mset (filter (\<lambda>p. fst p \<in> fst ` set (chosen rf ps)) ps) = mset (chosen rf ps)"
    using assms dist by (metis distinct_filter distinct_map set_eq_iff_mset_eq_distinct)
qed

definition fill :: "nat \<Rightarrow> 'n set \<Rightarrow> ('n \<times> nat) list \<Rightarrow> ('n \<times> nat) list" where
  "fill d S ps = map (\<lambda>(n, c). (n, if n \<in> S then c - d else c)) ps"

lemma map_fst_fill [simp]: "map fst (fill d S ps) = map fst ps"
  by (simp add: fill_def comp_def case_prod_unfold)

lemma fill_values:
  "mset (map snd (fill d S ps)) =
   mset (map snd (filter (\<lambda>p. fst p \<notin> S) ps)) + mset (map (\<lambda>v. v - d) (map snd (filter (\<lambda>p. fst p \<in> S) ps)))"
  by (induction ps) (auto simp: fill_def)

lemma mset_map_partition: "mset (map f xs) = mset (map f (filter P xs)) + mset (map f (filter (\<lambda>x. \<not> P x) xs))"
  by (induction xs) auto

lemma fill_mset:
  assumes "distinct (map fst ps)" and "mset (map snd ps) = mset caps"
  shows "mset (map snd (fill (top_values caps ! (rf - 1)) (fst ` set (chosen rf ps)) ps)) = mset (next_capacities rf caps)"
proof -
  let ?S = "fst ` set (chosen rf ps)"
  have top: "top_values (map snd ps) = top_values caps" by (rule top_values_mset [OF assms(2)])
  have "mset (map snd (filter (\<lambda>p. fst p \<in> ?S) ps)) = mset (map snd (chosen rf ps))"
    using chosen_mset(1) [OF assms(1), of rf] by (metis mset_map)
  then have inS: "mset (map snd (filter (\<lambda>p. fst p \<in> ?S) ps)) = mset (take rf (top_values caps))"
    by (simp only: chosen_values top)
  have "mset caps = mset (take rf (top_values caps)) + mset (map snd (filter (\<lambda>p. fst p \<notin> ?S) ps))"
    using mset_map_partition [of snd ps "\<lambda>p. fst p \<in> ?S"] by (simp only: inS assms(2))
  then have "mset (map snd (filter (\<lambda>p. fst p \<notin> ?S) ps)) = mset caps - mset (take rf (top_values caps))"
    by (simp only: add_diff_cancel_left')
  moreover have "mset (map (\<lambda>v. v - d) (map snd (filter (\<lambda>p. fst p \<in> ?S) ps))) = mset (map (\<lambda>v. v - d) (take rf (top_values caps)))" for d
    by (simp only: mset_map [of "\<lambda>v. v - d"] inS)
  ultimately show ?thesis unfolding fill_values next_capacities_mset by (simp only:)
qed

lemma plan_extend:
  assumes "distinct (map fst ps)" and "S = fst ` set qs" and "distinct (map fst qs)" "length qs = rf" "set qs \<subseteq> set ps"
    and "\<And>q. q \<in> set qs \<Longrightarrow> d \<le> snd q" and "plan_fits rf (fill d S ps) plan"
  shows "plan_fits rf ps ((d, S) # plan)"
proof -
  have "card (set (map fst qs)) = rf" using distinct_card [OF assms(3)] assms(4) by simp
  then have "card S = rf" by (simp add: assms(2))
  moreover have "S \<subseteq> fst ` set ps" using assms(2,5) by auto
  moreover have dom: "fst ` set (fill d S ps) = fst ` set ps" unfolding set_map [symmetric] by simp
  moreover have "load ((d, S) # plan) n \<le> c" if "(n, c) \<in> set ps" for n c
  proof -
    have "(n, if n \<in> S then c - d else c) \<in> set (fill d S ps)" 
      unfolding fill_def set_map by (rule rev_image_eqI [OF that]) simp
    then have l: "load plan n \<le> (if n \<in> S then c - d else c)" using assms(7) by (auto simp: plan_fits_def)
    have "d \<le> c" if "n \<in> S"
    proof -
      from that have "n \<in> fst ` set qs" by (simp only: assms(2))
      then obtain q where q: "q \<in> set qs" "n = fst q" by (rule imageE)
      have "inj_on fst (set ps)" using assms(1) by (simp add: distinct_map)
      then have "q = (n, c)" by (rule inj_onD) (use q assms(5) \<open>(n, c) \<in> set ps\<close> in auto)
      with assms(6) [OF q(1)] show ?thesis by simp
    qed
    moreover have "load ((d, S) # plan) n = (if n \<in> S then d else 0) + load plan n" by (simp add: load_def)
    ultimately show ?thesis using l by (cases "n \<in> S") simp_all
  qed
  moreover have "\<forall>(a, S) \<in> set plan. card S = rf \<and> S \<subseteq> fst ` set ps"
    using assms(7) unfolding plan_fits_def dom by (rule conjunct1)
  ultimately show ?thesis unfolding plan_fits_def by (simp add: split_beta)
qed

lemma loop_plan:
  assumes "distinct (map fst ps)" and "mset (map snd ps) = mset caps" and "tot + sum_list caps < 2 ^ 64"
  shows "\<exists>plan. plan_fits rf ps plan \<and> usable_loop rf caps tot = tot + plan_total plan"
  using assms
proof (induction rf caps tot arbitrary: ps rule: usable_loop.induct)
  case (1 rf caps tot)
  show ?case
  proof (cases "rf = 0 \<or> length (top_values caps) < rf")
    case True
    then show ?thesis
      by (intro exI [of _ "[]"]) (auto simp: usable_loop.simps [of rf caps] plan_fits_def load_def plan_total_def)
  next
    case False
    define d where "d = top_values caps ! (rf - 1)"
    define qs where "qs = chosen rf ps"
    define S where "S = fst ` set qs"
    have rf: "0 < rf" "rf \<le> length (top_values caps)" using False by auto
    have top: "top_values (map snd ps) = top_values caps" by (rule top_values_mset [OF "1.prems"(2)])
    have vals: "map snd qs = take rf (top_values caps)" by (simp add: qs_def chosen_values top)
    note sum = next_capacities_sum [OF rf, folded d_def]
    have "rf * d \<le> sum_list caps" using sum by linarith
    moreover have "d \<le> rf * d" using rf(1) by (cases rf) auto
    ultimately have d: "d + sum_list (next_capacities rf caps) \<le> sum_list caps" using sum by linarith
    then have fit: "(tot + d) mod 2 ^ 64 = tot + d" using "1.prems"(3) by simp
    have "tot + d + sum_list (next_capacities rf caps) < 2 ^ 64" using d "1.prems"(3) by linarith
    moreover have "distinct (map fst (fill d S ps))" using "1.prems"(1) by simp
    moreover have "mset (map snd (fill d S ps)) = mset (next_capacities rf caps)"
      unfolding d_def S_def qs_def by (rule fill_mset [OF "1.prems"(1,2)])
    ultimately have "\<exists>plan. plan_fits rf (fill d S ps) plan \<and>
        usable_loop rf (next_capacities rf caps) (tot + d) = tot + d + plan_total plan"
      using "1.IH" [OF False, where ps = "fill d S ps", folded d_def, unfolded fit] by blast
    then obtain plan where plan: "plan_fits rf (fill d S ps) plan"
      "usable_loop rf (next_capacities rf caps) (tot + d) = tot + d + plan_total plan" by blast
    have "plan_fits rf ps ((d, S) # plan)"
    proof (rule plan_extend [OF "1.prems"(1) S_def _ _ _ _ plan(1)])
      show "distinct (map fst qs)" "set qs \<subseteq> set ps" using chosen_mset(2,3) [OF "1.prems"(1)] by (simp_all add: qs_def)
      show "length qs = rf" using vals rf(2) by (metis length_map length_take min.absorb2)
      show "d \<le> snd q" if "q \<in> set qs" for q
        using top_values_facts(2) [OF rf, folded d_def] vals that by (metis image_eqI set_map)
    qed
    moreover have "usable_loop rf caps tot = tot + plan_total ((d, S) # plan)"
      using usable_loop.simps [of rf caps tot, folded d_def, unfolded fit] False plan(2) by (simp add: plan_total_def)
    ultimately show ?thesis by blast
  qed
qed

text \<open>C19. The reported usable capacity can be stored: when the capacities do not overflow together, there
  is a plan that places exactly the reported amount, each part on as many different nodes as the
  replication factor, and gives no node more than its capacity; so the report times the replication
  factor is at most the sum of the capacities.\<close>

theorem usable_capacity_achievable:
  assumes "sum_list caps < 2 ^ 64"
  shows "\<exists>plan. plan_fits rf (enumerate 0 caps) plan \<and> plan_total plan = calculate_usable_capacity caps rf"
proof (cases "caps = [] \<or> rf = 0")
  case True
  then show ?thesis
    by (intro exI [of _ "[]"]) (auto simp: plan_fits_def plan_total_def load_def calculate_usable_capacity_def)
next
  case False
  have "distinct (map fst (enumerate 0 caps))" "mset (map snd (enumerate 0 caps)) = mset caps" by simp_all
  from loop_plan [OF this, of 0 rf] assms False show ?thesis by (auto simp: calculate_usable_capacity_def)
qed

lemma three_equal_nodes:
  assumes "0 < c" and "c < 2 ^ 64"
  shows "calculate_usable_capacity [c, c, c] 2 = c"
proof -
  have top: "top_values [c, c, c] = [c, c, c]" and top': "top_values [0, 0, c] = [c]" using assms(1) by (simp_all add: top_values_def)
  have "next_capacities 2 [c, c, c] = [0, 0, c]"
    unfolding next_capacities_def top Let_def using assms(1) by (simp add: decrement_value_def numeral_2_eq_2)
  then have "usable_loop 2 [c, c, c] 0 = usable_loop 2 [0, 0, c] c"
    using assms(2) by (subst usable_loop.simps) (simp add: top)
  also have "\<dots> = c" by (subst usable_loop.simps) (simp add: top')
  finally show ?thesis by (simp add: calculate_usable_capacity_def)
qed

text \<open>The report is not the most that can be stored: three equal nodes of capacity \<open>2 * k\<close> with two
  replicas are reported as \<open>2 * k\<close>, while a plan over the three pairs of nodes stores \<open>3 * k\<close>.\<close>

theorem usable_capacity_underreports:
  assumes "0 < k" and "6 * k < 2 ^ 64"
  shows "calculate_usable_capacity [2 * k, 2 * k, 2 * k] 2 = 2 * k \<and>
    (\<exists>plan. plan_fits 2 (enumerate 0 [2 * k, 2 * k, 2 * k]) plan \<and> plan_total plan = 3 * k)"
proof
  show "calculate_usable_capacity [2 * k, 2 * k, 2 * k] 2 = 2 * k" using assms by (intro three_equal_nodes) simp_all
  show "\<exists>plan. plan_fits 2 (enumerate 0 [2 * k, 2 * k, 2 * k]) plan \<and> plan_total plan = 3 * k"
    by (intro exI [of _ "[(k, {0, 1}), (k, {1, 2}), (k, {0, 2})]"])
      (auto simp: plan_fits_def plan_total_def load_def enumerate_simps)
qed

theorem usable_capacity_achievable_witness:
  "\<exists>plan. plan_fits 3 (enumerate 0 [100, 100, 100, 10]) plan \<and> plan_total plan = calculate_usable_capacity [100, 100, 100, 10] 3"
  using usable_capacity_achievable [of "[100, 100, 100, 10]" 3] by simp

theorem usable_capacity_underreports_witness: "calculate_usable_capacity [100, 100, 100] 2 = 100"
  using usable_capacity_underreports [of 50] by simp

end
