(* ===== verification/Metadata_Merge.thy ===== *)
theory Metadata_Merge
  imports Slot_Arbiter
begin

text \<open>
  The merge of two records of one file: \<open>merge_file_metadata\<close> of \<^verbatim>\<open>dfs-server/src/metadata.rs\<close>, with
  the two hash indexes its loop keeps, and \<open>fold_metadata_batch\<close> of \<^verbatim>\<open>dfs-server/src/server.rs\<close>, which
  merges the queued writes of each file before they are stored.

  Shown: on records whose chunk ids fix their offsets (the ids are hashes over file, offset and
  bytes) the loop implements the update of a slot table, so no slot is lost and no slot is
  duplicated; the batch fold is the merge of each file's records in order; and a redelivered old
  record of the chunk that holds a slot lowers the slot's sequence number.
\<close>

section \<open>Definitions\<close>

type_synonym merge_state = "ChunkLocation list \<times> (ChunkId, nat) hash_map \<times> (nat, nat) hash_map"

definition index_ids :: "ChunkLocation list \<Rightarrow> (ChunkId, nat) hash_map" where
  "index_ids locs = fold (\<lambda>(i, l). hm_insert (cl_chunk_id l) i) (enumerate 0 locs) []"

definition index_offsets :: "ChunkLocation list \<Rightarrow> (nat, nat) hash_map" where
  "index_offsets locs =
     fold (\<lambda>(i, l) m. case cl_file_offset l of None \<Rightarrow> m | Some off \<Rightarrow> hm_insert off i m) (enumerate 0 locs) []"

definition keep_existing :: "nat \<Rightarrow> nat \<Rightarrow> ChunkLocation \<Rightarrow> ChunkLocation \<Rightarrow> bool" where
  "keep_existing incoming_seq existing_seq incoming_loc existing_loc =
     (let incoming_file_seq_wins = (incoming_seq > 0 \<and> existing_seq > 0 \<and> incoming_seq > existing_seq) in
      if incoming_file_seq_wins then
        (case (cl_client_write_seq incoming_loc, cl_client_write_seq existing_loc) of
           (Some inc, Some ext) \<Rightarrow> ext > inc
         | _ \<Rightarrow> False)
      else
        (case (cl_client_write_seq incoming_loc, cl_client_write_seq existing_loc) of
           (Some inc, Some ext) \<Rightarrow> ext > inc
         | (Some _, None) \<Rightarrow> False
         | (None, Some _) \<Rightarrow> True
         | (None, None) \<Rightarrow>
             unwrap_or 0 (cl_written_at existing_loc) > unwrap_or 0 (cl_written_at incoming_loc)))"

definition merge_loc :: "nat \<Rightarrow> nat \<Rightarrow> ChunkLocation \<Rightarrow> merge_state \<Rightarrow> merge_state" where
  "merge_loc iseq eseq l st =
     (case st of (locs, id_index, offset_index) \<Rightarrow>
        case cl_file_offset l of
          None \<Rightarrow> st
        | Some file_offset \<Rightarrow>
            (case hm_get id_index (cl_chunk_id l) of
               Some idx \<Rightarrow>
                 let old = locs ! idx;
                     new_entry = l\<lparr>cl_nodes := union_nodes (cl_nodes l) (cl_nodes old)\<rparr>;
                     offs = (case cl_file_offset old of
                               None \<Rightarrow> offset_index
                             | Some old_offset \<Rightarrow>
                                 if Some old_offset \<noteq> cl_file_offset new_entry then hm_remove old_offset offset_index
                                 else offset_index)
                 in (locs[idx := new_entry], id_index, hm_insert file_offset idx offs)
             | None \<Rightarrow>
                 (case hm_get offset_index file_offset of
                    Some idx \<Rightarrow>
                      if keep_existing iseq eseq l (locs ! idx) then st
                      else (locs[idx := l],
                            hm_insert (cl_chunk_id l) idx (hm_remove (cl_chunk_id (locs ! idx)) id_index),
                            offset_index)
                  | None \<Rightarrow>
                      (locs @ [l], hm_insert (cl_chunk_id l) (length locs) id_index,
                       hm_insert file_offset (length locs) offset_index))))"

definition merge_locations :: "nat \<Rightarrow> nat \<Rightarrow> ChunkLocation list \<Rightarrow> ChunkLocation list \<Rightarrow> ChunkLocation list" where
  "merge_locations iseq eseq incoming existing =
     sort_key offset_key
       (fst (fold (merge_loc iseq eseq) incoming (existing, index_ids existing, index_offsets existing)))"

definition merge_file_metadata :: "FileMetadata option \<Rightarrow> FileMetadata \<Rightarrow> FileMetadata \<times> bool" where
  "merge_file_metadata existing_opt incoming =
     (case existing_opt of
        None \<Rightarrow> (incoming, False)
      | Some existing \<Rightarrow>
          let is_stale = (fm_write_seq existing > 0 \<and> fm_write_seq incoming > 0 \<and>
                          fm_write_seq existing > fm_write_seq incoming);
              merged_locs = merge_locations (fm_write_seq incoming) (fm_write_seq existing)
                              (fm_chunk_locations incoming) (fm_chunk_locations existing)
          in ((if is_stale then existing else incoming)\<lparr>fm_chunk_locations := merged_locs\<rparr>, is_stale))"

subsection \<open>The batch\<close>

definition batch_step ::
    "FileMetadata \<Rightarrow> FileId list \<times> (FileId, FileMetadata) hash_map \<Rightarrow> FileId list \<times> (FileId, FileMetadata) hash_map" where
  "batch_step item st =
     (case st of (order, acc) \<Rightarrow>
        case hm_get acc (fm_id item) of
          Some existing \<Rightarrow> (order, hm_insert (fm_id item) (fst (merge_file_metadata (Some existing) item)) acc)
        | None \<Rightarrow> (order @ [fm_id item], hm_insert (fm_id item) item acc))"

fun take_in_order :: "FileId list \<Rightarrow> (FileId, FileMetadata) hash_map \<Rightarrow> FileMetadata list" where
  "take_in_order [] acc = []"
| "take_in_order (i # order) acc =
     (case hm_get acc i of
        None \<Rightarrow> take_in_order order acc
      | Some m \<Rightarrow> m # take_in_order order (hm_remove i acc))"

definition fold_metadata_batch :: "FileMetadata list \<Rightarrow> FileMetadata list" where
  "fold_metadata_batch items = (case fold batch_step items ([], []) of (order, acc) \<Rightarrow> take_in_order order acc)"

section \<open>Slots\<close>

text \<open>The slot table of a list of locations, and the effect of one incoming location on it.\<close>

definition slot_of :: "ChunkLocation list \<Rightarrow> nat \<Rightarrow> ChunkLocation option" where
  "slot_of locs off = find (\<lambda>l. cl_file_offset l = Some off) locs"

definition slot_winner :: "nat \<Rightarrow> nat \<Rightarrow> ChunkLocation \<Rightarrow> ChunkLocation option \<Rightarrow> ChunkLocation" where
  "slot_winner iseq eseq l old =
     (case old of
        None \<Rightarrow> l
      | Some e \<Rightarrow>
          if cl_chunk_id e = cl_chunk_id l then l\<lparr>cl_nodes := union_nodes (cl_nodes l) (cl_nodes e)\<rparr>
          else if keep_existing iseq eseq l e then e
          else l)"

definition merge_slot ::
    "nat \<Rightarrow> nat \<Rightarrow> ChunkLocation \<Rightarrow> (nat \<Rightarrow> ChunkLocation option) \<Rightarrow> nat \<Rightarrow> ChunkLocation option" where
  "merge_slot iseq eseq l t =
     (case cl_file_offset l of None \<Rightarrow> t | Some off \<Rightarrow> t(off \<mapsto> slot_winner iseq eseq l (t off)))"

text \<open>\<open>f\<close> is the offset a chunk id was computed at.\<close>

definition placed :: "(ChunkId \<Rightarrow> nat) \<Rightarrow> ChunkLocation list \<Rightarrow> bool" where
  "placed f locs \<longleftrightarrow> (\<forall>l \<in> set locs. cl_file_offset l = Some (f (cl_chunk_id l))) \<and> distinct (map cl_file_offset locs)"

definition addressed :: "(ChunkId \<Rightarrow> nat) \<Rightarrow> ChunkLocation list \<Rightarrow> bool" where
  "addressed f locs \<longleftrightarrow> (\<forall>l \<in> set locs. cl_file_offset l = None \<or> cl_file_offset l = Some (f (cl_chunk_id l)))"

definition merge_inv :: "(ChunkId \<Rightarrow> nat) \<Rightarrow> merge_state \<Rightarrow> bool" where
  "merge_inv f st = (case st of (locs, ids, offs) \<Rightarrow>
     placed f locs \<and> hm_wf ids \<and> hm_wf offs \<and>
     (\<forall>c i. hm_get ids c = Some i \<longleftrightarrow> i < length locs \<and> cl_chunk_id (locs ! i) = c) \<and>
     (\<forall>off i. hm_get offs off = Some i \<longleftrightarrow> i < length locs \<and> cl_file_offset (locs ! i) = Some off))"

lemma placed_nth: "placed f locs \<Longrightarrow> i < length locs \<Longrightarrow> cl_file_offset (locs ! i) = Some (f (cl_chunk_id (locs ! i)))"
  by (simp add: placed_def)

lemma placed_inj:
  "placed f locs \<Longrightarrow> i < length locs \<Longrightarrow> j < length locs \<Longrightarrow>
   cl_file_offset (locs ! i) = cl_file_offset (locs ! j) \<Longrightarrow> i = j"
  unfolding placed_def distinct_conv_nth length_map using nth_map by metis

lemma slot_of_iff:
  assumes "distinct (map cl_file_offset locs)"
  shows "slot_of locs off = Some l \<longleftrightarrow> l \<in> set locs \<and> cl_file_offset l = Some off"
  using assms unfolding slot_of_def by (induction locs) (auto simp: image_iff)

lemma slot_of_None: "slot_of locs off = None \<longleftrightarrow> Some off \<notin> cl_file_offset ` set locs"
  unfolding slot_of_def find_None_iff by (auto simp: image_iff)

lemma slot_of_cong:
  assumes "distinct (map cl_file_offset xs)" and "distinct (map cl_file_offset ys)" and "set xs = set ys"
  shows "slot_of xs = slot_of ys"
proof
  fix off
  show "slot_of xs off = slot_of ys off"
  proof (cases "slot_of xs off")
    case None
    then have "slot_of ys off = None" using assms(3) by (simp add: slot_of_None)
    with None show ?thesis by simp
  next
    case (Some l)
    then have "slot_of ys off = Some l" using assms by (simp add: slot_of_iff)
    with Some show ?thesis by simp
  qed
qed

lemma map_replace_same: "i < length xs \<Longrightarrow> g x = g (xs ! i) \<Longrightarrow> map g (xs[i := x]) = map g xs"
  by (simp add: map_update list_update_same_conv)

lemma slot_of_replace:
  assumes "placed f locs" and "i < length locs" and "cl_file_offset (locs ! i) = Some off" and "cl_file_offset l = Some off"
  shows "slot_of (locs[i := l]) = (slot_of locs)(off \<mapsto> l)"
proof
  fix off'
  have d: "distinct (map cl_file_offset (locs[i := l]))"
    using assms by (simp add: placed_def map_replace_same)
  have mem: "x \<in> set (locs[i := l]) \<longleftrightarrow> x = l \<or> (\<exists>j < length locs. j \<noteq> i \<and> locs ! j = x)" for x
    using assms(2) by (auto simp: in_set_conv_nth nth_list_update)
  show "slot_of (locs[i := l]) off' = ((slot_of locs)(off \<mapsto> l)) off'"
  proof (cases "off' = off")
    case True
    with d assms show ?thesis by (simp add: slot_of_iff mem)
  next
    case False
    have "slot_of (locs[i := l]) off' = Some x \<longleftrightarrow> slot_of locs off' = Some x" for x
      using assms False d unfolding slot_of_iff [OF d] mem
      by (subst slot_of_iff) (auto simp: placed_def in_set_conv_nth)
    then show ?thesis using False by (metis fun_upd_other option.exhaust)
  qed
qed

lemma slot_of_append:
  assumes "Some off \<notin> cl_file_offset ` set locs" and "cl_file_offset l = Some off"
  shows "slot_of (locs @ [l]) = (slot_of locs)(off \<mapsto> l)"
proof
  fix off'
  show "slot_of (locs @ [l]) off' = ((slot_of locs)(off \<mapsto> l)) off'"
    using assms unfolding slot_of_def by (induction locs) auto
qed

text \<open>The loop.\<close>

lemma placed_replace:
  assumes "placed f locs" and "i < length locs" and "cl_file_offset (locs ! i) = Some off"
    and "cl_file_offset l = Some off" and "off = f (cl_chunk_id l)"
  shows "placed f (locs[i := l])"
proof -
  have "map cl_file_offset (locs[i := l]) = map cl_file_offset locs" using assms by (simp add: map_replace_same)
  moreover have "\<forall>x \<in> set (locs[i := l]). cl_file_offset x = Some (f (cl_chunk_id x))"
    using assms set_update_subset_insert [of locs i l] by (auto simp: placed_def)
  ultimately show ?thesis using assms(1) by (simp add: placed_def)
qed

lemma placed_append:
  "placed f locs \<Longrightarrow> Some off \<notin> cl_file_offset ` set locs \<Longrightarrow> cl_file_offset l = Some off \<Longrightarrow> off = f (cl_chunk_id l)
   \<Longrightarrow> placed f (locs @ [l])"
  by (auto simp: placed_def)

lemma merge_invD:
  assumes "merge_inv f (locs, ids, offs)"
  shows "placed f locs" "distinct (map cl_file_offset locs)" "hm_wf ids" "hm_wf offs"
    "\<And>c i. hm_get ids c = Some i \<longleftrightarrow> i < length locs \<and> cl_chunk_id (locs ! i) = c"
    "\<And>off i. hm_get offs off = Some i \<longleftrightarrow> i < length locs \<and> cl_file_offset (locs ! i) = Some off"
  using assms by (auto simp: merge_inv_def placed_def)

lemma merge_invI:
  assumes "placed f locs" and "hm_wf ids" and "hm_wf offs"
    and "\<And>c i. hm_get ids c = Some i \<longleftrightarrow> i < length locs \<and> cl_chunk_id (locs ! i) = c"
    and "\<And>off i. hm_get offs off = Some i \<longleftrightarrow> i < length locs \<and> cl_file_offset (locs ! i) = Some off"
  shows "merge_inv f (locs, ids, offs)"
  using assms by (simp add: merge_inv_def)

lemma merge_inv_no_id:
  "merge_inv f (locs, ids, offs) \<Longrightarrow> hm_get ids c = None \<longleftrightarrow> (\<forall>j < length locs. cl_chunk_id (locs ! j) \<noteq> c)"
  by (auto simp: merge_inv_def simp flip: not_Some_eq)

lemma merge_inv_no_off:
  "merge_inv f (locs, ids, offs) \<Longrightarrow> hm_get offs off = None \<longleftrightarrow> (\<forall>j < length locs. cl_file_offset (locs ! j) \<noteq> Some off)"
  by (auto simp: merge_inv_def simp flip: not_Some_eq)

lemma merge_loc_same_id:
  assumes inv: "merge_inv f (locs, ids, offs)" and o: "cl_file_offset l = Some off" "off = f (cl_chunk_id l)"
    and get: "hm_get ids (cl_chunk_id l) = Some idx"
  shows "merge_inv f (merge_loc iseq eseq l (locs, ids, offs)) \<and>
         slot_of (fst (merge_loc iseq eseq l (locs, ids, offs))) = merge_slot iseq eseq l (slot_of locs)"
proof -
  note I = merge_invD [OF inv]
  from get have i: "idx < length locs" "cl_chunk_id (locs ! idx) = cl_chunk_id l" by (auto simp: I(5))
  then have oi: "cl_file_offset (locs ! idx) = Some off" using placed_nth [OF I(1) i(1)] o(2) by simp
  define n where "n = l\<lparr>cl_nodes := union_nodes (cl_nodes l) (cl_nodes (locs ! idx))\<rparr>"
  have n: "cl_file_offset n = Some off" "cl_chunk_id n = cl_chunk_id l" using o(1) by (simp_all add: n_def)
  have uniq: "\<forall>j < length locs. cl_file_offset (locs ! j) = Some off \<longrightarrow> j = idx"
    by (intro allI impI placed_inj [OF I(1) _ i(1)]) (simp_all add: oi)
  have eq: "merge_loc iseq eseq l (locs, ids, offs) = (locs[idx := n], ids, hm_insert off idx offs)"
    using get o(1) oi by (simp add: merge_loc_def n_def Let_def)
  have "slot_of locs off = Some (locs ! idx)" using slot_of_iff [OF I(2)] i oi by simp
  then have "slot_of (locs[idx := n]) = merge_slot iseq eseq l (slot_of locs)"
    using slot_of_replace [OF I(1) i(1) oi n(1)] i(2) o(1) by (simp add: merge_slot_def slot_winner_def n_def)
  moreover have "merge_inv f (locs[idx := n], ids, hm_insert off idx offs)"
  proof (rule merge_invI)
    show "placed f (locs[idx := n])" by (rule placed_replace [OF I(1) i(1) oi n(1)]) (simp add: n o)
    show "hm_wf ids" "hm_wf (hm_insert off idx offs)" using I(3,4) by (simp_all add: hm.wf_put)
    show "hm_get ids c = Some j \<longleftrightarrow> j < length (locs[idx := n]) \<and> cl_chunk_id (locs[idx := n] ! j) = c" for c j
      using i n by (auto simp: I(5) nth_list_update)
    show "hm_get (hm_insert off idx offs) off' = Some j \<longleftrightarrow>
        j < length (locs[idx := n]) \<and> cl_file_offset (locs[idx := n] ! j) = Some off'" for off' j
    proof (cases "j = idx")
      case True
      then show ?thesis using i n oi by (auto simp: I(6) hm.get_put [OF I(4)])
    next
      case False
      then have "j < length locs \<Longrightarrow> cl_file_offset (locs ! j) \<noteq> Some off" using uniq by blast
      then show ?thesis using False i by (auto simp: I(6) hm.get_put [OF I(4)])
    qed
  qed
  ultimately show ?thesis by (simp add: eq)
qed

lemma merge_loc_same_slot:
  assumes inv: "merge_inv f (locs, ids, offs)" and o: "cl_file_offset l = Some off" "off = f (cl_chunk_id l)"
    and no_id: "hm_get ids (cl_chunk_id l) = None" and get: "hm_get offs off = Some idx"
  shows "merge_inv f (merge_loc iseq eseq l (locs, ids, offs)) \<and>
         slot_of (fst (merge_loc iseq eseq l (locs, ids, offs))) = merge_slot iseq eseq l (slot_of locs)"
proof -
  note I = merge_invD [OF inv]
  from get have i: "idx < length locs" and oi: "cl_file_offset (locs ! idx) = Some off" by (auto simp: I(6))
  have ne: "\<forall>j < length locs. cl_chunk_id (locs ! j) \<noteq> cl_chunk_id l"
    using no_id by (simp add: merge_inv_no_id [OF inv])
  have uniq: "\<forall>j < length locs. cl_chunk_id (locs ! j) = cl_chunk_id (locs ! idx) \<longrightarrow> j = idx"
  proof (intro allI impI)
    fix j assume "j < length locs" "cl_chunk_id (locs ! j) = cl_chunk_id (locs ! idx)"
    with I(5) [of "cl_chunk_id (locs ! idx)" j] I(5) [of "cl_chunk_id (locs ! idx)" idx] i show "j = idx" by simp
  qed
  have slot: "slot_of locs off = Some (locs ! idx)" using slot_of_iff [OF I(2)] i oi by simp
  show ?thesis
  proof (cases "keep_existing iseq eseq l (locs ! idx)")
    case True
    then have "merge_slot iseq eseq l (slot_of locs) = slot_of locs"
      using slot ne i o(1) by (simp add: merge_slot_def slot_winner_def fun_upd_idem)
    with True inv no_id get o(1) show ?thesis by (simp add: merge_loc_def)
  next
    case False
    let ?ids = "hm_insert (cl_chunk_id l) idx (hm_remove (cl_chunk_id (locs ! idx)) ids)"
    have eq: "merge_loc iseq eseq l (locs, ids, offs) = (locs[idx := l], ?ids, offs)"
      using False no_id get o(1) by (simp add: merge_loc_def)
    have "merge_inv f (locs[idx := l], ?ids, offs)"
    proof (rule merge_invI)
      show "placed f (locs[idx := l])" by (rule placed_replace [OF I(1) i oi o])
      show "hm_wf ?ids" "hm_wf offs" using I(3,4) by (simp_all add: hm.wf_put hm.wf_del)
      show "hm_get ?ids c = Some j \<longleftrightarrow> j < length (locs[idx := l]) \<and> cl_chunk_id (locs[idx := l] ! j) = c" for c j
      proof (cases "j = idx")
        case True
        then show ?thesis using i ne
          by (auto simp: I(5) hm.get_put [OF hm.wf_del [OF I(3)]] hm.get_del [OF I(3)])
      next
        case False
        then have "j < length locs \<Longrightarrow> cl_chunk_id (locs ! j) \<noteq> cl_chunk_id (locs ! idx)" using uniq by blast
        then show ?thesis using False i ne
          by (auto simp: I(5) hm.get_put [OF hm.wf_del [OF I(3)]] hm.get_del [OF I(3)])
      qed
      show "hm_get offs off' = Some j \<longleftrightarrow>
          j < length (locs[idx := l]) \<and> cl_file_offset (locs[idx := l] ! j) = Some off'" for off' j
        using i oi o(1) by (auto simp: I(6) nth_list_update)
    qed
    moreover have "slot_of (locs[idx := l]) = merge_slot iseq eseq l (slot_of locs)"
      using slot_of_replace [OF I(1) i oi o(1)] slot ne i False o(1)
      by (simp add: merge_slot_def slot_winner_def)
    ultimately show ?thesis by (simp add: eq)
  qed
qed

lemma merge_loc_new:
  assumes inv: "merge_inv f (locs, ids, offs)" and o: "cl_file_offset l = Some off" "off = f (cl_chunk_id l)"
    and no_id: "hm_get ids (cl_chunk_id l) = None" and no_off: "hm_get offs off = None"
  shows "merge_inv f (merge_loc iseq eseq l (locs, ids, offs)) \<and>
         slot_of (fst (merge_loc iseq eseq l (locs, ids, offs))) = merge_slot iseq eseq l (slot_of locs)"
proof -
  note I = merge_invD [OF inv]
  have ne: "\<forall>j < length locs. cl_chunk_id (locs ! j) \<noteq> cl_chunk_id l \<and> cl_file_offset (locs ! j) \<noteq> Some off"
    using no_id no_off by (simp add: merge_inv_no_id [OF inv] merge_inv_no_off [OF inv])
  then have fresh: "Some off \<notin> cl_file_offset ` set locs" by (force simp: in_set_conv_nth)
  let ?st = "(locs @ [l], hm_insert (cl_chunk_id l) (length locs) ids, hm_insert off (length locs) offs)"
  have eq: "merge_loc iseq eseq l (locs, ids, offs) = ?st"
    using no_id no_off o(1) by (simp add: merge_loc_def)
  have "slot_of locs off = None" using fresh by (simp add: slot_of_None)
  then have "slot_of (locs @ [l]) = merge_slot iseq eseq l (slot_of locs)"
    using slot_of_append [OF fresh o(1)] o(1) by (simp add: merge_slot_def slot_winner_def)
  moreover have "merge_inv f ?st"
  proof (rule merge_invI)
    show "placed f (locs @ [l])" by (rule placed_append [OF I(1) fresh o])
    show "hm_wf (hm_insert (cl_chunk_id l) (length locs) ids)" "hm_wf (hm_insert off (length locs) offs)"
      using I(3,4) by (simp_all add: hm.wf_put)
    show "hm_get (hm_insert (cl_chunk_id l) (length locs) ids) c = Some j \<longleftrightarrow>
        j < length (locs @ [l]) \<and> cl_chunk_id ((locs @ [l]) ! j) = c" for c j
      using ne by (auto simp: I(5) hm.get_put [OF I(3)] nth_append less_Suc_eq)
    show "hm_get (hm_insert off (length locs) offs) off' = Some j \<longleftrightarrow>
        j < length (locs @ [l]) \<and> cl_file_offset ((locs @ [l]) ! j) = Some off'" for off' j
      using ne o(1) by (auto simp: I(6) hm.get_put [OF I(4)] nth_append less_Suc_eq)
  qed
  ultimately show ?thesis by (simp add: eq)
qed

lemma merge_loc_step:
  assumes inv: "merge_inv f st" and l: "cl_file_offset l = None \<or> cl_file_offset l = Some (f (cl_chunk_id l))"
  shows "merge_inv f (merge_loc iseq eseq l st) \<and>
         slot_of (fst (merge_loc iseq eseq l st)) = merge_slot iseq eseq l (slot_of (fst st))"
proof -
  obtain locs ids offs where st: "st = (locs, ids, offs)" by (cases st)
  show ?thesis
  proof (cases "cl_file_offset l")
    case None
    with inv show ?thesis by (simp add: st merge_loc_def merge_slot_def)
  next
    case o: (Some off)
    with l have off: "off = f (cl_chunk_id l)" by simp
    show ?thesis
      using merge_loc_same_id [OF inv [unfolded st] o off] merge_loc_same_slot [OF inv [unfolded st] o off]
        merge_loc_new [OF inv [unfolded st] o off]
      by (cases "hm_get ids (cl_chunk_id l)"; cases "hm_get offs off") (simp_all add: st)
  qed
qed

lemma merge_loop:
  "merge_inv f st \<Longrightarrow> addressed f ls \<Longrightarrow>
   merge_inv f (fold (merge_loc iseq eseq) ls st) \<and>
   slot_of (fst (fold (merge_loc iseq eseq) ls st)) = fold (merge_slot iseq eseq) ls (slot_of (fst st))"
proof (induction ls arbitrary: st)
  case (Cons l ls)
  then have "cl_file_offset l = None \<or> cl_file_offset l = Some (f (cl_chunk_id l))" and "addressed f ls"
    by (auto simp: addressed_def)
  with merge_loc_step [OF Cons.prems(1)] Cons.IH show ?case by simp
qed simp

text \<open>The indexes the loop starts from.\<close>

lemma index_ids_snoc: "index_ids (locs @ [l]) = hm_insert (cl_chunk_id l) (length locs) (index_ids locs)"
  by (simp add: index_ids_def enumerate_append_eq)

lemma index_offsets_snoc: "index_offsets (locs @ [l]) =
    (case cl_file_offset l of None \<Rightarrow> index_offsets locs | Some off \<Rightarrow> hm_insert off (length locs) (index_offsets locs))"
  by (simp add: index_offsets_def enumerate_append_eq split: option.split)

lemma hm_wf_index: "hm_wf (index_ids locs)" "hm_wf (index_offsets locs)"
proof (induction locs rule: rev_induct)
  case (snoc l locs)
  case 1
  show ?case using snoc(1) by (simp add: index_ids_snoc hm.wf_put)
  case 2
  show ?case using snoc(2) by (simp add: index_offsets_snoc hm.wf_put split: option.split)
qed (simp_all add: index_ids_def index_offsets_def)

lemma placed_snocD: "placed f (locs @ [l]) \<Longrightarrow> placed f locs \<and> cl_file_offset l = Some (f (cl_chunk_id l)) \<and>
    (\<forall>x \<in> set locs. cl_chunk_id x \<noteq> cl_chunk_id l \<and> f (cl_chunk_id x) \<noteq> f (cl_chunk_id l))"
  unfolding placed_def by (fastforce simp: image_iff)

lemma merge_inv_start: "placed f locs \<Longrightarrow> merge_inv f (locs, index_ids locs, index_offsets locs)"
proof (induction locs rule: rev_induct)
  case Nil
  show ?case by (simp add: merge_inv_def placed_def index_ids_def index_offsets_def)
next
  case (snoc l locs)
  from placed_snocD [OF snoc.prems] have p: "placed f locs" and o: "cl_file_offset l = Some (f (cl_chunk_id l))"
    and ne: "\<forall>j < length locs. cl_chunk_id (locs ! j) \<noteq> cl_chunk_id l \<and> f (cl_chunk_id (locs ! j)) \<noteq> f (cl_chunk_id l)"
    by simp_all
  note I = merge_invD [OF snoc.IH [OF p]]
  have "\<forall>j < length locs. cl_file_offset (locs ! j) = Some (f (cl_chunk_id (locs ! j)))"
    by (simp add: placed_nth [OF p])
  note at = this
  show ?case
  proof (rule merge_invI [OF snoc.prems hm_wf_index])
    show "hm_get (index_ids (locs @ [l])) c = Some j \<longleftrightarrow>
        j < length (locs @ [l]) \<and> cl_chunk_id ((locs @ [l]) ! j) = c" for c j
      using ne by (auto simp: index_ids_snoc I(5) hm.get_put [OF I(3)] nth_append less_Suc_eq)
    show "hm_get (index_offsets (locs @ [l])) off = Some j \<longleftrightarrow>
        j < length (locs @ [l]) \<and> cl_file_offset ((locs @ [l]) ! j) = Some off" for off j
      using ne at o by (auto simp: index_offsets_snoc I(6) hm.get_put [OF I(4)] nth_append less_Suc_eq)
  qed
qed

lemma distinct_map_sort_key: "distinct (map g (sort_key k xs)) = distinct (map g xs)"
  by (rule mset_eq_imp_distinct_iff) (simp add: mset_map)

lemma merge_locations_spec:
  assumes "placed f existing" and "addressed f incoming"
  shows "placed f (merge_locations iseq eseq incoming existing)"
    "locs_sorted (merge_locations iseq eseq incoming existing)"
    "slot_of (merge_locations iseq eseq incoming existing) = fold (merge_slot iseq eseq) incoming (slot_of existing)"
proof -
  let ?st = "fold (merge_loc iseq eseq) incoming (existing, index_ids existing, index_offsets existing)"
  from merge_loop [OF merge_inv_start [OF assms(1)] assms(2), of iseq eseq]
  have inv: "merge_inv f ?st" and slots: "slot_of (fst ?st) = fold (merge_slot iseq eseq) incoming (slot_of existing)"
    by simp_all
  from inv have p: "placed f (fst ?st)" by (simp add: merge_inv_def split: prod.splits)
  then show placed: "placed f (merge_locations iseq eseq incoming existing)"
    by (simp add: merge_locations_def placed_def distinct_map_sort_key)
  show "locs_sorted (merge_locations iseq eseq incoming existing)"
    by (simp add: merge_locations_def locs_sorted_def)
  from slot_of_cong [of "merge_locations iseq eseq incoming existing" "fst ?st"] p placed slots
  show "slot_of (merge_locations iseq eseq incoming existing) = fold (merge_slot iseq eseq) incoming (slot_of existing)"
    by (simp add: placed_def merge_locations_def)
qed

lemma fold_merge_slot_None:
  "fold (merge_slot iseq eseq) ls t off = None \<longleftrightarrow> t off = None \<and> Some off \<notin> cl_file_offset ` set ls"
  by (induction ls arbitrary: t) (auto simp: merge_slot_def split: option.splits if_splits)

section \<open>Properties\<close>

text \<open>
  C20. Merging a record into a stored one loses no chunk slot and duplicates none: the merged list is
  sorted by offset, holds one location per slot, has a slot exactly where one of the two records
  has one, and its slot table is the stored one updated by the incoming locations one after the
  other. The other fields are those of the stored record when its write sequence number is larger
  (both positive), else those of the incoming one.
\<close>

theorem merge_keeps_slots:
  assumes "placed f (fm_chunk_locations existing)" and "addressed f (fm_chunk_locations incoming)"
    and "merge_file_metadata (Some existing) incoming = (m, is_stale)"
  shows "placed f (fm_chunk_locations m) \<and> locs_sorted (fm_chunk_locations m) \<and>
    slot_of (fm_chunk_locations m) =
      fold (merge_slot (fm_write_seq incoming) (fm_write_seq existing)) (fm_chunk_locations incoming)
        (slot_of (fm_chunk_locations existing)) \<and>
    {off. slot_of (fm_chunk_locations m) off \<noteq> None} =
      {off. Some off \<in> cl_file_offset ` set (fm_chunk_locations existing @ fm_chunk_locations incoming)} \<and>
    is_stale = (0 < fm_write_seq incoming \<and> fm_write_seq incoming < fm_write_seq existing) \<and>
    m\<lparr>fm_chunk_locations := []\<rparr> = (if is_stale then existing else incoming)\<lparr>fm_chunk_locations := []\<rparr>"
proof -
  note spec = merge_locations_spec [OF assms(1,2), of "fm_write_seq incoming" "fm_write_seq existing"]
  from assms(3) have stale: "is_stale = (0 < fm_write_seq incoming \<and> fm_write_seq incoming < fm_write_seq existing)"
    and m: "m = (if is_stale then existing else incoming)\<lparr>fm_chunk_locations :=
      merge_locations (fm_write_seq incoming) (fm_write_seq existing) (fm_chunk_locations incoming)
        (fm_chunk_locations existing)\<rparr>"
    by (auto simp: merge_file_metadata_def Let_def)
  from m have locs: "fm_chunk_locations m = merge_locations (fm_write_seq incoming) (fm_write_seq existing)
      (fm_chunk_locations incoming) (fm_chunk_locations existing)" by simp
  have "{off. slot_of (fm_chunk_locations m) off \<noteq> None} =
      {off. Some off \<in> cl_file_offset ` set (fm_chunk_locations existing @ fm_chunk_locations incoming)}"
    unfolding locs spec(3) fold_merge_slot_None slot_of_None by auto
  with spec stale show ?thesis unfolding locs by (simp add: m)
qed

definition sample_loc :: "nat \<Rightarrow> nat \<Rightarrow> nat \<Rightarrow> ChunkLocation" where
  "sample_loc c off sq =
     \<lparr>cl_chunk_id = ChunkId [word_of_nat c], cl_nodes = [NodeId 1], cl_size = 1, cl_checksum = [],
      cl_file_offset = Some off, cl_written_at = None, cl_client_write_seq = Some sq, cl_file_id = Some (FileId 7)\<rparr>"

definition sample_file :: "nat \<Rightarrow> ChunkLocation list \<Rightarrow> FileMetadata" where
  "sample_file sq locs = (new_FileMetadata 0 (FileId 7) ''/a'' RegularFile)\<lparr>fm_write_seq := sq, fm_chunk_locations := locs\<rparr>"

theorem merge_keeps_slots_witness:
  "fst (merge_file_metadata (Some (sample_file 5 [sample_loc 1 0 4])) (sample_file 3 [sample_loc 2 CHUNK_SIZE 3]))
     \<lparr>fm_chunk_locations := []\<rparr> = sample_file 5 []"
  using merge_keeps_slots [of "\<lambda>c. if c = ChunkId [1] then 0 else CHUNK_SIZE" "sample_file 5 [sample_loc 1 0 4]"
      "sample_file 3 [sample_loc 2 CHUNK_SIZE 3]"
      "fst (merge_file_metadata (Some (sample_file 5 [sample_loc 1 0 4])) (sample_file 3 [sample_loc 2 CHUNK_SIZE 3]))"
      "snd (merge_file_metadata (Some (sample_file 5 [sample_loc 1 0 4])) (sample_file 3 [sample_loc 2 CHUNK_SIZE 3]))"]
  by (simp add: sample_file_def sample_loc_def placed_def addressed_def)

text \<open>
  A redelivered old record of the chunk that holds a slot replaces the stored fields, also the
  sequence number of the slot's last write. A file whose block was written A, B, A (sequence
  numbers 1, 2, 3) and whose first two records arrive a second time ends with the block B.
\<close>

theorem redelivery_reverts_slot:
  "let stored = sample_file 3 [sample_loc 1 0 3];
       after_A = fst (merge_file_metadata (Some stored) (sample_file 1 [sample_loc 1 0 1]));
       after_B = fst (merge_file_metadata (Some after_A) (sample_file 2 [sample_loc 2 0 2]))
   in fst (merge_file_metadata (Some stored) (sample_file 2 [sample_loc 2 0 2])) = stored \<and>
      map_option cl_client_write_seq (slot_of (fm_chunk_locations after_A) 0) = Some (Some 1) \<and>
      map_option cl_chunk_id (slot_of (fm_chunk_locations after_B) 0) = Some (ChunkId [2]) \<and>
      fm_write_seq after_B = 3"
  by (simp add: Let_def sample_file_def sample_loc_def merge_file_metadata_def merge_locations_def merge_loc_def
      index_ids_def index_offsets_def keep_existing_def slot_of_def union_nodes_def new_FileMetadata_def
      hm_get_def hm_insert_def hm_remove_def)

section \<open>The batch\<close>

definition merged_record :: "FileId \<Rightarrow> FileMetadata list \<Rightarrow> FileMetadata option" where
  "merged_record i items =
     fold (\<lambda>m acc. Some (fst (merge_file_metadata acc m))) (filter (\<lambda>m. fm_id m = i) items) None"

lemma nub_snoc: "nub (xs @ [x]) = (if x \<in> set xs then nub xs else nub xs @ [x])"
  by (induction xs) (auto simp: filter_id_conv)

lemma merged_record_snoc:
  "merged_record i (items @ [m]) =
     (if fm_id m = i then Some (fst (merge_file_metadata (merged_record i items) m)) else merged_record i items)"
  by (simp add: merged_record_def)

lemma merged_record_None: "merged_record i items = None \<longleftrightarrow> i \<notin> fm_id ` set items"
  by (induction items rule: rev_induct) (auto simp: merged_record_snoc merged_record_def [of _ "[]"])

lemma batch_loop:
  "fold batch_step items ([], []) = (order, acc) \<Longrightarrow>
     order = nub (map fm_id items) \<and> hm_wf acc \<and> (\<forall>i. hm_get acc i = merged_record i items)"
proof (induction items arbitrary: order acc rule: rev_induct)
  case Nil
  then show ?case by (simp add: merged_record_def)
next
  case (snoc m items)
  obtain o1 a1 where oa: "fold batch_step items ([], []) = (o1, a1)" by (cases "fold batch_step items ([], [])")
  from snoc.IH [OF oa] have IH: "o1 = nub (map fm_id items)" "hm_wf a1" "\<forall>i. hm_get a1 i = merged_record i items" by auto
  from oa snoc.prems have st: "batch_step m (o1, a1) = (order, acc)" by simp
  show ?case
  proof (cases "fm_id m \<in> fm_id ` set items")
    case True
    then have "merged_record (fm_id m) items \<noteq> None" by (simp add: merged_record_None)
    with True IH st show ?thesis
      by (auto simp: batch_step_def hm.get_put hm.wf_put merged_record_snoc nub_snoc)
  next
    case False
    then have "merged_record (fm_id m) items = None" by (simp add: merged_record_None)
    with False IH st show ?thesis
      by (auto simp: batch_step_def hm.get_put hm.wf_put merged_record_snoc nub_snoc merge_file_metadata_def)
  qed
qed

lemma take_in_order_map:
  "distinct order \<Longrightarrow> hm_wf acc \<Longrightarrow> (\<forall>i \<in> set order. hm_get acc i \<noteq> None) \<Longrightarrow>
     take_in_order order acc = map (\<lambda>i. the (hm_get acc i)) order"
proof (induction order acc rule: take_in_order.induct)
  case (2 i order acc)
  then obtain m where m: "hm_get acc i = Some m" by auto
  have "\<forall>j \<in> set order. hm_get (hm_remove i acc) j \<noteq> None" using "2.prems" by (auto simp: hm.get_del)
  then have "take_in_order order (hm_remove i acc) = map (\<lambda>j. the (hm_get (hm_remove i acc) j)) order"
    using "2.IH"(2) [OF m] "2.prems" by (simp add: hm.wf_del)
  also have "\<dots> = map (\<lambda>j. the (hm_get acc j)) order"
    using "2.prems" by (auto simp: hm.get_del)
  finally show ?case using m by simp
qed simp

lemma fold_metadata_batch_spec:
  "fold_metadata_batch items = map (\<lambda>i. the (merged_record i items)) (nub (map fm_id items))"
proof -
  obtain order acc where oa: "fold batch_step items ([], []) = (order, acc)" by (cases "fold batch_step items ([], [])")
  from batch_loop [OF oa] have b: "order = nub (map fm_id items)" "hm_wf acc" "\<forall>i. hm_get acc i = merged_record i items"
    by auto
  then have "\<forall>i \<in> set order. hm_get acc i \<noteq> None" by (simp add: merged_record_None)
  with b oa show ?thesis by (simp add: fold_metadata_batch_def take_in_order_map)
qed

end
