(* ===== verification/Metadata_Store.thy ===== *)
theory Metadata_Store
  imports Metadata_Merge "HOL-Library.Char_ord"
begin

text \<open>
  The metadata store of a server (\<^verbatim>\<open>dfs-server/src/metadata.rs\<close>): its tables, its transactions, and the
  operations on files, paths and tombstones. \<open>Patch_Store\<close> has the operations on chunks and patches,
  \<open>Meta_Queue\<close> the leader's queues, \<open>Group_Commit\<close> the committer thread, \<open>Compaction\<close> the online compaction.

  A table is a map from what its keys print to what its values decode to: \<open>Good\<close> a record, or \<open>Corrupt\<close>
  where bincode rejects the bytes. redb is what its documentation promises: a transaction changes all
  of its rows or none, a commit is visible at once, and what a crash leaves is the last durable
  commit (\<open>ms_disk\<close>). \<open>io\<close> says how the transaction of an operation ends; when it is not committed the
  operation returns an error (\<open>None\<close>). Transaction statistics and logs are left out.
\<close>

section \<open>Tables\<close>

datatype 'a stored = Good (decoded: 'a) | Corrupt

fun good :: "'a stored option \<Rightarrow> 'a option" where
  "good (Some (Good x)) = Some x"
| "good _ = None"

text \<open>A path entry: the id of the file, the record an old release wrote, or neither.\<close>

datatype path_entry = PathId FileId | PathRecord FileMetadata | BadEntry

fun resolve_path_entry_file_id :: "path_entry \<Rightarrow> FileId option" where
  "resolve_path_entry_file_id (PathId i) = Some i"
| "resolve_path_entry_file_id (PathRecord m) = Some (fm_id m)"
| "resolve_path_entry_file_id BadEntry = None"

record PendingFoldAnnounce =
  fa_public_token :: ChunkId
  fa_real_chunk_id :: ChunkId
  fa_file_id :: FileId
  fa_chunk_idx :: nat
  fa_location :: ChunkLocation
  fa_first_seen_ms :: nat

record DeleteQueueEntry =
  dq_file_id :: FileId
  dq_path :: string
  dq_chunk_ids :: "ChunkId list"

record MetaDb =
  db_files :: "(FileId, FileMetadata stored) btree_map"
  db_paths :: "(string, path_entry) btree_map"
  db_chunks :: "(ChunkId, ChunkLocation stored) btree_map"
  db_meta_queue :: "(NodeId \<times> nat, FileMetadata stored) btree_map"
  db_meta_idx :: "(NodeId \<times> FileId, nat) hash_map"
  db_counters :: "(string, nat) hash_map"
  db_delete_queue :: "(FileId, DeleteQueueEntry stored) btree_map"
  db_pending_healing :: "(ChunkId, nat) btree_map"
  db_refcounts :: "(ChunkId, nat) hash_map"
  db_patch_state :: "(ChunkId, PatchState stored) btree_map"
  db_fold_ts :: "(ChunkId, nat) hash_map"
  db_fold_announce :: "(ChunkId, PendingFoldAnnounce stored) btree_map"
  db_patch_slot :: "(FileId \<times> nat, ChunkId) hash_map"
  db_chunk_seq :: "(FileId \<times> nat, nat) hash_map"
  db_tombstones :: "(FileId, nat) btree_map"

definition empty_db :: MetaDb where
  "empty_db = \<lparr>db_files = [], db_paths = [], db_chunks = [], db_meta_queue = [], db_meta_idx = [], db_counters = [],
     db_delete_queue = [], db_pending_healing = [], db_refcounts = [], db_patch_state = [], db_fold_ts = [],
     db_fold_announce = [], db_patch_slot = [], db_chunk_seq = [], db_tombstones = []\<rparr>"

record MetadataStore =
  ms_db :: MetaDb
  ms_disk :: MetaDb
  ms_non_durable_commits :: nat
  ms_durable_commits :: bool
  ms_dirty_files :: "FileId set"
  ms_dirty_paths :: "string set"
  ms_tombstoned_files :: "FileId set"

definition new_MetadataStore :: "bool \<Rightarrow> MetaDb \<Rightarrow> MetadataStore" where
  "new_MetadataStore durable_commits_enabled disk =
     \<lparr>ms_db = disk, ms_disk = disk, ms_non_durable_commits = 0, ms_durable_commits = durable_commits_enabled,
      ms_dirty_files = {}, ms_dirty_paths = {}, ms_tombstoned_files = set (map fst (db_tombstones disk))\<rparr>"

section \<open>Transactions\<close>

datatype txn_io = Committed | BeginFails | CommitFails

datatype Durability = Immediate | NotDurable

definition DURABILITY_FLUSH_INTERVAL :: nat where
  "DURABILITY_FLUSH_INTERVAL = 200"

definition next_write_durability_n :: "nat \<Rightarrow> MetadataStore \<Rightarrow> MetadataStore \<times> Durability" where
  "next_write_durability_n ops s =
     (if ms_durable_commits s then (s, Immediate)
      else let start = ms_non_durable_commits s;
               fin = (start + ops) mod 2 ^ 64
           in (s\<lparr>ms_non_durable_commits := fin\<rparr>,
               if start div DURABILITY_FLUSH_INTERVAL \<noteq> fin div DURABILITY_FLUSH_INTERVAL then Immediate else NotDurable))"

text \<open>\<open>commit ops io db s\<close>: the commit of a transaction of \<open>ops\<close> writes that ends with the tables \<open>db\<close>.\<close>

definition commit_as :: "Durability \<Rightarrow> bool \<Rightarrow> MetaDb \<Rightarrow> MetadataStore \<Rightarrow> MetadataStore" where
  "commit_as d io db s = (if io then s\<lparr>ms_db := db, ms_disk := (if d = Immediate then db else ms_disk s)\<rparr> else s)"

definition commit :: "nat \<Rightarrow> txn_io \<Rightarrow> MetaDb \<Rightarrow> MetadataStore \<Rightarrow> MetadataStore" where
  "commit ops io db s =
     (if io = BeginFails then s
      else case next_write_durability_n ops s of (s1, d) \<Rightarrow> commit_as d (io = Committed) db s1)"

text \<open>A crash, and the next start on what is left.\<close>

definition crash_restart :: "MetadataStore \<Rightarrow> MetadataStore" where
  "crash_restart s = new_MetadataStore (ms_durable_commits s) (ms_disk s)"

section \<open>Files\<close>

datatype PutFileResult = Stored | Stale FileMetadata | Deleted

definition file_tombstoned :: "FileId \<Rightarrow> MetaDb \<Rightarrow> bool" where
  "file_tombstoned i db \<longleftrightarrow> map_of (db_tombstones db) i \<noteq> None"

definition put_file_in_txn :: "FileMetadata \<Rightarrow> MetaDb \<Rightarrow> MetaDb \<times> PutFileResult \<times> FileId option" where
  "put_file_in_txn m db =
     (if file_tombstoned (fm_id m) db then (db, Deleted, None)
      else
        let existing = good (map_of (db_files db) (fm_id m));
            (to_store, is_stale) = merge_file_metadata existing m;
            for_disk = to_store\<lparr>fm_chunk_locations := []\<rparr>;
            old_id = (case map_of (db_paths db) (fm_path to_store) of
                        None \<Rightarrow> None
                      | Some v \<Rightarrow> (case resolve_path_entry_file_id v of
                            None \<Rightarrow> None
                          | Some i \<Rightarrow> if i \<noteq> fm_id m then Some i else None));
            files = (case old_id of None \<Rightarrow> db_files db | Some i \<Rightarrow> bt_remove i (db_files db))
        in (db\<lparr>db_files := bt_insert (fm_id m) (Good for_disk) files,
               db_paths := bt_insert (fm_path to_store) (PathId (fm_id m)) (db_paths db)\<rparr>,
            if is_stale then Stale to_store else Stored, old_id))"

definition mark_dirty :: "FileId set \<Rightarrow> string set \<Rightarrow> MetadataStore \<Rightarrow> MetadataStore" where
  "mark_dirty fs ps s = s\<lparr>ms_dirty_files := ms_dirty_files s \<union> fs, ms_dirty_paths := ms_dirty_paths s \<union> ps\<rparr>"

definition put_file :: "txn_io \<Rightarrow> FileMetadata \<Rightarrow> MetadataStore \<Rightarrow> MetadataStore \<times> PutFileResult option" where
  "put_file io m s =
     (case put_file_in_txn m (ms_db s) of (db, r, old_id) \<Rightarrow>
        if io = Committed then (mark_dirty ({fm_id m} \<union> set_option old_id) {fm_path m} (commit 1 io db s), Some r)
        else (commit 1 io db s, None))"

text \<open>The rows a batch touches are collected on the way.\<close>

fun put_files_in_txn ::
    "FileMetadata list \<Rightarrow> MetaDb \<Rightarrow> MetaDb \<times> PutFileResult list \<times> FileId set \<times> string set" where
  "put_files_in_txn [] db = (db, [], {}, {})"
| "put_files_in_txn (m # ms) db =
     (case put_file_in_txn m db of (db1, r, old_id) \<Rightarrow>
        case put_files_in_txn ms db1 of (db2, rs, fs, ps) \<Rightarrow>
          (db2, r # rs, {fm_id m} \<union> set_option old_id \<union> fs, {fm_path m} \<union> ps))"

definition put_files_batch ::
    "txn_io \<Rightarrow> FileMetadata list \<Rightarrow> MetadataStore \<Rightarrow> MetadataStore \<times> PutFileResult list option" where
  "put_files_batch io items s =
     (if items = [] then (s, Some [])
      else case put_files_in_txn items (ms_db s) of (db, rs, fs, ps) \<Rightarrow>
        if io = Committed then (mark_dirty fs ps (commit 1 io db s), Some rs) else (commit 1 io db s, None))"

definition file_exists_by_id :: "FileId \<Rightarrow> MetadataStore \<Rightarrow> bool" where
  "file_exists_by_id i s \<longleftrightarrow> map_of (db_files (ms_db s)) i \<noteq> None"

text \<open>The outer option is the error of a corrupt row.\<close>

definition get_file :: "FileId \<Rightarrow> MetadataStore \<Rightarrow> FileMetadata option option" where
  "get_file i s =
     (case map_of (db_files (ms_db s)) i of
        None \<Rightarrow> Some None
      | Some (Good m) \<Rightarrow> Some (Some m)
      | Some Corrupt \<Rightarrow> None)"

definition get_file_by_path :: "string \<Rightarrow> MetadataStore \<Rightarrow> FileMetadata option option" where
  "get_file_by_path path s =
     (case map_of (db_paths (ms_db s)) path of
        None \<Rightarrow> Some None
      | Some v \<Rightarrow> (case resolve_path_entry_file_id v of None \<Rightarrow> None | Some i \<Rightarrow> get_file i s))"

section \<open>Deletion\<close>

definition delete_patch_rows :: "FileId \<Rightarrow> MetaDb \<Rightarrow> MetaDb" where
  "delete_patch_rows i db =
     (let slots = filter (\<lambda>p. fst (fst p) = i) (db_patch_slot db)
      in db\<lparr>db_patch_slot := fold hm_remove (map fst slots) (db_patch_slot db),
            db_patch_state := fold bt_remove (map snd slots) (db_patch_state db),
            db_fold_ts := fold hm_remove (map snd slots) (db_fold_ts db)\<rparr>)"

definition tombstone_in_txn :: "nat \<Rightarrow> FileId \<Rightarrow> MetaDb \<Rightarrow> MetaDb" where
  "tombstone_in_txn now i db =
     (let db1 = delete_patch_rows i (db\<lparr>db_tombstones := bt_insert i now (db_tombstones db)\<rparr>)
      in db1\<lparr>db_chunk_seq := filter (\<lambda>p. fst (fst p) \<noteq> i) (db_chunk_seq db1),
             db_fold_announce :=
               filter (\<lambda>p. case snd p of Good a \<Rightarrow> fa_file_id a \<noteq> i | Corrupt \<Rightarrow> True) (db_fold_announce db1)\<rparr>)"

definition delete_file_in_txn :: "nat \<Rightarrow> FileId \<Rightarrow> bool \<Rightarrow> string option \<Rightarrow> ChunkId list \<Rightarrow> MetaDb \<Rightarrow> MetaDb" where
  "delete_file_in_txn now i for_good path chunk_ids db =
     (let paths1 = (case good (map_of (db_files db) i) of
                      None \<Rightarrow> db_paths db | Some m \<Rightarrow> bt_remove (fm_path m) (db_paths db));
          paths2 = (case path of None \<Rightarrow> paths1 | Some p \<Rightarrow> bt_remove p paths1);
          db1 = db\<lparr>db_files := bt_remove i (db_files db), db_paths := paths2,
                   db_chunks := fold bt_remove chunk_ids (db_chunks db)\<rparr>
      in if for_good then tombstone_in_txn now i db1 else db1)"

definition delete_file_inner ::
    "txn_io \<Rightarrow> nat \<Rightarrow> FileId \<Rightarrow> bool \<Rightarrow> string option \<Rightarrow> ChunkId list \<Rightarrow> MetadataStore \<Rightarrow> MetadataStore \<times> unit option" where
  "delete_file_inner io now i for_good path chunk_ids s =
     (let removed_path = map_option fm_path (good (map_of (db_files (ms_db s)) i));
          s1 = commit 1 io (delete_file_in_txn now i for_good path chunk_ids (ms_db s)) s;
          s2 = (if for_good then s1\<lparr>ms_tombstoned_files := insert i (ms_tombstoned_files s1)\<rparr> else s1)
      in if io = Committed then (mark_dirty {i} (set_option removed_path \<union> set_option path) s2, Some ()) else (s1, None))"

definition delete_file :: "txn_io \<Rightarrow> FileId \<Rightarrow> MetadataStore \<Rightarrow> MetadataStore \<times> unit option" where
  "delete_file io i s = delete_file_inner io 0 i False None [] s"

definition delete_file_for_good :: "txn_io \<Rightarrow> nat \<Rightarrow> FileId \<Rightarrow> MetadataStore \<Rightarrow> MetadataStore \<times> unit option" where
  "delete_file_for_good io now i s = delete_file_inner io now i True None [] s"

definition delete_file_for_good_with ::
    "txn_io \<Rightarrow> nat \<Rightarrow> FileId \<Rightarrow> string \<Rightarrow> ChunkId list \<Rightarrow> MetadataStore \<Rightarrow> MetadataStore \<times> unit option" where
  "delete_file_for_good_with io now i path chunk_ids s = delete_file_inner io now i True (Some path) chunk_ids s"

definition delete_path_index :: "txn_io \<Rightarrow> string \<Rightarrow> MetadataStore \<Rightarrow> MetadataStore \<times> unit option" where
  "delete_path_index io path s =
     (let db = ms_db s; s1 = commit 1 io (db\<lparr>db_paths := bt_remove path (db_paths db)\<rparr>) s
      in if io = Committed then (mark_dirty {} {path} s1, Some ()) else (s1, None))"

definition is_file_tombstoned :: "FileId \<Rightarrow> MetadataStore \<Rightarrow> bool" where
  "is_file_tombstoned i s \<longleftrightarrow> i \<in> ms_tombstoned_files s"

definition prune_file_tombstones :: "txn_io \<Rightarrow> nat \<Rightarrow> nat \<Rightarrow> MetadataStore \<Rightarrow> MetadataStore \<times> nat option" where
  "prune_file_tombstones io now max_age s =
     (let cutoff = now - max_age;
          db = ms_db s;
          old = map fst (filter (\<lambda>p. snd p < cutoff) (db_tombstones db));
          s1 = commit 1 io (db\<lparr>db_tombstones := fold bt_remove old (db_tombstones db)\<rparr>) s
      in if io = Committed then (s1\<lparr>ms_tombstoned_files := ms_tombstoned_files s1 - set old\<rparr>, Some (length old)) else (s1, None))"

section \<open>Directories and scans\<close>

text \<open>The callers pass prefixes that end in an ASCII character, so the result is UTF-8 again.\<close>

definition prefix_next :: "string \<Rightarrow> string" where
  "prefix_next prefix = (if prefix = [] then [] else butlast prefix @ [char_of ((of_char (last prefix) + 1) mod 256 :: nat)])"

definition path_range :: "string \<Rightarrow> string \<Rightarrow> MetaDb \<Rightarrow> (string \<times> path_entry) list" where
  "path_range lo hi db = filter (\<lambda>p. lo \<le> fst p \<and> fst p < hi) (db_paths db)"

definition dir_prefix :: "string \<Rightarrow> string" where
  "dir_prefix dir_path = (if dir_path \<noteq> [] \<and> last dir_path = CHR ''/'' then dir_path else dir_path @ ''/'')"

definition path_record :: "MetaDb \<Rightarrow> path_entry \<Rightarrow> FileMetadata option" where
  "path_record db v =
     (case resolve_path_entry_file_id v of None \<Rightarrow> None | Some i \<Rightarrow> good (map_of (db_files db) i))"

definition list_subtree :: "string \<Rightarrow> MetadataStore \<Rightarrow> FileMetadata list" where
  "list_subtree dir_path s =
     (let d = dir_prefix dir_path
      in List.map_filter (\<lambda>(k, v). path_record (ms_db s) v) (path_range d (prefix_next d) (ms_db s)))"

definition direct_child :: "string \<Rightarrow> bool" where
  "direct_child relative \<longleftrightarrow>
     relative \<noteq> [] \<and> (CHR ''/'' \<notin> set relative \<or> last relative = CHR ''/'')"

definition list_directory :: "string \<Rightarrow> MetadataStore \<Rightarrow> FileMetadata list" where
  "list_directory dir_path s =
     (let d = dir_prefix dir_path
      in List.map_filter
           (\<lambda>(k, v). if direct_child (drop (length d) k) then path_record (ms_db s) v else None)
           (path_range d (prefix_next d) (ms_db s)))"

text \<open>\<open>scan_files\<close> with a callback that may stop it with an error; \<open>acc\<close> is what the callback changes.\<close>

fun scan_rows :: "(FileMetadata \<Rightarrow> 'a \<Rightarrow> 'a option) \<Rightarrow> (FileId \<times> FileMetadata stored) list \<Rightarrow> 'a \<Rightarrow> 'a option" where
  "scan_rows f [] acc = Some acc"
| "scan_rows f ((k, Corrupt) # rows) acc = scan_rows f rows acc"
| "scan_rows f ((k, Good m) # rows) acc = (case f m acc of None \<Rightarrow> None | Some acc' \<Rightarrow> scan_rows f rows acc')"

definition scan_files :: "(FileMetadata \<Rightarrow> 'a \<Rightarrow> 'a option) \<Rightarrow> MetadataStore \<Rightarrow> 'a \<Rightarrow> 'a option" where
  "scan_files f s acc = scan_rows f (db_files (ms_db s)) acc"

definition list_files :: "MetadataStore \<Rightarrow> FileMetadata list option" where
  "list_files s = scan_files (\<lambda>m files. Some (files @ [m])) s []"

definition get_file_inventory :: "MetadataStore \<Rightarrow> (FileId \<times> nat) list" where
  "get_file_inventory s =
     List.map_filter (\<lambda>(k, v). map_option (\<lambda>m. (fm_id m, fm_write_seq m)) (good (Some v))) (db_files (ms_db s))"

definition get_files_batch :: "FileId list \<Rightarrow> MetadataStore \<Rightarrow> FileMetadata list" where
  "get_files_batch ids s = List.map_filter (\<lambda>i. good (map_of (db_files (ms_db s)) i)) ids"

text \<open>
  The scan in batches: one batch reads the rows after \<open>resume_after\<close> until it has \<open>SCAN_BATCH\<close> records
  and returns them with the last key it read; the callback then runs without the lock.
\<close>

definition SCAN_BATCH :: nat where
  "SCAN_BATCH = 256"

fun scan_batch ::
    "nat \<Rightarrow> FileId option \<Rightarrow> (FileId \<times> FileMetadata stored) list \<Rightarrow> FileMetadata list \<Rightarrow> FileId option \<Rightarrow>
     FileMetadata list \<times> FileId option" where
  "scan_batch n resume_after [] batch last_key = (batch, last_key)"
| "scan_batch n resume_after ((k, v) # rows) batch last_key =
     (if resume_after = Some k then scan_batch n resume_after rows batch last_key
      else
        let batch' = (case v of Good m \<Rightarrow> batch @ [m] | Corrupt \<Rightarrow> batch)
        in if length batch' \<ge> n then (batch', Some k) else scan_batch n resume_after rows batch' (Some k))"

definition rows_from :: "FileId option \<Rightarrow> (FileId \<times> FileMetadata stored) list \<Rightarrow> (FileId \<times> FileMetadata stored) list" where
  "rows_from resume_after rows = (case resume_after of None \<Rightarrow> rows | Some k \<Rightarrow> filter (\<lambda>p. k \<le> fst p) rows)"

fun call_batch :: "(FileMetadata \<Rightarrow> 'a \<Rightarrow> 'a option) \<Rightarrow> FileMetadata list \<Rightarrow> 'a \<Rightarrow> 'a option" where
  "call_batch f [] acc = Some acc"
| "call_batch f (m # ms) acc = (case f m acc of None \<Rightarrow> None | Some acc' \<Rightarrow> call_batch f ms acc')"

lemma scan_batch_last:
  "scan_batch n resume rows batch last_key = (b, Some k) \<Longrightarrow>
   last_key = Some k \<or> (resume \<noteq> Some k \<and> k \<in> fst ` set rows)"
  by (induction n resume rows batch last_key rule: scan_batch.induct) (auto simp: Let_def split: if_splits)

text \<open>\<open>tables n\<close> is the table the \<open>n\<close>-th batch reads: writers may change it between two batches.\<close>

function scan_all_loop ::
    "(FileMetadata \<Rightarrow> 'a \<Rightarrow> 'a option) \<Rightarrow> (nat \<Rightarrow> (FileId \<times> FileMetadata stored) list) \<Rightarrow> nat \<Rightarrow> FileId option \<Rightarrow>
     nat \<Rightarrow> 'a \<Rightarrow> ('a \<times> nat) option" where
  "scan_all_loop f tables n resume_after cnt acc =
     (case scan_batch SCAN_BATCH resume_after (rows_from resume_after (tables n)) [] None of
        (batch, None) \<Rightarrow> Some (acc, cnt)
      | (batch, Some last_key) \<Rightarrow>
          (case call_batch f batch acc of
             None \<Rightarrow> None
           | Some acc' \<Rightarrow> scan_all_loop f tables (Suc n) (Some last_key) (cnt + length batch) acc'))"
  by pat_completeness auto
termination
proof (relation "measure (\<lambda>(f, tables, n, resume, cnt, acc).
    case resume of None \<Rightarrow> 2 ^ 128 + 1 | Some k \<Rightarrow> 2 ^ 128 - unat (file_uuid k))", goal_cases)
  case 1
  show ?case by simp
next
  case (2 f tables n resume cnt acc batch x last_key acc1)
  from scan_batch_last [of SCAN_BATCH resume "rows_from resume (tables n)" "[]" None batch last_key] 2
  have k: "resume \<noteq> Some last_key" "last_key \<in> fst ` set (rows_from resume (tables n))" by auto
  have "unat (file_uuid last_key) < 2 ^ 128" using unsigned_less [of "file_uuid last_key", where 'a = nat] by simp
  moreover from k have "unat (file_uuid r) < unat (file_uuid last_key)" if "resume = Some r" for r
    using that by (auto simp: rows_from_def less_eq_FileId_def word_less_nat_alt [symmetric] order_le_less
        dest: FileId.expand)
  ultimately show ?case by (cases resume) simp_all
qed

declare scan_all_loop.simps [simp del]

definition scan_all_files ::
    "(FileMetadata \<Rightarrow> 'a \<Rightarrow> 'a option) \<Rightarrow> (nat \<Rightarrow> (FileId \<times> FileMetadata stored) list) \<Rightarrow> 'a \<Rightarrow> ('a \<times> nat) option" where
  "scan_all_files f tables acc = scan_all_loop f tables 0 None 0 acc"

section \<open>Repair\<close>

text \<open>Two transactions each; \<open>io1\<close> and \<open>io2\<close> are their ends.\<close>

definition unlisted_rows :: "FileId set \<Rightarrow> MetaDb \<Rightarrow> (FileId \<times> string) list" where
  "unlisted_rows live_ids db =
     List.map_filter (\<lambda>(k, v). case v of
         Good m \<Rightarrow> if fm_id m \<notin> live_ids then Some (k, fm_path m) else None
       | Corrupt \<Rightarrow> None) (db_files db)"

definition unlisted_paths :: "FileId set \<Rightarrow> MetaDb \<Rightarrow> string list" where
  "unlisted_paths live_ids db =
     map fst (filter (\<lambda>p. case resolve_path_entry_file_id (snd p) of Some i \<Rightarrow> i \<notin> live_ids | None \<Rightarrow> False) (db_paths db))"

definition remove_rows :: "(FileId \<times> string) list \<Rightarrow> MetaDb \<Rightarrow> MetaDb" where
  "remove_rows rows db = db\<lparr>db_files := fold bt_remove (map fst rows) (db_files db),
                           db_paths := fold bt_remove (map snd rows) (db_paths db)\<rparr>"

definition remove_paths :: "string list \<Rightarrow> MetaDb \<Rightarrow> MetaDb" where
  "remove_paths ps db = db\<lparr>db_paths := fold bt_remove ps (db_paths db)\<rparr>"

definition remove_unlisted_files ::
    "txn_io \<Rightarrow> txn_io \<Rightarrow> FileId set \<Rightarrow> MetadataStore \<Rightarrow> MetadataStore \<times> nat option" where
  "remove_unlisted_files io1 io2 live_ids s =
     (let stale = unlisted_rows live_ids (ms_db s);
          s1 = (if stale = [] then s
                else let c = commit 1 io1 (remove_rows stale (ms_db s)) s
                     in if io1 = Committed then mark_dirty (set (map fst stale)) (set (map snd stale)) c else c)
      in if stale \<noteq> [] \<and> io1 \<noteq> Committed then (s1, None)
         else
           let stale_paths = unlisted_paths live_ids (ms_db s1);
               s2 = (if stale_paths = [] then s1
                     else let c = commit 1 io2 (remove_paths stale_paths (ms_db s1)) s1
                          in if io2 = Committed then mark_dirty {} (set stale_paths) c else c)
           in if stale_paths \<noteq> [] \<and> io2 \<noteq> Committed then (s2, None)
              else (s2, Some (length stale + length stale_paths)))"

definition missing_paths :: "MetaDb \<Rightarrow> (string \<times> FileId) list" where
  "missing_paths db =
     List.map_filter (\<lambda>(k, v). case v of
         Good m \<Rightarrow> if map_of (db_paths db) (fm_path m) = None then Some (fm_path m, k) else None
       | Corrupt \<Rightarrow> None) (db_files db)"

definition dangling_paths :: "MetaDb \<Rightarrow> string list" where
  "dangling_paths db =
     map fst (filter (\<lambda>p. case resolve_path_entry_file_id (snd p) of
         Some i \<Rightarrow> map_of (db_files db) i = None | None \<Rightarrow> False) (db_paths db))"

definition repair_path_index :: "txn_io \<Rightarrow> txn_io \<Rightarrow> MetadataStore \<Rightarrow> MetadataStore \<times> unit option" where
  "repair_path_index io1 io2 s =
     (let to_repair = missing_paths (ms_db s); db = ms_db s;
          s1 = (if to_repair = [] then s
                else commit 1 io1 (db\<lparr>db_paths := fold (\<lambda>(p, i). bt_insert p (PathId i)) to_repair (db_paths db)\<rparr>) s)
      in if to_repair \<noteq> [] \<and> io1 \<noteq> Committed then (s1, None)
         else
           let stale_paths = dangling_paths (ms_db s1);
               s2 = (if stale_paths = [] then s1 else commit 1 io2 (remove_paths stale_paths (ms_db s1)) s1)
           in if stale_paths \<noteq> [] \<and> io2 \<noteq> Committed then (s2, None) else (s2, Some ()))"

end
