(* ===== verification/Patch_Store.thy ===== *)
theory Patch_Store
  imports Metadata_Store
begin

text \<open>
  The metadata store of \<^verbatim>\<open>dfs-server/src/metadata.rs\<close>, second part: chunk locations, reference counts,
  slot sequence numbers, deferred patches with their fold announcements, and the healing timers.

  A slot is a file and the index of one of its chunks. \<open>db_patch_slot\<close> names the patch token that is
  outstanding for a slot, \<open>db_patch_state\<close> says what a token stands for. A read that meets a corrupt
  row returns an error (\<open>None\<close>).
\<close>

section \<open>Chunk locations\<close>

definition update_chunks :: "ChunkLocation list \<Rightarrow> ChunkId list \<Rightarrow> ChunkId list \<Rightarrow> MetaDb \<Rightarrow> MetaDb" where
  "update_chunks puts deletes pending_healing_deletes db =
     db\<lparr>db_chunks := fold bt_remove deletes (fold (\<lambda>l. bt_insert (cl_chunk_id l) (Good l)) puts (db_chunks db)),
        db_pending_healing := fold bt_remove pending_healing_deletes (db_pending_healing db)\<rparr>"

definition run_txn :: "txn_io \<Rightarrow> (MetaDb \<Rightarrow> MetaDb) \<Rightarrow> MetadataStore \<Rightarrow> MetadataStore \<times> unit option" where
  "run_txn io f s = (commit 1 io (f (ms_db s)) s, if io = Committed then Some () else None)"

definition put_chunk_location :: "txn_io \<Rightarrow> ChunkLocation \<Rightarrow> MetadataStore \<Rightarrow> MetadataStore \<times> unit option" where
  "put_chunk_location io l s = run_txn io (update_chunks [l] [] []) s"

definition put_chunk_locations_batch ::
    "txn_io \<Rightarrow> ChunkLocation list \<Rightarrow> MetadataStore \<Rightarrow> MetadataStore \<times> unit option" where
  "put_chunk_locations_batch io ls s = (if ls = [] then (s, Some ()) else run_txn io (update_chunks ls [] []) s)"

definition delete_chunk_location :: "txn_io \<Rightarrow> ChunkId \<Rightarrow> MetadataStore \<Rightarrow> MetadataStore \<times> unit option" where
  "delete_chunk_location io c s = run_txn io (update_chunks [] [c] []) s"

definition batch_update_chunk_locations ::
    "txn_io \<Rightarrow> ChunkLocation list \<Rightarrow> ChunkId list \<Rightarrow> ChunkId list \<Rightarrow> MetadataStore \<Rightarrow> MetadataStore \<times> unit option" where
  "batch_update_chunk_locations io puts deletes healed s =
     (if puts = [] \<and> deletes = [] \<and> healed = [] then (s, Some ())
      else run_txn io (update_chunks puts deletes healed) s)"

definition read_row :: "'a stored option \<Rightarrow> 'a option option" where
  "read_row v = (case v of None \<Rightarrow> Some None | Some (Good x) \<Rightarrow> Some (Some x) | Some Corrupt \<Rightarrow> None)"

definition get_chunk_location :: "ChunkId \<Rightarrow> MetadataStore \<Rightarrow> ChunkLocation option option" where
  "get_chunk_location c s = read_row (map_of (db_chunks (ms_db s)) c)"

fun locations_of :: "ChunkId list \<Rightarrow> MetaDb \<Rightarrow> (ChunkId, ChunkLocation) hash_map \<Rightarrow> (ChunkId, ChunkLocation) hash_map option" where
  "locations_of [] db out = Some out"
| "locations_of (c # cs) db out =
     (case read_row (map_of (db_chunks db) c) of
        None \<Rightarrow> None
      | Some None \<Rightarrow> locations_of cs db out
      | Some (Some l) \<Rightarrow> locations_of cs db (hm_insert c l out))"

definition get_chunk_locations_batch ::
    "ChunkId list \<Rightarrow> MetadataStore \<Rightarrow> (ChunkId, ChunkLocation) hash_map option" where
  "get_chunk_locations_batch cs s = locations_of cs (ms_db s) []"

definition list_all_chunk_locations :: "MetadataStore \<Rightarrow> ChunkLocation list" where
  "list_all_chunk_locations s = List.map_filter (\<lambda>p. good (Some (snd p))) (db_chunks (ms_db s))"

definition list_all_chunk_ids :: "MetadataStore \<Rightarrow> ChunkId list" where
  "list_all_chunk_ids s = map cl_chunk_id (list_all_chunk_locations s)"

text \<open>The callback of \<open>scan_chunk_locations\<close> returns whether the scan goes on.\<close>

fun scan_locations :: "(ChunkLocation \<Rightarrow> 'a \<Rightarrow> 'a \<times> bool) \<Rightarrow> ChunkLocation list \<Rightarrow> 'a \<Rightarrow> 'a" where
  "scan_locations f [] acc = acc"
| "scan_locations f (l # ls) acc = (case f l acc of (acc', go_on) \<Rightarrow> if go_on then scan_locations f ls acc' else acc')"

definition scan_chunk_locations :: "(ChunkLocation \<Rightarrow> 'a \<Rightarrow> 'a \<times> bool) \<Rightarrow> MetadataStore \<Rightarrow> 'a \<Rightarrow> 'a" where
  "scan_chunk_locations f s acc = scan_locations f (list_all_chunk_locations s) acc"

definition live_file_ids :: "MetaDb \<Rightarrow> FileId set" where
  "live_file_ids db = set (List.map_filter (\<lambda>p. map_option fm_id (good (Some (snd p)))) (db_files db))"

definition live_locations :: "MetadataStore \<Rightarrow> ChunkLocation list" where
  "live_locations s =
     filter (\<lambda>l. case cl_file_id l of None \<Rightarrow> False | Some i \<Rightarrow> i \<in> live_file_ids (ms_db s)) (list_all_chunk_locations s)"

definition live_chunk_ids :: "MetadataStore \<Rightarrow> ChunkId set" where
  "live_chunk_ids s = set (map cl_chunk_id (live_locations s))"

definition scan_live_chunk_locations :: "(ChunkLocation \<Rightarrow> 'a \<Rightarrow> 'a) \<Rightarrow> MetadataStore \<Rightarrow> 'a \<Rightarrow> 'a \<times> ChunkId set" where
  "scan_live_chunk_locations f s acc = (fold f (live_locations s) acc, live_chunk_ids s)"

definition missing_locations :: "MetaDb \<Rightarrow> ChunkLocation list" where
  "missing_locations db =
     concat (map (\<lambda>p. case snd p of
         Good m \<Rightarrow> filter (\<lambda>l. map_of (db_chunks db) (cl_chunk_id l) = None) (fm_chunk_locations m)
       | Corrupt \<Rightarrow> []) (db_files db))"

definition rebuild_chunk_locations_from_files :: "txn_io \<Rightarrow> MetadataStore \<Rightarrow> MetadataStore \<times> (nat \<times> nat) option" where
  "rebuild_chunk_locations_from_files io s =
     (let to_write = missing_locations (ms_db s);
          s1 = (if to_write = [] then s else commit 1 io (update_chunks to_write [] [] (ms_db s)) s)
      in if to_write \<noteq> [] \<and> io \<noteq> Committed then (s1, None)
         else (s1, Some (length to_write, length (db_chunks (ms_db s1)) - length to_write)))"

section \<open>Reference counts\<close>

definition incr_chunk_refcount :: "txn_io \<Rightarrow> ChunkId \<Rightarrow> MetadataStore \<Rightarrow> MetadataStore \<times> nat option" where
  "incr_chunk_refcount io c s =
     (let db = ms_db s; new_count = (unwrap_or 0 (hm_get (db_refcounts db) c) + 1) mod 2 ^ 64
      in (commit 1 io (db\<lparr>db_refcounts := hm_insert c new_count (db_refcounts db)\<rparr>) s,
          if io = Committed then Some new_count else None))"

definition decr_chunk_refcount :: "txn_io \<Rightarrow> ChunkId \<Rightarrow> MetadataStore \<Rightarrow> MetadataStore \<times> nat option option" where
  "decr_chunk_refcount io c s =
     (let db = ms_db s;
          (counts, result) =
            (case hm_get (db_refcounts db) c of
               None \<Rightarrow> (db_refcounts db, None)
             | Some cur \<Rightarrow>
                 let new_count = cur - 1
                 in (if new_count = 0 then hm_remove c (db_refcounts db) else hm_insert c new_count (db_refcounts db),
                     Some new_count))
      in (commit 1 io (db\<lparr>db_refcounts := counts\<rparr>) s, if io = Committed then Some result else None))"

section \<open>Slot sequence numbers\<close>

definition get_chunk_seq :: "FileId \<Rightarrow> nat \<Rightarrow> MetadataStore \<Rightarrow> nat option" where
  "get_chunk_seq i idx s = hm_get (db_chunk_seq (ms_db s)) (i, idx)"

definition put_chunk_seq_in_txn :: "FileId \<Rightarrow> nat \<Rightarrow> nat \<Rightarrow> MetaDb \<Rightarrow> MetaDb \<times> nat" where
  "put_chunk_seq_in_txn i idx sq db =
     (let cur = unwrap_or 0 (hm_get (db_chunk_seq db) (i, idx))
      in (if sq > cur \<and> \<not> file_tombstoned i db then db\<lparr>db_chunk_seq := hm_insert (i, idx) sq (db_chunk_seq db)\<rparr> else db,
          max sq cur))"

definition put_chunk_seq :: "txn_io \<Rightarrow> FileId \<Rightarrow> nat \<Rightarrow> nat \<Rightarrow> MetadataStore \<Rightarrow> MetadataStore \<times> nat option" where
  "put_chunk_seq io i idx sq s =
     (case put_chunk_seq_in_txn i idx sq (ms_db s) of (db, effective) \<Rightarrow>
        (commit 1 io db s, if io = Committed then Some effective else None))"

definition all_chunk_seqs :: "MetadataStore \<Rightarrow> (FileId \<times> nat \<times> nat) list" where
  "all_chunk_seqs s = map (\<lambda>((i, idx), sq). (i, idx, sq)) (db_chunk_seq (ms_db s))"

section \<open>Deferred patches\<close>

definition put_patch_state_pending_in_txn ::
    "FileId \<Rightarrow> nat \<Rightarrow> ChunkId \<Rightarrow> PatchState \<Rightarrow> MetaDb \<Rightarrow> MetaDb \<times> ChunkId option" where
  "put_patch_state_pending_in_txn i idx token state db =
     (let retired = hm_get (db_patch_slot db) (i, idx);
          states = (case retired of None \<Rightarrow> db_patch_state db | Some r \<Rightarrow> bt_remove r (db_patch_state db))
      in (db\<lparr>db_patch_slot := hm_insert (i, idx) token (db_patch_slot db),
             db_patch_state := bt_insert token (Good state) states\<rparr>, retired))"

definition put_patch_state_pending ::
    "txn_io \<Rightarrow> FileId \<Rightarrow> nat \<Rightarrow> ChunkId \<Rightarrow> ChunkId \<Rightarrow> ChunkId \<Rightarrow> nat \<Rightarrow> nat \<Rightarrow> nat option \<Rightarrow> MetadataStore \<Rightarrow>
     MetadataStore \<times> ChunkId option option" where
  "put_patch_state_pending io i idx token base delta sz written_at cws s =
     (case put_patch_state_pending_in_txn i idx token (Pending base delta sz written_at cws) (ms_db s) of (db, retired) \<Rightarrow>
        (commit 1 io db s, if io = Committed then Some retired else None))"

datatype fold_error = FileDeletedDuringFold FileId | FoldIo

definition update_folded_in_txn :: "nat \<Rightarrow> ChunkId \<Rightarrow> ChunkId \<Rightarrow> FileId option \<Rightarrow> MetaDb \<Rightarrow> fold_error + MetaDb" where
  "update_folded_in_txn now token new_chunk_id file_id db =
     (case file_id of
        Some i \<Rightarrow> if file_tombstoned i db then Inl (FileDeletedDuringFold i)
                  else Inr (db\<lparr>db_patch_state := bt_insert token (Good (Folded new_chunk_id)) (db_patch_state db),
                               db_fold_ts := hm_insert token now (db_fold_ts db)\<rparr>)
      | None \<Rightarrow> Inr (db\<lparr>db_patch_state := bt_insert token (Good (Folded new_chunk_id)) (db_patch_state db),
                         db_fold_ts := hm_insert token now (db_fold_ts db)\<rparr>))"

text \<open>A refused fold drops its transaction after its durability was chosen.\<close>

definition update_patch_state_folded_inner ::
    "txn_io \<Rightarrow> nat \<Rightarrow> ChunkId \<Rightarrow> ChunkId \<Rightarrow> FileId option \<Rightarrow> MetadataStore \<Rightarrow> MetadataStore \<times> (fold_error + unit)" where
  "update_patch_state_folded_inner io now token new_chunk_id file_id s =
     (if io = BeginFails then (s, Inl FoldIo)
      else case update_folded_in_txn now token new_chunk_id file_id (ms_db s) of
        Inl e \<Rightarrow> (fst (next_write_durability_n 1 s), Inl e)
      | Inr db \<Rightarrow> (commit 1 io db s, if io = Committed then Inr () else Inl FoldIo))"

definition update_patch_state_folded ::
    "txn_io \<Rightarrow> nat \<Rightarrow> ChunkId \<Rightarrow> ChunkId \<Rightarrow> MetadataStore \<Rightarrow> MetadataStore \<times> (fold_error + unit)" where
  "update_patch_state_folded io now token new_chunk_id s = update_patch_state_folded_inner io now token new_chunk_id None s"

definition delete_patch_state_abandoned_in_txn :: "ChunkId \<Rightarrow> FileId \<Rightarrow> nat \<Rightarrow> MetaDb \<Rightarrow> MetaDb" where
  "delete_patch_state_abandoned_in_txn token i idx db =
     db\<lparr>db_patch_state := bt_remove token (db_patch_state db),
        db_patch_slot := (if hm_get (db_patch_slot db) (i, idx) = Some token then hm_remove (i, idx) (db_patch_slot db)
                          else db_patch_slot db)\<rparr>"

definition delete_patch_state_abandoned ::
    "txn_io \<Rightarrow> ChunkId \<Rightarrow> FileId \<Rightarrow> nat \<Rightarrow> MetadataStore \<Rightarrow> MetadataStore \<times> unit option" where
  "delete_patch_state_abandoned io token i idx s = run_txn io (delete_patch_state_abandoned_in_txn token i idx) s"

definition get_patch_state :: "ChunkId \<Rightarrow> MetadataStore \<Rightarrow> PatchState option option" where
  "get_patch_state token s = read_row (map_of (db_patch_state (ms_db s)) token)"

definition get_patch_state_for_slot :: "FileId \<Rightarrow> nat \<Rightarrow> MetadataStore \<Rightarrow> (ChunkId \<times> PatchState) option option" where
  "get_patch_state_for_slot i idx s =
     (case hm_get (db_patch_slot (ms_db s)) (i, idx) of
        None \<Rightarrow> Some None
      | Some token \<Rightarrow> map_option (map_option (\<lambda>st. (token, st))) (get_patch_state token s))"

definition get_patch_states_present_batch :: "ChunkId list \<Rightarrow> MetadataStore \<Rightarrow> ChunkId set" where
  "get_patch_states_present_batch tokens s =
     set (filter (\<lambda>t. map_of (db_patch_state (ms_db s)) t \<noteq> None) tokens)"

text \<open>These two fail on a corrupt row, the slot walks below skip it.\<close>

definition all_pending_patch_chunk_ids :: "MetadataStore \<Rightarrow> ChunkId set option" where
  "all_pending_patch_chunk_ids s =
     (let rows = map snd (db_patch_state (ms_db s))
      in if Corrupt \<in> set rows then None
         else Some (set (concat (map (\<lambda>v. case v of Good (Pending b d _ _ _) \<Rightarrow> [b, d] | _ \<Rightarrow> []) rows))))"

definition count_pending_patch_entries :: "MetadataStore \<Rightarrow> nat option" where
  "count_pending_patch_entries s =
     (let rows = map snd (db_patch_state (ms_db s))
      in if Corrupt \<in> set rows then None
         else Some (length (filter (\<lambda>v. case v of Good (Pending _ _ _ _ _) \<Rightarrow> True | _ \<Rightarrow> False) rows)))"

definition slot_walk :: "(FileId \<Rightarrow> nat \<Rightarrow> ChunkId \<Rightarrow> PatchState \<Rightarrow> 'a option) \<Rightarrow> MetadataStore \<Rightarrow> 'a list" where
  "slot_walk f s =
     List.map_filter (\<lambda>((i, idx), token).
       case map_of (db_patch_state (ms_db s)) token of Some (Good st) \<Rightarrow> f i idx token st | _ \<Rightarrow> None)
       (db_patch_slot (ms_db s))"

definition all_pending_patch_slots :: "MetadataStore \<Rightarrow> (FileId \<times> nat \<times> ChunkId) list" where
  "all_pending_patch_slots s =
     slot_walk (\<lambda>i idx token st. case st of Pending _ _ _ _ _ \<Rightarrow> Some (i, idx, token) | Folded _ \<Rightarrow> None) s"

definition all_pending_patch_slots_with_age :: "MetadataStore \<Rightarrow> (FileId \<times> nat \<times> ChunkId \<times> nat) list" where
  "all_pending_patch_slots_with_age s =
     slot_walk (\<lambda>i idx token st. case st of Pending _ _ _ w _ \<Rightarrow> Some (i, idx, token, w) | Folded _ \<Rightarrow> None) s"

definition all_folded_patch_slots :: "MetadataStore \<Rightarrow> (FileId \<times> nat \<times> ChunkId \<times> ChunkId) list" where
  "all_folded_patch_slots s =
     slot_walk (\<lambda>i idx token st. case st of Folded real \<Rightarrow> Some (i, idx, token, real) | _ \<Rightarrow> None) s"

definition all_patch_token_ids :: "MetadataStore \<Rightarrow> ChunkId set" where
  "all_patch_token_ids s = set (map fst (db_patch_state (ms_db s)))"

definition all_folded_chunk_ids :: "MetadataStore \<Rightarrow> ChunkId list" where
  "all_folded_chunk_ids s =
     List.map_filter (\<lambda>p. case snd p of Good (Folded t) \<Rightarrow> Some t | _ \<Rightarrow> None) (db_patch_state (ms_db s))"

record StaleFoldedPatchCandidate =
  sc_token :: ChunkId
  sc_file_id :: "FileId option"
  sc_chunk_idx :: "nat option"
  sc_safe_without_leader_check :: bool

text \<open>\<open>now_ms\<close> is the clock in milliseconds; \<open>current_timestamp\<close> are its seconds.\<close>

definition stale_candidate ::
    "nat \<Rightarrow> nat \<Rightarrow> MetadataStore \<Rightarrow> ChunkId \<Rightarrow> nat option \<Rightarrow> ChunkLocation option \<Rightarrow> StaleFoldedPatchCandidate option" where
  "stale_candidate now_ms min_age_secs s token folded_at target_loc =
     (case target_loc of
        None \<Rightarrow> Some \<lparr>sc_token = token, sc_file_id = None, sc_chunk_idx = None, sc_safe_without_leader_check = True\<rparr>
      | Some l \<Rightarrow>
          let file_gone = (case cl_file_id l of Some i \<Rightarrow> \<not> file_exists_by_id i s | None \<Rightarrow> False);
              cand = (\<lambda>safe. \<lparr>sc_token = token, sc_file_id = cl_file_id l,
                             sc_chunk_idx = map_option (\<lambda>off. off div CHUNK_SIZE) (cl_file_offset l),
                             sc_safe_without_leader_check = safe\<rparr>);
              old_enough = (case folded_at of
                  Some at_secs \<Rightarrow> now_ms div 1000 - at_secs \<ge> min_age_secs
                | None \<Rightarrow> (case cl_written_at l of
                      Some ts_ms \<Rightarrow> now_ms - ts_ms \<ge> min_age_secs * 1000
                    | None \<Rightarrow> False))
          in if file_gone then Some (cand True) else if old_enough then Some (cand False) else None)"

fun stale_candidates ::
    "nat \<Rightarrow> nat \<Rightarrow> MetadataStore \<Rightarrow> (ChunkId \<times> PatchState stored) list \<Rightarrow> StaleFoldedPatchCandidate list option" where
  "stale_candidates now_ms min_age s [] = Some []"
| "stale_candidates now_ms min_age s ((token, Good (Folded target)) # rows) =
     (case get_chunk_location target s of
        None \<Rightarrow> None
      | Some loc \<Rightarrow>
          map_option (\<lambda>out. (case stale_candidate now_ms min_age s token (hm_get (db_fold_ts (ms_db s)) token) loc of
              None \<Rightarrow> out | Some c \<Rightarrow> c # out)) (stale_candidates now_ms min_age s rows))"
| "stale_candidates now_ms min_age s (_ # rows) = stale_candidates now_ms min_age s rows"

definition find_stale_folded_patch_state_candidates ::
    "nat \<Rightarrow> nat \<Rightarrow> MetadataStore \<Rightarrow> StaleFoldedPatchCandidate list option" where
  "find_stale_folded_patch_state_candidates now_ms min_age s =
     stale_candidates now_ms min_age s (db_patch_state (ms_db s))"

definition remove_patch_state_rows :: "txn_io \<Rightarrow> ChunkId list \<Rightarrow> MetadataStore \<Rightarrow> MetadataStore \<times> ChunkId list option" where
  "remove_patch_state_rows io keys s =
     (if keys = [] then (s, Some [])
      else let db = ms_db s
           in (commit 1 io (db\<lparr>db_patch_state := fold bt_remove keys (db_patch_state db),
                               db_fold_ts := fold hm_remove keys (db_fold_ts db)\<rparr>) s,
               if io = Committed then Some keys else None))"

section \<open>Fold announcements\<close>

definition put_pending_fold_announce :: "txn_io \<Rightarrow> PendingFoldAnnounce \<Rightarrow> MetadataStore \<Rightarrow> MetadataStore \<times> unit option" where
  "put_pending_fold_announce io a s =
     run_txn io (\<lambda>db. if file_tombstoned (fa_file_id a) db then db
                     else db\<lparr>db_fold_announce := bt_insert (fa_public_token a) (Good a) (db_fold_announce db)\<rparr>) s"

definition delete_pending_fold_announce :: "txn_io \<Rightarrow> ChunkId \<Rightarrow> MetadataStore \<Rightarrow> MetadataStore \<times> unit option" where
  "delete_pending_fold_announce io token s =
     run_txn io (\<lambda>db. db\<lparr>db_fold_announce := bt_remove token (db_fold_announce db)\<rparr>) s"

definition scan_pending_fold_announces :: "MetadataStore \<Rightarrow> PendingFoldAnnounce list" where
  "scan_pending_fold_announces s = List.map_filter (\<lambda>p. good (Some (snd p))) (db_fold_announce (ms_db s))"

section \<open>Healing timers\<close>

definition put_pending_healing_batch_in_txn :: "(ChunkId \<times> nat) list \<Rightarrow> MetaDb \<Rightarrow> MetaDb" where
  "put_pending_healing_batch_in_txn entries db =
     db\<lparr>db_pending_healing := fold (\<lambda>(c, t). bt_insert c t) entries (db_pending_healing db)\<rparr>"

definition put_pending_healing :: "txn_io \<Rightarrow> ChunkId \<Rightarrow> nat \<Rightarrow> MetadataStore \<Rightarrow> MetadataStore \<times> unit option" where
  "put_pending_healing io c t s = run_txn io (put_pending_healing_batch_in_txn [(c, t)]) s"

definition put_pending_healing_batch :: "txn_io \<Rightarrow> (ChunkId \<times> nat) list \<Rightarrow> MetadataStore \<Rightarrow> MetadataStore \<times> unit option" where
  "put_pending_healing_batch io entries s =
     (if entries = [] then (s, Some ()) else run_txn io (put_pending_healing_batch_in_txn entries) s)"

definition delete_pending_healing :: "txn_io \<Rightarrow> ChunkId \<Rightarrow> MetadataStore \<Rightarrow> MetadataStore \<times> unit option" where
  "delete_pending_healing io c s = run_txn io (update_chunks [] [] [c]) s"

definition get_pending_healing_inventory :: "MetadataStore \<Rightarrow> (ChunkId \<times> nat) list" where
  "get_pending_healing_inventory s = db_pending_healing (ms_db s)"

end
