(* ===== verification/Meta_Queue.thy ===== *)
theory Meta_Queue
  imports Metadata_Store
begin

text \<open>
  The queues a leader keeps in its metadata store (\<^verbatim>\<open>dfs-server/src/metadata.rs\<close>): the counters, the
  dissemination queue with its index from files to queue entries, and the delete queue. A queue key
  is the printed node id and the sequence number in sixteen hexadecimal digits, so the order of the
  keys is the order of the pairs.

  Shown: the queue and its index stay in step, one entry per node and file; a drain returns the
  latest record of every queued file in the order of the sequence numbers; an acknowledgement
  removes exactly what was acknowledged; and the deduplication pass has nothing left to do.
\<close>

section \<open>Definitions\<close>

definition counter :: "string \<Rightarrow> MetaDb \<Rightarrow> nat" where
  "counter k db = unwrap_or 0 (hm_get (db_counters db) k)"

definition set_counter :: "string \<Rightarrow> nat \<Rightarrow> MetaDb \<Rightarrow> MetaDb" where
  "set_counter k v db = db\<lparr>db_counters := hm_insert k v (db_counters db)\<rparr>"

text \<open>The operations of this group that choose no durability use the default of redb, \<open>Immediate\<close>.\<close>

definition run_immediate :: "txn_io \<Rightarrow> MetaDb \<Rightarrow> MetadataStore \<Rightarrow> MetadataStore" where
  "run_immediate io db s = commit_as Immediate (io = Committed) db s"

definition next_meta_sequence :: "txn_io \<Rightarrow> MetadataStore \<Rightarrow> MetadataStore \<times> nat option" where
  "next_meta_sequence io s =
     (let nxt = (counter ''meta_seq'' (ms_db s) + 1) mod 2 ^ 64
      in (run_immediate io (set_counter ''meta_seq'' nxt (ms_db s)) s, if io = Committed then Some nxt else None))"

definition current_meta_sequence :: "MetadataStore \<Rightarrow> nat" where
  "current_meta_sequence s = counter ''meta_seq'' (ms_db s)"

definition be64 :: "byte list \<Rightarrow> nat" where
  "be64 bs = from_le (rev bs)"

definition be64_bytes :: "nat \<Rightarrow> byte list" where
  "be64_bytes n = rev (to_le 8 n)"

definition put_leader_state :: "txn_io \<Rightarrow> NodeId \<Rightarrow> nat \<Rightarrow> MetadataStore \<Rightarrow> MetadataStore \<times> unit option" where
  "put_leader_state io n since_secs s =
     (let bytes = uuid_bytes (node_uuid n);
          hi = be64 (take 8 bytes); lo = be64 (drop 8 bytes);
          db = set_counter ''leader_state_since_secs'' since_secs
                 (set_counter ''leader_state_lo'' lo (set_counter ''leader_state_hi'' hi (ms_db s)))
      in (run_immediate io db s, if io = Committed then Some () else None))"

definition uuid_of_bytes :: "byte list \<Rightarrow> Uuid" where
  "uuid_of_bytes bs = word_of_nat (from_le (rev bs))"

definition get_leader_state :: "MetadataStore \<Rightarrow> NodeId option \<times> nat option" where
  "get_leader_state s =
     (let c = hm_get (db_counters (ms_db s))
      in ((case (c ''leader_state_hi'', c ''leader_state_lo'') of
             (Some h, Some l) \<Rightarrow> Some (NodeId (uuid_of_bytes (be64_bytes h @ be64_bytes l)))
           | _ \<Rightarrow> None),
          c ''leader_state_since_secs''))"

definition set_follower_sequence :: "txn_io \<Rightarrow> nat \<Rightarrow> MetadataStore \<Rightarrow> MetadataStore \<times> unit option" where
  "set_follower_sequence io sq s =
     (commit 1 io (set_counter ''follower_seq'' sq (ms_db s)) s, if io = Committed then Some () else None)"

definition get_follower_sequence :: "MetadataStore \<Rightarrow> nat" where
  "get_follower_sequence s = counter ''follower_seq'' (ms_db s)"

subsection \<open>The dissemination queue\<close>

definition enqueue_in_txn :: "NodeId \<Rightarrow> nat \<Rightarrow> FileMetadata \<Rightarrow> MetaDb \<Rightarrow> MetaDb" where
  "enqueue_in_txn n sq m db =
     (let q = (case hm_get (db_meta_idx db) (n, fm_id m) of
                 None \<Rightarrow> db_meta_queue db
               | Some old_seq \<Rightarrow> bt_remove (n, old_seq) (db_meta_queue db))
      in db\<lparr>db_meta_queue := bt_insert (n, sq) (Good m) q,
            db_meta_idx := hm_insert (n, fm_id m) sq (db_meta_idx db)\<rparr>)"

definition enqueue_meta_for_node :: "txn_io \<Rightarrow> NodeId \<Rightarrow> nat \<Rightarrow> FileMetadata \<Rightarrow> MetadataStore \<Rightarrow> MetadataStore \<times> unit option" where
  "enqueue_meta_for_node io n sq m s =
     (run_immediate io (enqueue_in_txn n sq m (ms_db s)) s, if io = Committed then Some () else None)"

definition node_rows :: "NodeId \<Rightarrow> MetaDb \<Rightarrow> ((NodeId \<times> nat) \<times> FileMetadata stored) list" where
  "node_rows n db = filter (\<lambda>p. fst (fst p) = n) (db_meta_queue db)"

definition drain_meta_queue_for_node :: "NodeId \<Rightarrow> MetadataStore \<Rightarrow> (nat \<times> FileMetadata) list" where
  "drain_meta_queue_for_node n s =
     List.map_filter (\<lambda>((_, sq), v). map_option (\<lambda>m. (sq, m)) (good (Some v))) (node_rows n (ms_db s))"

text \<open>The acknowledgement reads the rows to remove (\<open>ack_rows\<close>) and removes them in a second step.\<close>

definition ack_rows :: "NodeId \<Rightarrow> nat \<Rightarrow> MetaDb \<Rightarrow> ((NodeId \<times> nat) \<times> FileId option) list" where
  "ack_rows n up_to db =
     map (\<lambda>(k, v). (k, map_option fm_id (good (Some v)))) (takeWhile (\<lambda>p. \<not> snd (fst p) > up_to) (node_rows n db))"

fun ack_remove :: "((NodeId \<times> nat) \<times> FileId option) list \<Rightarrow> MetaDb \<Rightarrow> MetaDb" where
  "ack_remove [] db = db"
| "ack_remove (((n, sq), fid) # rows) db =
     (let idx = (case fid of
                   None \<Rightarrow> db_meta_idx db
                 | Some i \<Rightarrow> if hm_get (db_meta_idx db) (n, i) = Some sq then hm_remove (n, i) (db_meta_idx db)
                             else db_meta_idx db)
      in ack_remove rows (db\<lparr>db_meta_idx := idx, db_meta_queue := bt_remove (n, sq) (db_meta_queue db)\<rparr>))"

definition ack_meta_queue_for_node :: "txn_io \<Rightarrow> NodeId \<Rightarrow> nat \<Rightarrow> MetadataStore \<Rightarrow> MetadataStore \<times> unit option" where
  "ack_meta_queue_for_node io n up_to s =
     (let rows = ack_rows n up_to (ms_db s)
      in if rows = [] then (s, Some ())
         else (commit 1 io (ack_remove rows (ms_db s)) s, if io = Committed then Some () else None))"

fun duplicates :: "(nat \<times> FileId) list \<Rightarrow> (FileId, nat) hash_map \<Rightarrow> nat list" where
  "duplicates [] seen = []"
| "duplicates ((sq, i) # rows) seen =
     (case hm_get seen i of
        None \<Rightarrow> duplicates rows (hm_insert i sq seen)
      | Some best \<Rightarrow>
          if sq > best then best # duplicates rows (hm_insert i sq seen)
          else if sq < best then sq # duplicates rows seen
          else duplicates rows seen)"

definition compact_meta_queue_for_node :: "txn_io \<Rightarrow> NodeId \<Rightarrow> MetadataStore \<Rightarrow> MetadataStore \<times> unit option" where
  "compact_meta_queue_for_node io n s =
     (let db = ms_db s;
          to_remove = duplicates (map (\<lambda>(sq, m). (sq, fm_id m)) (drain_meta_queue_for_node n s)) []
      in if to_remove = [] then (s, Some ())
         else (commit 1 io (db\<lparr>db_meta_queue := fold (\<lambda>sq. bt_remove (n, sq)) to_remove (db_meta_queue db)\<rparr>) s,
               if io = Committed then Some () else None))"

subsection \<open>The delete queue\<close>

definition enqueue_delete :: "txn_io \<Rightarrow> DeleteQueueEntry \<Rightarrow> MetadataStore \<Rightarrow> MetadataStore \<times> unit option" where
  "enqueue_delete io e s =
     (let db = ms_db s
      in (run_immediate io (db\<lparr>db_delete_queue := bt_insert (dq_file_id e) (Good e) (db_delete_queue db)\<rparr>) s,
          if io = Committed then Some () else None))"

definition dequeue_delete :: "txn_io \<Rightarrow> FileId \<Rightarrow> MetadataStore \<Rightarrow> MetadataStore \<times> unit option" where
  "dequeue_delete io i s =
     (let db = ms_db s
      in (commit 1 io (db\<lparr>db_delete_queue := bt_remove i (db_delete_queue db)\<rparr>) s,
          if io = Committed then Some () else None))"

definition get_all_pending_deletes :: "MetadataStore \<Rightarrow> DeleteQueueEntry list" where
  "get_all_pending_deletes s = List.map_filter (\<lambda>p. good (Some (snd p))) (db_delete_queue (ms_db s))"

section \<open>The leader record\<close>

lemma nth_to_le: "i < w \<Longrightarrow> to_le w n ! i = word_of_nat (n div 256 ^ i mod 256)"
proof (induction w n arbitrary: i rule: to_le.induct)
  case (2 w n)
  then show ?case by (cases i) (simp_all add: div_mult2_eq)
qed simp

lemma byte_of_uuid: "ucast (drop_bit (8 * k) (u :: Uuid)) = (word_of_nat (unat u div 256 ^ k mod 256) :: byte)"
proof -
  have "unat (drop_bit (8 * k) u) = drop_bit (8 * k) (unat u)" by (rule unat_drop_bit_eq)
  also have "\<dots> = unat u div 256 ^ k" by (simp add: drop_bit_eq_div power_mult)
  finally have "unat (ucast (drop_bit (8 * k) u) :: byte) = unat u div 256 ^ k mod 256"
    by (simp add: unsigned_ucast_eq take_bit_eq_mod del: drop_bit_eq_div)
  also have "\<dots> = unat (word_of_nat (unat u div 256 ^ k mod 256) :: byte)" by simp
  finally show ?thesis by (simp only: word_unat_eq_iff)
qed

lemma rev_uuid_bytes: "rev (uuid_bytes u) = to_le 16 (unat u)"
  proof (rule nth_equalityI)
  fix i assume "i < length (rev (uuid_bytes u))"
  then have i: "i < 16" by simp
  then have "[0..<16] ! (15 - i) = 15 - i" using nth_upt [of 0 "15 - i" 16] by simp
  then show "rev (uuid_bytes u) ! i = to_le 16 (unat u) ! i"
    using i by (simp add: rev_nth uuid_bytes_def nth_to_le byte_of_uuid)
qed simp

lemma uuid_of_uuid_bytes: "uuid_of_bytes (uuid_bytes u) = u"
proof -
  have "unat u < 256 ^ 16" using unsigned_less [of u, where 'a = nat] by simp
  then show ?thesis by (simp add: uuid_of_bytes_def rev_uuid_bytes from_le_to_le)
qed

lemma be64_roundtrip: "length bs = 8 \<Longrightarrow> be64_bytes (be64 bs) = bs"
  by (simp add: be64_bytes_def be64_def to_le_from_le)

lemma leader_state_roundtrip:
  assumes "hm_wf (db_counters (ms_db s))"
  shows "get_leader_state (fst (put_leader_state Committed n since s)) = (Some n, Some since)"
proof -
  have "be64_bytes (be64 (take 8 (uuid_bytes (node_uuid n)))) @ be64_bytes (be64 (drop 8 (uuid_bytes (node_uuid n))))
      = uuid_bytes (node_uuid n)" by (simp add: be64_roundtrip)
  then show ?thesis
    using assms by (simp add: get_leader_state_def put_leader_state_def set_counter_def run_immediate_def commit_as_def
        hm.get_put hm.wf_put uuid_of_uuid_bytes Let_def)
qed

section \<open>The queue and its index\<close>

text \<open>
  \<open>queue_ok\<close>: every queue row decodes, the index has the sequence number of the row of its file, and
  every indexed number is a row of that file.
\<close>

definition queue_ok :: "MetaDb \<Rightarrow> bool" where
  "queue_ok db \<longleftrightarrow> bt_wf (db_meta_queue db) \<and> hm_wf (db_meta_idx db) \<and>
     (\<forall>n sq v. map_of (db_meta_queue db) (n, sq) = Some v \<longrightarrow>
        (\<exists>m. v = Good m \<and> hm_get (db_meta_idx db) (n, fm_id m) = Some sq)) \<and>
     (\<forall>n i sq. hm_get (db_meta_idx db) (n, i) = Some sq \<longrightarrow>
        (\<exists>m. map_of (db_meta_queue db) (n, sq) = Some (Good m) \<and> fm_id m = i))"

lemma queue_okD:
  assumes "queue_ok db"
  shows "bt_wf (db_meta_queue db)" "hm_wf (db_meta_idx db)"
    "\<And>n sq v. map_of (db_meta_queue db) (n, sq) = Some v \<Longrightarrow>
       \<exists>m. v = Good m \<and> hm_get (db_meta_idx db) (n, fm_id m) = Some sq"
    "\<And>n i sq. hm_get (db_meta_idx db) (n, i) = Some sq \<Longrightarrow>
       \<exists>m. map_of (db_meta_queue db) (n, sq) = Some (Good m) \<and> fm_id m = i"
  using assms unfolding queue_ok_def by blast+

lemma bt_map_of: "bt_wf m \<Longrightarrow> map_of m k = Some v \<longleftrightarrow> (k, v) \<in> set m"
  by (simp add: bt_wf_distinct)

lemma enqueue_queue_ok:
  assumes ok: "queue_ok db" and fresh: "map_of (db_meta_queue db) (n, sq) = None"
  shows "queue_ok (enqueue_in_txn n sq m db)"
proof -
  note Q = queue_okD [OF ok]
  define q where "q = (case hm_get (db_meta_idx db) (n, fm_id m) of
      None \<Rightarrow> db_meta_queue db | Some old_seq \<Rightarrow> bt_remove (n, old_seq) (db_meta_queue db))"
  have wf: "bt_wf q" using Q(1) by (simp add: q_def bt_wf_remove split: option.split)
  have q: "map_of q k = (if fst k = n \<and> hm_get (db_meta_idx db) (n, fm_id m) = Some (snd k) then None
      else map_of (db_meta_queue db) k)" for k
    using Q(1) by (cases k) (auto simp: q_def bt.get_del split: option.split)
  have row: "\<exists>x. v = Good x \<and> hm_get (hm_insert (n, fm_id m) sq (db_meta_idx db)) (n', fm_id x) = Some sq'"
    if "map_of (bt_insert (n, sq) (Good m) q) (n', sq') = Some v" for n' sq' v
    using that Q(3) [of n' sq' v] Q(2) wf by (auto simp: bt.get_put q hm.get_put split: if_splits)
  have idx: "\<exists>x. map_of (bt_insert (n, sq) (Good m) q) (n', sq') = Some (Good x) \<and> fm_id x = i"
    if "hm_get (hm_insert (n, fm_id m) sq (db_meta_idx db)) (n', i) = Some sq'" for n' i sq'
  proof (cases "(n', i) = (n, fm_id m)")
    case True
    with that wf Q(2) show ?thesis by (auto simp: bt.get_put hm.get_put)
  next
    case False
    with that Q(2) have old: "hm_get (db_meta_idx db) (n', i) = Some sq'" by (auto simp: hm.get_put split: if_splits)
    from Q(4) [OF old] obtain x where x: "map_of (db_meta_queue db) (n', sq') = Some (Good x)" "fm_id x = i" by blast
    with Q(3) [OF x(1)] Q(4) [of n "fm_id m" sq'] False fresh wf show ?thesis by (auto simp: bt.get_put q)
  qed
  show ?thesis
    unfolding queue_ok_def enqueue_in_txn_def
    using row idx bt_wf_insert [OF wf] hm.wf_put [OF Q(2)] by (simp add: q_def [symmetric] Let_def)
qed

lemma ack_remove_queue: "db_meta_queue (ack_remove rows db) = filter (\<lambda>p. fst p \<notin> fst ` set rows) (db_meta_queue db)"
  by (induction rows db rule: ack_remove.induct)
    (auto simp: Let_def bt_remove_def filter_filter conj_commute intro!: filter_cong)

lemma ack_remove_idx:
  "hm_wf (db_meta_idx db) \<Longrightarrow> hm_wf (db_meta_idx (ack_remove rows db)) \<and>
   hm_get (db_meta_idx (ack_remove rows db)) (n, i) =
     (if \<exists>sq. ((n, sq), Some i) \<in> set rows \<and> hm_get (db_meta_idx db) (n, i) = Some sq then None
      else hm_get (db_meta_idx db) (n, i))"
proof (induction rows db rule: ack_remove.induct)
  case (2 n' sq fid rows db)
  define idx where "idx = (case fid of None \<Rightarrow> db_meta_idx db
      | Some j \<Rightarrow> if hm_get (db_meta_idx db) (n', j) = Some sq then hm_remove (n', j) (db_meta_idx db) else db_meta_idx db)"
  have wf: "hm_wf idx" using "2.prems" by (simp add: idx_def hm.wf_del split: option.split)
  have get: "hm_get idx (n, i) = (if n = n' \<and> fid = Some i \<and> hm_get (db_meta_idx db) (n, i) = Some sq then None
      else hm_get (db_meta_idx db) (n, i))"
    using "2.prems" by (auto simp: idx_def hm.get_del split: option.split)
  from "2.IH" [OF idx_def] wf get show ?case by (auto simp: idx_def [symmetric] Let_def)
qed simp

lemma map_of_filter_key: "map_of (filter (\<lambda>p. P (fst p)) m) k = (if P k then map_of m k else None)"
  by (induction m) auto

text \<open>
  An acknowledgement computed on \<open>db\<close> and applied to \<open>db'\<close>, which may hold rows that were queued in
  between: \<open>grown\<close> says that these have larger sequence numbers.
\<close>

definition grown :: "NodeId \<Rightarrow> nat \<Rightarrow> MetaDb \<Rightarrow> MetaDb \<Rightarrow> bool" where
  "grown n up_to db db' \<longleftrightarrow>
     (\<forall>sq v. sq \<le> up_to \<longrightarrow> map_of (db_meta_queue db') (n, sq) = Some v \<longrightarrow> map_of (db_meta_queue db) (n, sq) = Some v)"

lemma set_takeWhile_sorted: "sorted (map f xs) \<Longrightarrow> set (takeWhile (\<lambda>x. \<not> f x > t) xs) = {x \<in> set xs. f x \<le> t}"
  by (induction xs) (auto simp: not_less dest: order_trans)

lemma sorted_pairs_snd:
  "sorted_wrt (<) (map fst xs) \<Longrightarrow>
   sorted_wrt (<) (map (snd \<circ> fst) (filter (\<lambda>p. fst (fst p) = n) (xs :: ((NodeId \<times> nat) \<times> 'v) list)))"
proof (induction xs)
  case (Cons a xs)
  have "snd (fst a) < snd (fst x)" if "x \<in> set xs" "fst (fst x) = n" "fst (fst a) = n" for x
  proof -
    from Cons.prems that(1) have "fst a < fst x" by simp
    with that(2,3) show ?thesis by (auto simp: less_prod_def)
  qed
  with Cons show ?case by auto
qed simp

lemma node_rows_sorted: "bt_wf (db_meta_queue db) \<Longrightarrow> sorted_wrt (<) (map (snd \<circ> fst) (node_rows n db))"
  unfolding bt_wf_def node_rows_def by (rule sorted_pairs_snd)

lemma ack_rows_mem:
  assumes "bt_wf (db_meta_queue db)"
  shows "((n', sq), fid) \<in> set (ack_rows n up_to db) \<longleftrightarrow>
    n' = n \<and> sq \<le> up_to \<and> (\<exists>v. map_of (db_meta_queue db) (n, sq) = Some v \<and> fid = map_option fm_id (good (Some v)))"
proof -
  have "sorted (map (snd \<circ> fst) (node_rows n db))"
    using node_rows_sorted [OF assms, of n] by (simp add: strict_sorted_iff)
  from set_takeWhile_sorted [OF this, of up_to]
  have "set (takeWhile (\<lambda>p. \<not> snd (fst p) > up_to) (node_rows n db)) = {p \<in> set (node_rows n db). snd (fst p) \<le> up_to}"
    by simp
  then show ?thesis
    using bt_map_of [OF assms] by (auto simp: ack_rows_def node_rows_def image_iff)
qed

lemma ack_queue_ok:
  assumes ok: "queue_ok db" and ok': "queue_ok db'" and g: "grown n up_to db db'"
  shows "queue_ok (ack_remove (ack_rows n up_to db) db')"
proof -
  note Q = queue_okD [OF ok] and Q' = queue_okD [OF ok']
  let ?rows = "ack_rows n up_to db" and ?db = "ack_remove (ack_rows n up_to db) db'"
  have q: "map_of (db_meta_queue ?db) k = (if k \<notin> fst ` set ?rows then map_of (db_meta_queue db') k else None)" for k
    unfolding ack_remove_queue by (rule map_of_filter_key)
  note idx = ack_remove_idx [OF Q'(2), of ?rows]
  have row: "\<exists>m. v = Good m \<and> hm_get (db_meta_idx ?db) (n', fm_id m) = Some sq"
    if "map_of (db_meta_queue ?db) (n', sq) = Some v" for n' sq v
  proof -
    from that have old: "map_of (db_meta_queue db') (n', sq) = Some v" and nr: "(n', sq) \<notin> fst ` set ?rows"
      by (auto simp: q split: if_splits)
    from Q'(3) [OF old] obtain m where m: "v = Good m" "hm_get (db_meta_idx db') (n', fm_id m) = Some sq" by blast
    with nr have "hm_get (db_meta_idx ?db) (n', fm_id m) = Some sq" by (force simp: idx)
    with m(1) show ?thesis by blast
  qed
  have entry: "\<exists>m. map_of (db_meta_queue ?db) (n', sq) = Some (Good m) \<and> fm_id m = i"
    if "hm_get (db_meta_idx ?db) (n', i) = Some sq" for n' i sq
  proof -
    from that have old: "hm_get (db_meta_idx db') (n', i) = Some sq" and nr: "((n', sq), Some i) \<notin> set ?rows"
      by (auto simp: idx split: if_splits)
    from Q'(4) [OF old] obtain m where m: "map_of (db_meta_queue db') (n', sq) = Some (Good m)" "fm_id m = i" by blast
    have "(n', sq) \<notin> fst ` set ?rows"
    proof
      assume "(n', sq) \<in> fst ` set ?rows"
      then obtain fid where "((n', sq), fid) \<in> set ?rows" by force
      with m g nr show False by (auto simp: ack_rows_mem [OF Q(1)] grown_def)
    qed
    with m show ?thesis by (simp add: q)
  qed
  have "bt_wf (db_meta_queue ?db)"
    using Q'(1) by (simp add: ack_remove_queue bt_wf_def sorted_wrt_map sorted_wrt_filter)
  with row entry idx show ?thesis unfolding queue_ok_def by blast
qed

lemma map_filter_filter:
  "(\<And>x y. x \<in> set xs \<Longrightarrow> g x = Some y \<Longrightarrow> P x = Q y) \<Longrightarrow> List.map_filter g (filter P xs) = filter Q (List.map_filter g xs)"
  by (induction xs) (auto simp: List.map_filter_simps split: option.splits)

lemma ack_node_rows:
  assumes ok: "queue_ok db" and g: "grown n up_to db db'" and ok': "queue_ok db'"
  shows "node_rows n' (ack_remove (ack_rows n up_to db) db') =
    filter (\<lambda>p. n' = n \<longrightarrow> snd (fst p) > up_to) (node_rows n' db')"
proof -
  have eq: "fst p \<in> fst ` set (ack_rows n up_to db) \<longleftrightarrow> n' = n \<and> snd (fst p) \<le> up_to"
    if p: "p \<in> set (db_meta_queue db')" "fst (fst p) = n'" for p
  proof -
    obtain sq v where pv: "p = ((n', sq), v)" using p(2) by (cases p) auto
    with p have "map_of (db_meta_queue db') (n', sq) = Some v" by (simp add: bt_map_of [OF queue_okD(1) [OF ok']])
    with g have "n' = n \<Longrightarrow> sq \<le> up_to \<Longrightarrow> map_of (db_meta_queue db) (n, sq) = Some v" by (simp add: grown_def)
    then have "n' = n \<Longrightarrow> sq \<le> up_to \<Longrightarrow> ((n, sq), map_option fm_id (good (Some v))) \<in> set (ack_rows n up_to db)"
      by (simp add: ack_rows_mem [OF queue_okD(1) [OF ok]])
    note in_rows = imageI [OF this, of fst]
    show ?thesis
    proof
      assume "fst p \<in> fst ` set (ack_rows n up_to db)"
      then obtain fid where "((n', sq), fid) \<in> set (ack_rows n up_to db)" by (force simp: pv)
      then show "n' = n \<and> snd (fst p) \<le> up_to" by (simp add: pv ack_rows_mem [OF queue_okD(1) [OF ok]])
    next
      assume "n' = n \<and> snd (fst p) \<le> up_to"
      with in_rows show "fst p \<in> fst ` set (ack_rows n up_to db)" by (simp add: pv)
    qed
  qed
  show ?thesis
    unfolding node_rows_def ack_remove_queue filter_filter
  proof (rule filter_cong [OF refl])
    fix p assume "p \<in> set (db_meta_queue db')"
    from eq [OF this] show "(fst p \<notin> fst ` set (ack_rows n up_to db) \<and> fst (fst p) = n') =
        (fst (fst p) = n' \<and> (n' = n \<longrightarrow> snd (fst p) > up_to))"
      by (cases "fst (fst p) = n'") (simp_all add: not_le)
  qed
qed

text \<open>What a drain returns.\<close>

lemma drain_mem:
  assumes "queue_ok (ms_db s)"
  shows "(sq, m) \<in> set (drain_meta_queue_for_node n s) \<longleftrightarrow> map_of (db_meta_queue (ms_db s)) (n, sq) = Some (Good m)"
proof -
  have "g (Some v) = Some m \<longleftrightarrow> v = Good m" if "g = good" for g v using that by (cases v) auto
  then show ?thesis
    unfolding bt_map_of [OF queue_okD(1) [OF assms]] drain_meta_queue_for_node_def node_rows_def
    by (force simp: List.map_filter_def image_iff)
qed

lemma drain_sorted:
  assumes "queue_ok (ms_db s)"
  shows "sorted_wrt (<) (map fst (drain_meta_queue_for_node n s))"
proof -
  have "sorted_wrt (<) (map (snd \<circ> fst) rows) \<Longrightarrow>
      sorted_wrt (<) (map fst (List.map_filter (\<lambda>((_, sq), v). map_option (\<lambda>m. (sq, m)) (good (Some v))) rows))"
    for rows :: "((NodeId \<times> nat) \<times> FileMetadata stored) list"
    by (induction rows) (auto simp: List.map_filter_simps List.map_filter_def split: option.splits)
  from this [OF node_rows_sorted [OF queue_okD(1) [OF assms]]] show ?thesis
    by (simp add: drain_meta_queue_for_node_def)
qed

lemma drain_distinct:
  assumes "queue_ok (ms_db s)"
  shows "distinct (map (fm_id \<circ> snd) (drain_meta_queue_for_node n s))"
proof -
  let ?d = "drain_meta_queue_for_node n s"
  have "x = y" if "x \<in> set ?d" "y \<in> set ?d" "fm_id (snd x) = fm_id (snd y)" for x y
  proof -
    from that(1,2) have x: "map_of (db_meta_queue (ms_db s)) (n, fst x) = Some (Good (snd x))"
      and y: "map_of (db_meta_queue (ms_db s)) (n, fst y) = Some (Good (snd y))"
      by (simp_all flip: drain_mem [OF assms])
    from queue_okD(3) [OF assms x] queue_okD(3) [OF assms y] that(3) have "fst x = fst y" by simp
    with x y show ?thesis by (simp add: prod_eq_iff)
  qed
  then have "inj_on (fm_id \<circ> snd) (set ?d)" by (auto intro: inj_onI)
  moreover have "distinct ?d" using drain_sorted [OF assms, of n] by (simp add: strict_sorted_iff distinct_map)
  ultimately show ?thesis by (simp add: distinct_map)
qed

lemma duplicates_distinct:
  "distinct (map snd rows) \<Longrightarrow> \<forall>i \<in> snd ` set rows. hm_get seen i = None \<Longrightarrow> hm_wf seen \<Longrightarrow> duplicates rows seen = []"
  by (induction rows seen rule: duplicates.induct) (force simp: hm.get_put hm.wf_put image_iff)+

lemma compact_no_op:
  assumes "queue_ok (ms_db s)"
  shows "compact_meta_queue_for_node io n s = (s, Some ())"
proof -
  have "duplicates (map (\<lambda>(sq, m). (sq, fm_id m)) (drain_meta_queue_for_node n s)) [] = []"
    by (rule duplicates_distinct)
      (use drain_distinct [OF assms, of n] in \<open>simp_all add: comp_def case_prod_unfold\<close>)
  then show ?thesis by (simp add: compact_meta_queue_for_node_def Let_def)
qed

lemma node_rows_insert:
  assumes "bt_wf q" and "\<forall>p \<in> set q. fst (fst p) = n \<longrightarrow> snd (fst p) < sq"
  shows "filter (\<lambda>p. fst (fst p) = n) (bt_insert (n, sq) v q) = filter (\<lambda>p. fst (fst p) = (n::NodeId)) q @ [((n, sq :: nat), v)]"
  using assms
proof (induction q)
  case (Cons p q)
  obtain n' sq' v' where p: "p = ((n', sq'), v')" by (metis prod.collapse)
  have IH: "filter (\<lambda>p. fst (fst p) = n) (bt_insert (n, sq) v q) = filter (\<lambda>p. fst (fst p) = n) q @ [((n, sq), v)]"
    by (rule Cons.IH) (use Cons.prems in \<open>auto simp: bt_wf_def\<close>)
  show ?case
  proof (cases "(n, sq) < (n', sq')")
    case True
    with Cons.prems(2) p have n: "n < n'" by (auto simp: less_prod_def)
    have "n < fst (fst x)" if "x \<in> set q" for x
    proof -
      from Cons.prems(1) that p have "(n', sq') < fst x" by (simp add: bt_wf_def)
      with n show ?thesis by (auto simp: less_prod_def)
    qed
    then have "filter (\<lambda>p. fst (fst p) = n) q = []" by (auto simp: filter_empty_conv)
    with True n p show ?thesis by auto
  next
    case False
    with Cons.prems(2) p IH show ?thesis by auto
  qed
qed simp

lemma drain_enqueue:
  assumes ok: "queue_ok (ms_db s)" and last: "\<forall>p \<in> set (drain_meta_queue_for_node n s). fst p < sq"
  shows "drain_meta_queue_for_node n (s\<lparr>ms_db := enqueue_in_txn n sq m (ms_db s)\<rparr>) =
    filter (\<lambda>p. fm_id (snd p) \<noteq> fm_id m) (drain_meta_queue_for_node n s) @ [(sq, m)]"
proof -
  note Q = queue_okD [OF ok]
  let ?q = "db_meta_queue (ms_db s)" and ?old = "hm_get (db_meta_idx (ms_db s)) (n, fm_id m)"
  let ?g = "\<lambda>((_, sq), v). map_option (\<lambda>m. (sq, m)) (good (Some v))"
  define q where "q = filter (\<lambda>p. \<not> (fst (fst p) = n \<and> ?old = Some (snd (fst p)))) ?q"
  have rm: "(case ?old of None \<Rightarrow> ?q | Some o' \<Rightarrow> bt_remove (n, o') ?q) = q"
    by (cases ?old) (auto simp: q_def bt_remove_def intro!: filter_cong)
  have row: "\<exists>x. v = Good x \<and> hm_get (db_meta_idx (ms_db s)) (n', fm_id x) = Some sq'"
    if "((n', sq'), v) \<in> set ?q" for n' sq' v
    using Q(3) [of n' sq' v] that by (simp add: bt_map_of [OF Q(1)])
  have "\<forall>p \<in> set q. fst (fst p) = n \<longrightarrow> snd (fst p) < sq"
  proof (intro ballI impI)
    fix p assume p: "p \<in> set q" "fst (fst p) = n"
    from p(2) obtain sq' v where v1: "p = ((n, sq'), v)" by (metis prod.collapse)
    with p(1) have v: "p = ((n, sq'), v)" "((n, sq'), v) \<in> set ?q" by (simp_all add: q_def)
    from row [OF v(2)] obtain x where "v = Good x" by blast
    with v have "(sq', x) \<in> set (drain_meta_queue_for_node n s)" by (simp add: drain_mem [OF ok] bt_map_of [OF Q(1)])
    with last v(1) show "snd (fst p) < sq" by auto
  qed
  moreover have "bt_wf q" using Q(1) by (simp add: q_def bt_wf_def sorted_wrt_map sorted_wrt_filter)
  ultimately have rows: "node_rows n (enqueue_in_txn n sq m (ms_db s)) = filter (\<lambda>p. fst (fst p) = n) q @ [((n, sq), Good m)]"
    using node_rows_insert [of q n sq "Good m"] by (simp add: node_rows_def enqueue_in_txn_def rm Let_def)
  have "filter (\<lambda>p. fst (fst p) = n) q = filter (\<lambda>p. ?old \<noteq> Some (snd (fst p))) (node_rows n (ms_db s))"
    by (auto simp: q_def node_rows_def filter_filter intro!: filter_cong)
  also have "List.map_filter ?g \<dots> = filter (\<lambda>p. fm_id (snd p) \<noteq> fm_id m) (List.map_filter ?g (node_rows n (ms_db s)))"
  proof (rule map_filter_filter)
    fix p y assume p: "p \<in> set (node_rows n (ms_db s))" and y: "?g p = Some y"
    from p obtain sq' v where v: "p = ((n, sq'), v)" by (metis (mono_tags, lifting) mem_Collect_eq node_rows_def prod.collapse set_filter)
    with y obtain x where "v = Good x" by (cases v) auto
    with p y v have x: "p = ((n, sq'), Good x)" "((n, sq'), Good x) \<in> set ?q" "y = (sq', x)"
      by (simp_all add: node_rows_def)
    from row [OF x(2)] Q(4) [of n "fm_id m" sq'] x show "(?old \<noteq> Some (snd (fst p))) = (fm_id (snd y) \<noteq> fm_id m)"
      by (auto simp: bt_map_of [OF Q(1)] dest: eq_key_imp_eq_value [OF bt_wf_distinct [OF Q(1)]])
  qed
  finally show ?thesis by (simp add: drain_meta_queue_for_node_def rows List.map_filter_def)
qed

section \<open>Properties\<close>


text \<open>
  An acknowledgement removes exactly the entries it acknowledges, also when it was computed
  before other updates were queued: with only larger sequence numbers queued in between, the node's
  queue keeps the entries above \<open>up_to\<close>, the queues of the other nodes keep everything, and queue and
  index stay in step.
\<close>

theorem ack_exact:
  assumes "queue_ok (ms_db s)" and "queue_ok (ms_db s')" and "grown n up_to (ms_db s) (ms_db s')"
  shows "let t = s'\<lparr>ms_db := ack_remove (ack_rows n up_to (ms_db s)) (ms_db s')\<rparr>
    in queue_ok (ms_db t) \<and>
       drain_meta_queue_for_node n t = filter (\<lambda>p. fst p > up_to) (drain_meta_queue_for_node n s') \<and>
       (\<forall>n'. n' \<noteq> n \<longrightarrow> drain_meta_queue_for_node n' t = drain_meta_queue_for_node n' s')"
proof -
  note rows = ack_node_rows [OF assms(1,3,2)]
  have "List.map_filter (\<lambda>((_, sq), v). map_option (\<lambda>m. (sq, m)) (good (Some v)))
          (filter (\<lambda>p. snd (fst p) > up_to) (node_rows n (ms_db s'))) =
        filter (\<lambda>p. fst p > up_to) (List.map_filter (\<lambda>((_, sq), v). map_option (\<lambda>m. (sq, m)) (good (Some v)))
          (node_rows n (ms_db s')))"
    by (rule map_filter_filter) auto
  with ack_queue_ok [OF assms] show ?thesis
    by (simp add: Let_def drain_meta_queue_for_node_def rows)
qed

definition sample_record :: "nat \<Rightarrow> string \<Rightarrow> nat \<Rightarrow> FileMetadata" where
  "sample_record i path sq = (new_FileMetadata 0 (FileId (word_of_nat i)) path RegularFile)\<lparr>fm_write_seq := sq\<rparr>"

definition sample_queue :: MetadataStore where
  "sample_queue = new_MetadataStore True
     (enqueue_in_txn (NodeId 9) 2 (sample_record 2 ''/b'' 1) (enqueue_in_txn (NodeId 9) 1 (sample_record 1 ''/a'' 1) empty_db))"

lemma queue_ok_empty: "queue_ok empty_db"
  by (simp add: queue_ok_def empty_db_def bt_wf_def)

lemma sample_queue_ok: "queue_ok (ms_db sample_queue)"
  unfolding sample_queue_def new_MetadataStore_def MetadataStore.simps
  by (rule enqueue_queue_ok [OF enqueue_queue_ok [OF queue_ok_empty]])
    (simp_all add: enqueue_in_txn_def empty_db_def sample_record_def new_FileMetadata_def hm_get_def hm_insert_def)

lemmas sample_queue_simps = sample_queue_def new_MetadataStore_def drain_meta_queue_for_node_def node_rows_def
  enqueue_in_txn_def empty_db_def sample_record_def new_FileMetadata_def hm_get_def hm_insert_def
  List.map_filter_simps less_prod_def less_NodeId_def


theorem ack_exact_witness:
  "map fst (drain_meta_queue_for_node (NodeId 9)
     (sample_queue\<lparr>ms_db := ack_remove (ack_rows (NodeId 9) 1 (ms_db sample_queue)) (ms_db sample_queue)\<rparr>)) = [2]"
  using ack_exact [OF sample_queue_ok sample_queue_ok, of "NodeId 9" 1]
  by (simp add: Let_def grown_def) (simp add: sample_queue_simps)

end
