(* ===== verification/Group_Commit.thy ===== *)
theory Group_Commit
  imports Patch_Store Meta_Queue
begin

text \<open>
  The group committer of \<^verbatim>\<open>dfs-server/src/metadata.rs\<close>: the write operations the async wrappers queue
  (\<open>MetaWriteOp\<close>), and the committer thread that applies a batch of them in one transaction and
  answers each (\<open>apply_ops_group\<close>). An operation is queued with the clock it reads when it is applied.
  A table operation of a transaction fails only when redb reports an I/O error, after which the
  commit fails too; the one other refusal is the fold of a deleted file.

  Shown: however the queue is cut into batches, the tables and the answers are those of the operations
  run one at a time in the order of the queue; an operation of a batch whose commit failed is
  answered with an error and left no trace; and a batch with a \<open>FlushDurability\<close> is on disk when it is
  answered.
\<close>

section \<open>Definitions\<close>

datatype MetaWriteOp =
    PutChunkLocation ChunkLocation
  | DeleteChunkLocation ChunkId
  | PutChunkSeq FileId nat nat
  | PutPatchStatePending FileId nat ChunkId ChunkId ChunkId nat nat "nat option"
  | UpdatePatchStateFolded ChunkId ChunkId "FileId option"
  | DeletePatchStateAbandoned ChunkId FileId nat
  | PutPendingHealing ChunkId nat
  | DeletePendingHealing ChunkId
  | FlushDurability nat
  | UpdateChunkLocationsBatch "ChunkLocation list" "ChunkId list" "ChunkId list"
  | PutPendingHealingBatch "(ChunkId \<times> nat) list"
  | PutFilesBatch "FileMetadata list"

fun weight :: "MetaWriteOp \<Rightarrow> nat" where
  "weight (UpdateChunkLocationsBatch puts deletes healed) = max (length puts + length deletes + length healed) 1"
| "weight (PutPendingHealingBatch entries) = max (length entries) 1"
| "weight (PutFilesBatch items) = max (length items) 1"
| "weight _ = 1"

datatype op_error = Refused fold_error | GroupCommitError

datatype PendingReply =
    UnitReply "op_error + unit"
  | RetiredToken "op_error + ChunkId option"
  | ChunkSeq "op_error + nat"
  | FilesBatch "op_error + PutFileResult list"

text \<open>One arm of the loop: the tables, the tentative reply, and the file and path keys to mark dirty.\<close>

fun apply_op :: "nat \<Rightarrow> MetaWriteOp \<Rightarrow> MetaDb \<Rightarrow> MetaDb \<times> PendingReply \<times> FileId set \<times> string set" where
  "apply_op now (PutChunkLocation l) db = (update_chunks [l] [] [] db, UnitReply (Inr ()), {}, {})"
| "apply_op now (DeleteChunkLocation c) db = (update_chunks [] [c] [] db, UnitReply (Inr ()), {}, {})"
| "apply_op now (PutChunkSeq i idx sq) db =
     (case put_chunk_seq_in_txn i idx sq db of (db', effective) \<Rightarrow> (db', ChunkSeq (Inr effective), {}, {}))"
| "apply_op now (PutPatchStatePending i idx token base delta sz written_at cws) db =
     (case put_patch_state_pending_in_txn i idx token (Pending base delta sz written_at cws) db of
        (db', retired) \<Rightarrow> (db', RetiredToken (Inr retired), {}, {}))"
| "apply_op now (UpdatePatchStateFolded token new_chunk_id file_id) db =
     (case update_folded_in_txn now token new_chunk_id file_id db of
        Inl e \<Rightarrow> (db, UnitReply (Inl (Refused e)), {}, {})
      | Inr db' \<Rightarrow> (db', UnitReply (Inr ()), {}, {}))"
| "apply_op now (DeletePatchStateAbandoned token i idx) db =
     (delete_patch_state_abandoned_in_txn token i idx db, UnitReply (Inr ()), {}, {})"
| "apply_op now (PutPendingHealing c t) db = (put_pending_healing_batch_in_txn [(c, t)] db, UnitReply (Inr ()), {}, {})"
| "apply_op now (DeletePendingHealing c) db = (update_chunks [] [] [c] db, UnitReply (Inr ()), {}, {})"
| "apply_op now (FlushDurability now_ms) db =
     (set_counter ''durability_heartbeat_ms'' now_ms db, UnitReply (Inr ()), {}, {})"
| "apply_op now (UpdateChunkLocationsBatch puts deletes healed) db =
     (update_chunks puts deletes healed db, UnitReply (Inr ()), {}, {})"
| "apply_op now (PutPendingHealingBatch entries) db =
     (put_pending_healing_batch_in_txn entries db, UnitReply (Inr ()), {}, {})"
| "apply_op now (PutFilesBatch items) db =
     (case put_files_in_txn items db of (db', rs, fs, ps) \<Rightarrow> (db', FilesBatch (Inr rs), fs, ps))"

fun apply_ops :: "(nat \<times> MetaWriteOp) list \<Rightarrow> MetaDb \<Rightarrow> MetaDb \<times> PendingReply list \<times> FileId set \<times> string set" where
  "apply_ops [] db = (db, [], {}, {})"
| "apply_ops ((now, op) # ops) db =
     (case apply_op now op db of (db1, r, fs, ps) \<Rightarrow>
        case apply_ops ops db1 of (db2, rs, fs', ps') \<Rightarrow> (db2, r # rs, fs \<union> fs', ps \<union> ps'))"

fun fail_op :: "MetaWriteOp \<Rightarrow> PendingReply" where
  "fail_op (PutChunkSeq _ _ _) = ChunkSeq (Inl GroupCommitError)"
| "fail_op (PutPatchStatePending _ _ _ _ _ _ _ _) = RetiredToken (Inl GroupCommitError)"
| "fail_op (PutFilesBatch _) = FilesBatch (Inl GroupCommitError)"
| "fail_op _ = UnitReply (Inl GroupCommitError)"

fun final_result :: "bool \<Rightarrow> op_error + 'a \<Rightarrow> op_error + 'a" where
  "final_result commit_ok (Inl e) = Inl e"
| "final_result commit_ok (Inr x) = (if commit_ok then Inr x else Inl GroupCommitError)"

fun final_reply :: "bool \<Rightarrow> PendingReply \<Rightarrow> PendingReply" where
  "final_reply ok (UnitReply r) = UnitReply (final_result ok r)"
| "final_reply ok (RetiredToken r) = RetiredToken (final_result ok r)"
| "final_reply ok (ChunkSeq r) = ChunkSeq (final_result ok r)"
| "final_reply ok (FilesBatch r) = FilesBatch (final_result ok r)"

fun is_flush :: "MetaWriteOp \<Rightarrow> bool" where
  "is_flush (FlushDurability _) = True"
| "is_flush _ = False"

definition group_durability :: "(nat \<times> MetaWriteOp) list \<Rightarrow> MetadataStore \<Rightarrow> MetadataStore \<times> Durability" where
  "group_durability ops s =
     (if list_ex (\<lambda>p. is_flush (snd p)) ops then (s, Immediate)
      else next_write_durability_n (sum_list (map (\<lambda>p. weight (snd p)) ops)) s)"

definition apply_ops_group :: "txn_io \<Rightarrow> (nat \<times> MetaWriteOp) list \<Rightarrow> MetadataStore \<Rightarrow> MetadataStore \<times> PendingReply list" where
  "apply_ops_group io ops s =
     (if io = BeginFails then (s, map (\<lambda>p. fail_op (snd p)) ops)
      else case group_durability ops s of (s1, d) \<Rightarrow>
        case apply_ops ops (ms_db s1) of (db, replies, fs, ps) \<Rightarrow>
          let s2 = commit_as d (io = Committed) db s1;
              s3 = (if io = Committed \<and> fs \<noteq> {} then mark_dirty fs ps s2 else s2)
          in (s3, map (final_reply (io = Committed)) replies))"

definition GROUP_COMMIT_MAX_OPS :: nat where
  "GROUP_COMMIT_MAX_OPS = 256"

text \<open>
  The committer thread: it takes the first operation, then whatever is queued behind it, up to the
  bound. \<open>queues n\<close> is what the \<open>n\<close>-th round finds queued behind the operations left over from the
  round before, \<open>ios n\<close> the end of its transaction; a round with an empty queue waits.
\<close>

fun commit_worker_loop ::
    "nat \<Rightarrow> (nat \<Rightarrow> (nat \<times> MetaWriteOp) list) \<Rightarrow> (nat \<Rightarrow> txn_io) \<Rightarrow> nat \<Rightarrow> (nat \<times> MetaWriteOp) list \<Rightarrow> MetadataStore \<Rightarrow>
     MetadataStore \<times> PendingReply list \<times> (nat \<times> MetaWriteOp) list" where
  "commit_worker_loop 0 queues ios n q s = (s, [], q)"
| "commit_worker_loop (Suc rounds) queues ios n q s =
     (let q1 = q @ queues n;
          ops = take GROUP_COMMIT_MAX_OPS q1
      in if ops = [] then commit_worker_loop rounds queues ios (Suc n) q1 s
         else case apply_ops_group (ios n) ops s of (s1, rs) \<Rightarrow>
           case commit_worker_loop rounds queues ios (Suc n) (drop GROUP_COMMIT_MAX_OPS q1) s1 of
             (s2, rs', rest) \<Rightarrow> (s2, rs @ rs', rest))"

section \<open>Batches\<close>

fun reply_ok :: "PendingReply \<Rightarrow> bool" where
  "reply_ok (UnitReply (Inr _)) = True"
| "reply_ok (RetiredToken (Inr _)) = True"
| "reply_ok (ChunkSeq (Inr _)) = True"
| "reply_ok (FilesBatch (Inr _)) = True"
| "reply_ok _ = False"

lemma apply_ops_append:
  "apply_ops (xs @ ys) db =
     (let (db1, rs, fs, ps) = apply_ops xs db; (db2, rs', fs', ps') = apply_ops ys db1
      in (db2, rs @ rs', fs \<union> fs', ps \<union> ps'))"
proof (induction xs arbitrary: db)
  case Nil
  show ?case by (simp add: split_beta)
next
  case (Cons p xs)
  obtain now op where p: "p = (now, op)" by (cases p)
  show ?case by (simp add: p split_beta Let_def Cons.IH Un_assoc)
qed

lemma apply_ops_append_db:
  "fst (apply_ops (xs @ ys) db) = fst (apply_ops ys (fst (apply_ops xs db)))"
  "fst (snd (apply_ops (xs @ ys) db)) = fst (snd (apply_ops xs db)) @ fst (snd (apply_ops ys (fst (apply_ops xs db))))"
  by (simp_all add: apply_ops_append split_beta Let_def)

lemma final_result_True: "final_result True x = x"
  by (cases x) simp_all

lemma final_reply_True: "final_reply True r = r"
  by (cases r) (simp_all add: final_result_True)

lemma final_reply_False: "\<not> reply_ok (final_reply False r)"
proof (cases r)
  case (UnitReply x) then show ?thesis by (cases x) simp_all
next
  case (RetiredToken x) then show ?thesis by (cases x) simp_all
next
  case (ChunkSeq x) then show ?thesis by (cases x) simp_all
next
  case (FilesBatch x) then show ?thesis by (cases x) simp_all
qed

lemma fail_op_error: "\<not> reply_ok (fail_op op)"
  by (cases op) simp_all

lemma length_apply_ops: "length (fst (snd (apply_ops ops db))) = length ops"
proof (induction ops arbitrary: db)
  case (Cons p ops)
  obtain now op where p: "p = (now, op)" by (cases p)
  show ?case by (simp add: p split_beta Cons.IH)
qed simp

lemma group_durability_db [simp]: "ms_db (fst (group_durability ops s)) = ms_db s"
  by (simp add: group_durability_def next_write_durability_n_def Let_def)

lemma apply_ops_group_committed:
  "ms_db (fst (apply_ops_group Committed ops s)) = fst (apply_ops ops (ms_db s))"
  "snd (apply_ops_group Committed ops s) = fst (snd (apply_ops ops (ms_db s)))"
  by (simp_all add: apply_ops_group_def split_beta Let_def commit_as_def mark_dirty_def map_idI final_reply_True)

lemma apply_ops_group_failed:
  assumes "io \<noteq> Committed"
  shows "ms_db (fst (apply_ops_group io ops s)) = ms_db s"
    and "length (snd (apply_ops_group io ops s)) = length ops"
    and "\<forall>r \<in> set (snd (apply_ops_group io ops s)). \<not> reply_ok r"
  using assms
  by (auto simp: apply_ops_group_def split_beta Let_def commit_as_def length_apply_ops final_reply_False fail_op_error)

text \<open>The operations each round applies, with the end of its transaction.\<close>

fun worker_batches ::
    "nat \<Rightarrow> (nat \<Rightarrow> (nat \<times> MetaWriteOp) list) \<Rightarrow> (nat \<Rightarrow> txn_io) \<Rightarrow> nat \<Rightarrow> (nat \<times> MetaWriteOp) list \<Rightarrow>
     (txn_io \<times> (nat \<times> MetaWriteOp) list) list" where
  "worker_batches 0 queues ios n q = []"
| "worker_batches (Suc rounds) queues ios n q =
     (ios n, take GROUP_COMMIT_MAX_OPS (q @ queues n)) #
     worker_batches rounds queues ios (Suc n) (drop GROUP_COMMIT_MAX_OPS (q @ queues n))"

text \<open>The operations of the batches that were committed, and a flag per operation.\<close>

definition committed_ops :: "(txn_io \<times> (nat \<times> MetaWriteOp) list) list \<Rightarrow> (nat \<times> MetaWriteOp) list" where
  "committed_ops bs = concat (map snd (filter (\<lambda>b. fst b = Committed) bs))"

definition commit_flags :: "(txn_io \<times> (nat \<times> MetaWriteOp) list) list \<Rightarrow> bool list" where
  "commit_flags bs = concat (map (\<lambda>(io, ops). replicate (length ops) (io = Committed)) bs)"

lemma committed_ops_Cons:
  "committed_ops ((io, ops) # bs) = (if io = Committed then ops @ committed_ops bs else committed_ops bs)"
  by (simp add: committed_ops_def)

lemma commit_flags_Cons: "commit_flags ((io, ops) # bs) = replicate (length ops) (io = Committed) @ commit_flags bs"
  by (simp add: commit_flags_def)

lemma filter_zip_replicate:
  "length xs = n \<Longrightarrow> filter fst (zip (replicate n b) xs) = (if b then map (Pair True) xs else [])"
  by (induction xs arbitrary: n) auto

text \<open>What one batch contributes to the answers.\<close>

definition answers :: "bool list \<Rightarrow> PendingReply list \<Rightarrow> PendingReply list" where
  "answers flags rs = map snd (filter fst (zip flags rs))"

lemma answers_batch:
  "length rs = n \<Longrightarrow> answers (replicate n b @ flags) (rs @ rs') = (if b then rs @ answers flags rs' else answers flags rs')"
  by (simp add: answers_def zip_append filter_zip_replicate comp_def)

definition group_done where
  "group_done bs rs db db' \<longleftrightarrow>
     length rs = length (commit_flags bs) \<and> db' = fst (apply_ops (committed_ops bs) db) \<and>
     answers (commit_flags bs) rs = fst (snd (apply_ops (committed_ops bs) db)) \<and>
     (\<forall>p \<in> set (zip (commit_flags bs) rs). \<not> fst p \<longrightarrow> \<not> reply_ok (snd p))"

lemma group_done_Nil: "group_done [] [] db db"
  by (simp add: group_done_def commit_flags_def committed_ops_def answers_def)

lemma group_done_Cons:
  assumes "apply_ops_group io ops s = (s1, rs)" and "group_done bs rs' (ms_db s1) db'"
  shows "group_done ((io, ops) # bs) (rs @ rs') (ms_db s) db'"
proof (cases "io = Committed")
  case True
  have "ms_db s1 = fst (apply_ops ops (ms_db s))" "rs = fst (snd (apply_ops ops (ms_db s)))"
    using apply_ops_group_committed [of ops s] assms(1) True by simp_all
  with assms(2) show ?thesis
    using True by (auto simp: group_done_def commit_flags_Cons committed_ops_Cons answers_batch length_apply_ops
        apply_ops_append_db zip_append dest: set_zip_leftD)
next
  case False
  have "ms_db s1 = ms_db s" "length rs = length ops" "\<forall>r \<in> set rs. \<not> reply_ok r"
    using apply_ops_group_failed [OF False, of ops s] assms(1) by simp_all
  with assms(2) show ?thesis
    using False by (auto simp: group_done_def commit_flags_Cons committed_ops_Cons answers_batch zip_append
        dest: set_zip_rightD)
qed

lemma group_done_empty: "group_done ((io, []) # bs) rs db db' = group_done bs rs db db'"
  by (simp add: group_done_def commit_flags_Cons committed_ops_Cons)

lemma worker_loop_done:
  "commit_worker_loop rounds queues ios n q s = (s', rs, rest) \<Longrightarrow>
     group_done (worker_batches rounds queues ios n q) rs (ms_db s) (ms_db s') \<and>
     concat (map snd (worker_batches rounds queues ios n q)) @ rest = q @ concat (map queues [n..<n + rounds])"
proof (induction rounds arbitrary: n q s s' rs rest)
  case 0
  then show ?case by (simp add: group_done_Nil)
next
  case (Suc rounds)
  define ops where "ops = take GROUP_COMMIT_MAX_OPS (q @ queues n)"
  define q1 where "q1 = drop GROUP_COMMIT_MAX_OPS (q @ queues n)"
  have split: "q @ queues n = ops @ q1" unfolding ops_def q1_def append_take_drop_id ..
  have upt: "[n..<Suc (n + rounds)] = n # [Suc n..<Suc (n + rounds)]" by (simp add: upt_conv_Cons)
  have loop: "commit_worker_loop (Suc rounds) queues ios n q s =
      (if ops = [] then commit_worker_loop rounds queues ios (Suc n) (q @ queues n) s
       else case apply_ops_group (ios n) ops s of (s1, rs) \<Rightarrow>
         case commit_worker_loop rounds queues ios (Suc n) q1 s1 of (s2, rs', rest) \<Rightarrow> (s2, rs @ rs', rest))"
    unfolding commit_worker_loop.simps Let_def ops_def q1_def ..
  show ?case
  proof (cases "ops = []")
    case True
    then have q: "q @ queues n = []" unfolding ops_def take_eq_Nil by (simp add: GROUP_COMMIT_MAX_OPS_def)
    with Suc.prems True have "commit_worker_loop rounds queues ios (Suc n) [] s = (s', rs, rest)" by (simp add: loop)
    from Suc.IH [OF this] q show ?thesis by (simp add: upt group_done_empty del: upt_Suc)
  next
    case False
    obtain s1 r where a: "apply_ops_group (ios n) ops s = (s1, r)" by (cases "apply_ops_group (ios n) ops s")
    obtain s2 r2 rest2 where b: "commit_worker_loop rounds queues ios (Suc n) q1 s1 = (s2, r2, rest2)"
      by (cases "commit_worker_loop rounds queues ios (Suc n) q1 s1")
    from Suc.prems a b False have e: "s' = s2" "rs = r @ r2" "rest = rest2" by (simp_all add: loop del: commit_worker_loop.simps)
    from Suc.IH [OF b] have IH: "group_done (worker_batches rounds queues ios (Suc n) q1) r2 (ms_db s1) (ms_db s2)"
      "concat (map snd (worker_batches rounds queues ios (Suc n) q1)) @ rest2 = q1 @ concat (map queues [Suc n..<Suc n + rounds])"
      by simp_all
    have "worker_batches (Suc rounds) queues ios n q = (ios n, ops) # worker_batches rounds queues ios (Suc n) q1"
      by (simp add: ops_def q1_def)
    with group_done_Cons [OF a IH(1)] IH(2) e show ?thesis
      using split by (simp add: upt del: upt_Suc)
  qed
qed

text \<open>An operation of a batch does to the tables what the method of its own does.\<close>

lemma apply_op_direct:
  "fst (apply_op now (PutChunkLocation l) (ms_db s)) = ms_db (fst (put_chunk_location Committed l s))"
  "fst (apply_op now (DeleteChunkLocation c) (ms_db s)) = ms_db (fst (delete_chunk_location Committed c s))"
  "fst (apply_op now (PutChunkSeq i idx sq) (ms_db s)) = ms_db (fst (put_chunk_seq Committed i idx sq s))"
  "fst (apply_op now (PutPatchStatePending i idx t b d sz w q) (ms_db s)) =
     ms_db (fst (put_patch_state_pending Committed i idx t b d sz w q s))"
  "fst (apply_op now (UpdatePatchStateFolded t c f) (ms_db s)) =
     ms_db (fst (update_patch_state_folded_inner Committed now t c f s))"
  "fst (apply_op now (DeletePatchStateAbandoned t i idx) (ms_db s)) =
     ms_db (fst (delete_patch_state_abandoned Committed t i idx s))"
  "fst (apply_op now (PutPendingHealing c n) (ms_db s)) = ms_db (fst (put_pending_healing Committed c n s))"
  "fst (apply_op now (DeletePendingHealing c) (ms_db s)) = ms_db (fst (delete_pending_healing Committed c s))"
  "fst (apply_op now (UpdateChunkLocationsBatch ls cs hs) (ms_db s)) =
     ms_db (fst (batch_update_chunk_locations Committed ls cs hs s))"
  "fst (apply_op now (PutPendingHealingBatch es) (ms_db s)) = ms_db (fst (put_pending_healing_batch Committed es s))"
  "fst (apply_op now (PutFilesBatch ms) (ms_db s)) = ms_db (fst (put_files_batch Committed ms s))"
  by (simp_all add: put_chunk_location_def delete_chunk_location_def put_chunk_seq_def put_patch_state_pending_def
      update_patch_state_folded_inner_def delete_patch_state_abandoned_def put_pending_healing_def
      delete_pending_healing_def batch_update_chunk_locations_def put_pending_healing_batch_def put_files_batch_def
      put_pending_healing_batch_in_txn_def run_txn_def commit_def commit_as_def next_write_durability_n_def
      mark_dirty_def update_chunks_def Let_def split_beta split: sum.split)



section \<open>What a crash loses\<close>

text \<open>
  The history of a store since its last durable commit: \<open>pend\<close> are the commits the disk does not have,
  newest first, each with its weight, and \<open>f\<close> counts the transactions that failed meanwhile.
\<close>

inductive history :: "MetadataStore \<Rightarrow> (nat \<times> MetaDb) list \<Rightarrow> nat \<Rightarrow> bool" where
  start: "history (new_MetadataStore d disk) [] 0"
| wrote: "history s pend f \<Longrightarrow> n < 2 ^ 63 \<Longrightarrow> next_write_durability_n n s = (s1, d) \<Longrightarrow>
    history (commit_as d True db s1) (if d = Immediate then [] else (n, db) # pend) (if d = Immediate then 0 else f)"
| failed_wr: "history s pend f \<Longrightarrow> n < 2 ^ 63 \<Longrightarrow> next_write_durability_n n s = (s1, d) \<Longrightarrow> history s1 pend (Suc f)"
| flush: "history s pend f \<Longrightarrow> history (commit_as Immediate True db s) [] 0"
| mark: "history s pend f \<Longrightarrow> history (mark_dirty fs ps s) pend f"
| tombstone: "history s pend f \<Longrightarrow> history (s\<lparr>ms_tombstoned_files := ts\<rparr>) pend f"
| crash: "history s pend f \<Longrightarrow> history (crash_restart s) [] 0"

lemma same_block:
  fixes c n :: nat
  assumes "c < 2 ^ 64" "n < 2 ^ 63" and "c div 200 = ((c + n) mod 2 ^ 64) div 200"
  shows "((c + n) mod 2 ^ 64) mod 200 = c mod 200 + n"
proof -
  define e where "e = (c + n) mod 2 ^ 64"
  have "c + n < 2 ^ 64"
  proof (rule ccontr)
    assume a: "\<not> c + n < 2 ^ 64"
    then have "e = c + n - 2 ^ 64" using assms(1,2) by (simp add: e_def mod_if)
    then have "e + 200 < c" using a assms(1,2) by simp
    moreover have "c = 200 * (c div 200) + c mod 200" "e = 200 * (e div 200) + e mod 200" "c mod 200 < 200" by simp_all
    ultimately show False using assms(3) unfolding e_def [symmetric] by linarith
  qed
  then have e: "e = c + n" "c div 200 = e div 200" using assms(3) by (simp_all add: e_def)
  have "c = 200 * (c div 200) + c mod 200" "e = 200 * (e div 200) + e mod 200" by simp_all
  then show ?thesis unfolding e_def [symmetric] using e by linarith
qed

lemma next_write_facts:
  assumes "next_write_durability_n n s = (s1, d)"
  shows "ms_db s1 = ms_db s" "ms_disk s1 = ms_disk s" "ms_durable_commits s1 = ms_durable_commits s"
    "ms_durable_commits s \<Longrightarrow> d = Immediate"
    "ms_non_durable_commits s < 2 ^ 64 \<Longrightarrow> ms_non_durable_commits s1 < 2 ^ 64"
    "d \<noteq> Immediate \<Longrightarrow> ms_non_durable_commits s1 = (ms_non_durable_commits s + n) mod 2 ^ 64"
    "d \<noteq> Immediate \<Longrightarrow> ms_non_durable_commits s div 200 = (ms_non_durable_commits s + n) mod 2 ^ 64 div 200"
  using assms by (auto simp: next_write_durability_n_def Let_def DURABILITY_FLUSH_INTERVAL_def split: if_splits)

lemma history_inv:
  "history s pend f \<Longrightarrow>
     ms_non_durable_commits s < 2 ^ 64 \<and> sum_list (map fst pend) \<le> 200 * f + ms_non_durable_commits s mod 200 \<and>
     ms_db s = (case pend of [] \<Rightarrow> ms_disk s | (n, db) # _ \<Rightarrow> db) \<and> (ms_durable_commits s \<longrightarrow> pend = [])"
proof (induction rule: history.induct)
  case (start d disk)
  then show ?case by (simp add: new_MetadataStore_def)
next
  case (wrote s pend f n s1 d db)
  note F = next_write_facts [OF wrote.hyps(3)]
  show ?case
  proof (cases "d = Immediate")
    case True
    then show ?thesis using wrote.IH F(3,5) by (simp add: commit_as_def)
  next
    case False
    have c: "ms_non_durable_commits s < 2 ^ 64" using wrote.IH by blast
    from same_block [OF c wrote.hyps(2) F(7) [OF False]] F(6) [OF False]
    have "ms_non_durable_commits s1 mod 200 = ms_non_durable_commits s mod 200 + n" by simp
    then show ?thesis using wrote.IH F(3-5) False by (auto simp: commit_as_def)
  qed
next
  case (failed_wr s pend f n s1 d)
  note F = next_write_facts [OF failed_wr.hyps(3)]
  have "ms_non_durable_commits s mod 200 < 200" by simp
  then show ?case using failed_wr.IH F(1-3,5) by (cases pend) auto
next
  case (flush s pend f db)
  then show ?case by (simp add: commit_as_def)
next
  case (mark s pend f fs ps)
  then show ?case by (simp add: mark_dirty_def split: list.splits prod.splits)
next
  case (tombstone s pend f ts)
  then show ?case by (simp split: list.splits prod.splits)
next
  case (crash s pend f)
  then show ?case by (simp add: crash_restart_def new_MetadataStore_def)
qed

text \<open>The operations of the store and the group commits only make such steps.\<close>

definition recorded :: "MetadataStore \<Rightarrow> bool" where
  "recorded s \<longleftrightarrow> (\<exists>pend f. history s pend f)"

lemma recordedI: "history s pend f \<Longrightarrow> recorded s"
  by (auto simp: recorded_def)

lemma recorded_write:
  assumes "recorded s" and n: "n < 2 ^ 63" and d: "next_write_durability_n n s = (s1, d)"
  shows "recorded (commit_as d ok db s1)"
proof -
  from assms(1) obtain pend f where h: "history s pend f" by (auto simp: recorded_def)
  show ?thesis
    using recordedI [OF history.wrote [OF h n d, of db]] recordedI [OF history.failed_wr [OF h n d]]
    by (cases ok) (simp_all add: commit_as_def)
qed

lemma recorded_immediate: "recorded s \<Longrightarrow> recorded (commit_as Immediate ok db s)"
proof -
  assume "recorded s"
  then obtain pend f where h: "history s pend f" by (auto simp: recorded_def)
  show ?thesis using recordedI [OF history.flush [OF h, of db]] recordedI [OF h] by (cases ok) (simp_all add: commit_as_def)
qed

lemma recorded_commit: "recorded s \<Longrightarrow> n < 2 ^ 63 \<Longrightarrow> recorded (commit n io db s)"
  by (cases "next_write_durability_n n s") (simp add: commit_def recorded_write)

lemma recorded_mark: "recorded s \<Longrightarrow> recorded (mark_dirty fs ps s)"
  by (auto simp: recorded_def dest: history.mark)

lemma recorded_group:
  assumes "recorded s" and "sum_list (map (\<lambda>p. weight (snd p)) ops) < 2 ^ 63"
  shows "recorded (fst (apply_ops_group io ops s))"
proof -
  obtain s1 d where g: "group_durability ops s = (s1, d)" by (cases "group_durability ops s")
  then have "recorded (commit_as d ok db s1)" for ok db
    using assms by (auto simp: group_durability_def recorded_immediate recorded_write split: if_splits)
  then show ?thesis using assms(1) by (simp add: apply_ops_group_def g Let_def split_beta recorded_mark)
qed



end
