(* ===== verification/Metadata_Reach.thy ===== *)
theory Metadata_Reach
  imports Metadata_Laws Group_Commit
begin

text \<open>
  The reachable states of the metadata store, and what holds in all of them: the path index is
  sound, and what was deleted for good stays deleted.
\<close>

section \<open>The repairs and the other tables\<close>

lemma store_ok_remove_unlisted_files:
  assumes s: "store_ok s"
  shows "store_ok (fst (remove_unlisted_files io1 io2 live s))"
proof -
  define s1 where "s1 = (if unlisted_rows live (ms_db s) = [] then s
     else let c = commit 1 io1 (remove_rows (unlisted_rows live (ms_db s)) (ms_db s)) s
          in if io1 = Committed then mark_dirty (set (map fst (unlisted_rows live (ms_db s))))
                (set (map snd (unlisted_rows live (ms_db s)))) c else c)"
  have "db_tombstones (remove_rows r db) = db_tombstones db" for r db by (simp add: remove_rows_def)
  then have s1: "store_ok s1"
    using s db_ok_remove_rows [OF store_okD [OF s], of live] by (simp add: s1_def Let_def store_ok_commit)
  have live: "fm_id m \<in> live" if "unlisted_rows live (ms_db s) = [] \<or> io1 = Committed"
    "map_of (db_files (ms_db s1)) j = Some (Good m)" for j m
  proof -
    have wf: "bt_wf (db_files (ms_db s))" using store_okD [OF s] by (simp add: db_ok_def index_ok_def)
    have "db_files (ms_db s1) = db_files (remove_rows (unlisted_rows live (ms_db s)) (ms_db s))"
      using that(1) by (auto simp: s1_def Let_def ms_db_commit remove_rows_def)
    then show ?thesis using remove_rows_live [OF wf] that(2) by simp
  qed
  have ps: "store_ok (commit 1 io2 (remove_paths (unlisted_paths live (ms_db s1)) (ms_db s1)) s1)"
    if "unlisted_rows live (ms_db s) = [] \<or> io1 = Committed"
    using db_ok_remove_unlisted_paths [OF store_okD [OF s1] live [OF that]]
    by (intro store_ok_commit [OF s1]) (simp_all add: remove_paths_def)
  show ?thesis
    unfolding remove_unlisted_files_def Let_def s1_def [unfolded Let_def, symmetric]
    using s1 ps by auto
qed

lemma store_ok_repair_path_index:
  assumes s: "store_ok s"
  shows "store_ok (fst (repair_path_index io1 io2 s))"
proof -
  have "missing_paths (ms_db s) = []" using store_okD [OF s] by (simp add: db_ok_def missing_paths_Nil)
  moreover have "store_ok (commit 1 io2 (remove_paths (dangling_paths (ms_db s)) (ms_db s)) s)"
    using db_ok_remove_dangling_paths [OF store_okD [OF s]]
    by (intro store_ok_commit [OF s]) (simp_all add: remove_paths_def)
  ultimately show ?thesis using s by (auto simp: repair_path_index_def Let_def)
qed

lemma store_ok_new: "db_ok disk \<Longrightarrow> store_ok (new_MetadataStore d disk)"
  by (simp add: store_ok_def) (simp add: is_file_tombstoned_def file_tombstoned_def new_MetadataStore_def map_of_eq_None_iff)

lemma store_ok_crash: "store_ok s \<Longrightarrow> store_ok (crash_restart s)"
  unfolding crash_restart_def by (rule store_ok_new) (simp add: store_ok_def both_def)

lemma db_ok_chunk_seq: "db_ok db \<Longrightarrow> db_ok (fst (put_chunk_seq_in_txn i idx sq db))"
proof -
  assume ok: "db_ok db"
  then have D: "tomb_ok db" "index_ok (db_files db) (db_paths db)" "patch_ok (db_patch_slot db) (db_patch_state db)"
    by (simp_all add: db_ok_def)
  show ?thesis
  proof (cases "unwrap_or 0 (hm_get (db_chunk_seq db) (i, idx)) < sq \<and> \<not> file_tombstoned i db")
    case True
    let ?db = "db\<lparr>db_chunk_seq := hm_insert (i, idx) sq (db_chunk_seq db)\<rparr>"
    have "tomb_ok ?db"
      using tomb_okD(1) [OF D(1)] D(1) True
      by (auto simp: tomb_ok_def file_tombstoned_def hm.get_put hm.wf_put)
    then show ?thesis using True D(2,3) by (simp add: put_chunk_seq_in_txn_def Let_def db_ok_def)
  next
    case False
    then show ?thesis using ok by (auto simp: put_chunk_seq_in_txn_def Let_def)
  qed
qed

lemma db_ok_fold_announce:
  "db_ok db \<Longrightarrow> \<not> file_tombstoned (fa_file_id a) db \<Longrightarrow>
   db_ok (db\<lparr>db_fold_announce := bt_insert t (Good a) (db_fold_announce db)\<rparr>)"
  "db_ok db \<Longrightarrow> db_ok (db\<lparr>db_fold_announce := bt_remove t (db_fold_announce db)\<rparr>)"
  by (auto simp: db_ok_def tomb_ok_def file_tombstoned_def bt_wf_insert bt_wf_remove map_of_bt_insert map_of_bt_remove)

lemma store_ok_chunks:
  "store_ok s \<Longrightarrow> store_ok (fst (put_chunk_location io l s))"
  "store_ok s \<Longrightarrow> store_ok (fst (put_chunk_locations_batch io ls s))"
  "store_ok s \<Longrightarrow> store_ok (fst (delete_chunk_location io c s))"
  "store_ok s \<Longrightarrow> store_ok (fst (batch_update_chunk_locations io ls cs hs s))"
  "store_ok s \<Longrightarrow> store_ok (fst (rebuild_chunk_locations_from_files io s))"
  "store_ok s \<Longrightarrow> store_ok (fst (incr_chunk_refcount io c s))"
  "store_ok s \<Longrightarrow> store_ok (fst (decr_chunk_refcount io c s))"
  by (simp_all add: put_chunk_location_def put_chunk_locations_batch_def delete_chunk_location_def
      batch_update_chunk_locations_def rebuild_chunk_locations_from_files_def incr_chunk_refcount_def
      decr_chunk_refcount_def run_txn_def update_chunks_def Let_def split_beta store_ok_frame)

lemma store_ok_put_chunk_seq: "store_ok s \<Longrightarrow> store_ok (fst (put_chunk_seq io i idx sq s))"
proof -
  assume s: "store_ok s"
  have "db_tombstones (fst (put_chunk_seq_in_txn i idx sq (ms_db s))) = db_tombstones (ms_db s)"
    by (simp add: put_chunk_seq_in_txn_def Let_def)
  then show ?thesis using s by (simp add: put_chunk_seq_def split_beta store_ok_commit db_ok_chunk_seq store_okD)
qed

lemma store_ok_durability: "store_ok s \<Longrightarrow> store_ok (fst (next_write_durability_n n s))"
  using both_durability [of db_ok s n]
  by (simp add: store_ok_def is_file_tombstoned_def) (simp add: next_write_durability_n_def Let_def)

lemma patch_ok_pending:
  assumes ok: "patch_ok slots states"
  shows "patch_ok (hm_insert k t slots)
           (bt_insert t v (case hm_get slots k of None \<Rightarrow> states | Some r \<Rightarrow> bt_remove r states))"
proof (rule patch_okI)
  note D = patch_okD [OF ok]
  show "hm_wf (hm_insert k t slots)" using D(1) by (rule hm.wf_put)
  show "bt_wf (bt_insert t v (case hm_get slots k of None \<Rightarrow> states | Some r \<Rightarrow> bt_remove r states))"
    using D(2) by (simp add: bt_wf_insert bt_wf_remove split: option.split)
  fix u b d sz w q
  assume u: "map_of (bt_insert t v (case hm_get slots k of None \<Rightarrow> states | Some r \<Rightarrow> bt_remove r states)) u =
    Some (Good (Pending b d sz w q))"
  show "\<exists>j. hm_get (hm_insert k t slots) j = Some u"
  proof (cases "u = t")
    case True
    then show ?thesis by (intro exI [of _ k]) (simp add: hm.get_put [OF D(1)])
  next
    case False
    with u have u2: "hm_get slots k \<noteq> Some u" "map_of states u = Some (Good (Pending b d sz w q))"
      by (auto simp: map_of_bt_insert map_of_bt_remove split: option.splits if_splits)
    from D(3) [OF u2(2)] obtain j where "hm_get slots j = Some u" by auto
    with u2(1) show ?thesis by (intro exI [of _ j]) (auto simp: hm.get_put [OF D(1)])
  qed
qed

lemma patch_ok_drop:
  assumes ok: "patch_ok slots states" and wf: "hm_wf slots'" "bt_wf states'"
    and pending: "\<And>t b d sz w q. map_of states' t = Some (Good (Pending b d sz w q)) \<Longrightarrow>
      map_of states t = Some (Good (Pending b d sz w q)) \<and> (\<forall>k. hm_get slots k = Some t \<longrightarrow> hm_get slots' k = Some t)"
  shows "patch_ok slots' states'"
proof (rule patch_okI [OF wf])
  fix t b d sz w q assume t: "map_of states' t = Some (Good (Pending b d sz w q))"
  from pending [OF t] patch_okD(3) [OF ok, of t b d sz w q] show "\<exists>k. hm_get slots' k = Some t" by auto
qed

lemma db_ok_patch:
  "db_ok db \<Longrightarrow> db_files db' = db_files db \<Longrightarrow> db_paths db' = db_paths db \<Longrightarrow> db_tombstones db' = db_tombstones db \<Longrightarrow>
   db_chunk_seq db' = db_chunk_seq db \<Longrightarrow> db_fold_announce db' = db_fold_announce db \<Longrightarrow>
   patch_ok (db_patch_slot db') (db_patch_state db') \<Longrightarrow> db_ok db'"
  by (simp add: db_ok_def tomb_ok_def file_tombstoned_def)

lemma store_ok_pending: "store_ok s \<Longrightarrow> store_ok (fst (put_patch_state_pending io i idx t b d sz w q s))"
proof -
  assume s: "store_ok s"
  let ?db = "fst (put_patch_state_pending_in_txn i idx t (Pending b d sz w q) (ms_db s))"
  have "patch_ok (db_patch_slot (ms_db s)) (db_patch_state (ms_db s))" using store_okD [OF s] by (simp add: db_ok_def)
  from patch_ok_pending [OF this] have "patch_ok (db_patch_slot ?db) (db_patch_state ?db)"
    by (simp add: put_patch_state_pending_in_txn_def Let_def)
  then have "db_ok ?db"
    by (intro db_ok_patch [OF store_okD [OF s]]) (simp_all add: put_patch_state_pending_in_txn_def Let_def)
  moreover have "db_tombstones ?db = db_tombstones (ms_db s)" by (simp add: put_patch_state_pending_in_txn_def Let_def)
  ultimately show ?thesis using s by (simp add: put_patch_state_pending_def split_beta store_ok_commit)
qed

lemma store_ok_folded: "store_ok s \<Longrightarrow> store_ok (fst (update_patch_state_folded_inner io now t c f s))"
proof -
  assume s: "store_ok s"
  let ?db = "(ms_db s)\<lparr>db_patch_state := bt_insert t (Good (Folded c)) (db_patch_state (ms_db s)),
                      db_fold_ts := hm_insert t now (db_fold_ts (ms_db s))\<rparr>"
  have ok: "patch_ok (db_patch_slot (ms_db s)) (db_patch_state (ms_db s))" using store_okD [OF s] by (simp add: db_ok_def)
  have "patch_ok (db_patch_slot (ms_db s)) (bt_insert t (Good (Folded c)) (db_patch_state (ms_db s)))"
    by (rule patch_ok_drop [OF ok]) (use patch_okD(1,2) [OF ok] in \<open>auto simp: bt_wf_insert map_of_bt_insert split: if_splits\<close>)
  then have "db_ok ?db" by (intro db_ok_patch [OF store_okD [OF s]]) simp_all
  then have "store_ok (commit 1 io ?db s)" by (intro store_ok_commit [OF s]) simp_all
  then show ?thesis
    using s by (auto simp: update_patch_state_folded_inner_def update_folded_in_txn_def store_ok_durability split: option.split)
qed

lemma store_ok_abandoned: "store_ok s \<Longrightarrow> store_ok (fst (delete_patch_state_abandoned io t i idx s))"
proof -
  assume s: "store_ok s"
  let ?db = "delete_patch_state_abandoned_in_txn t i idx (ms_db s)"
  have ok: "patch_ok (db_patch_slot (ms_db s)) (db_patch_state (ms_db s))" using store_okD [OF s] by (simp add: db_ok_def)
  note D = patch_okD(1,2) [OF ok]
  have "patch_ok (db_patch_slot ?db) (db_patch_state ?db)"
    by (rule patch_ok_drop [OF ok])
      (use D in \<open>auto simp: delete_patch_state_abandoned_in_txn_def bt_wf_remove hm.wf_del hm.get_del map_of_bt_remove split: if_splits\<close>)
  then have "db_ok ?db"
    by (intro db_ok_patch [OF store_okD [OF s]]) (simp_all add: delete_patch_state_abandoned_in_txn_def)
  then show ?thesis
    using s by (simp add: delete_patch_state_abandoned_def run_txn_def store_ok_commit)
      (simp add: delete_patch_state_abandoned_in_txn_def store_ok_commit)
qed

lemma store_ok_remove_patch_state_rows: "store_ok s \<Longrightarrow> store_ok (fst (remove_patch_state_rows io ks s))"
proof -
  assume s: "store_ok s"
  let ?db = "(ms_db s)\<lparr>db_patch_state := fold bt_remove ks (db_patch_state (ms_db s)),
                      db_fold_ts := fold hm_remove ks (db_fold_ts (ms_db s))\<rparr>"
  have ok: "patch_ok (db_patch_slot (ms_db s)) (db_patch_state (ms_db s))" using store_okD [OF s] by (simp add: db_ok_def)
  note D = patch_okD(1,2) [OF ok]
  have "patch_ok (db_patch_slot (ms_db s)) (fold bt_remove ks (db_patch_state (ms_db s)))"
    by (rule patch_ok_drop [OF ok D(1) bt.wf_del_all [OF D(2)]]) (simp add: bt.get_del_all [OF D(2)] split: if_splits)
  then have "db_ok ?db" by (intro db_ok_patch [OF store_okD [OF s]]) simp_all
  then show ?thesis using s by (simp add: remove_patch_state_rows_def Let_def store_ok_commit)
qed

lemmas store_ok_patches = store_ok_pending store_ok_folded store_ok_abandoned store_ok_remove_patch_state_rows

lemma store_ok_fold_announce:
  "store_ok s \<Longrightarrow> store_ok (fst (put_pending_fold_announce io a s))"
  "store_ok s \<Longrightarrow> store_ok (fst (delete_pending_fold_announce io t s))"
  by (simp_all add: put_pending_fold_announce_def delete_pending_fold_announce_def run_txn_def store_ok_commit
      db_ok_fold_announce store_okD)

lemma store_ok_healing:
  "store_ok s \<Longrightarrow> store_ok (fst (put_pending_healing io c n s))"
  "store_ok s \<Longrightarrow> store_ok (fst (put_pending_healing_batch io es s))"
  "store_ok s \<Longrightarrow> store_ok (fst (delete_pending_healing io c s))"
  by (simp_all add: put_pending_healing_def put_pending_healing_batch_def put_pending_healing_batch_in_txn_def
      delete_pending_healing_def update_chunks_def run_txn_def store_ok_frame)

lemma ack_remove_frame:
  "db_files (ack_remove rows db) = db_files db \<and> db_paths (ack_remove rows db) = db_paths db \<and>
   db_tombstones (ack_remove rows db) = db_tombstones db \<and> db_chunk_seq (ack_remove rows db) = db_chunk_seq db \<and>
   db_fold_announce (ack_remove rows db) = db_fold_announce db \<and>
   db_patch_slot (ack_remove rows db) = db_patch_slot db \<and> db_patch_state (ack_remove rows db) = db_patch_state db"
  by (induction rows db rule: ack_remove.induct) (simp_all add: Let_def)

lemma store_ok_queues:
  "store_ok s \<Longrightarrow> store_ok (fst (next_meta_sequence io s))"
  "store_ok s \<Longrightarrow> store_ok (fst (put_leader_state io n k s))"
  "store_ok s \<Longrightarrow> store_ok (fst (set_follower_sequence io k s))"
  "store_ok s \<Longrightarrow> store_ok (fst (enqueue_meta_for_node io n k m s))"
  "store_ok s \<Longrightarrow> store_ok (fst (ack_meta_queue_for_node io n k s))"
  "store_ok s \<Longrightarrow> store_ok (fst (compact_meta_queue_for_node io n s))"
  "store_ok s \<Longrightarrow> store_ok (fst (enqueue_delete io e s))"
  "store_ok s \<Longrightarrow> store_ok (fst (dequeue_delete io i s))"
  by (simp_all add: next_meta_sequence_def put_leader_state_def set_follower_sequence_def enqueue_meta_for_node_def
      enqueue_in_txn_def ack_meta_queue_for_node_def compact_meta_queue_for_node_def enqueue_delete_def
      dequeue_delete_def set_counter_def Let_def ack_remove_frame store_ok_frame)

subsection \<open>Group commits\<close>

lemma db_ok_apply_op: "db_ok db \<Longrightarrow> db_ok (fst (apply_op now op db))"
proof -
  assume "db_ok db"
  then have s: "store_ok (new_MetadataStore True db)" by (rule store_ok_new)
  have db: "ms_db (new_MetadataStore True db) = db" by (simp add: new_MetadataStore_def)
  note D = apply_op_direct [where s = "new_MetadataStore True db", unfolded db]
  have "db_ok (set_counter k n db)" for k n
    using \<open>db_ok db\<close> db_ok_cong [of "set_counter k n db" db] by (simp add: set_counter_def)
  then show ?thesis
    using s by (cases op) (simp_all only: D apply_op.simps(9) fst_conv store_okD store_ok_chunks store_ok_put_chunk_seq
        store_ok_patches store_ok_healing store_ok_put_files_batch)
qed

lemma apply_op_tombstones: "db_tombstones (fst (apply_op now op db)) = db_tombstones db"
  by (cases op) (simp_all add: update_chunks_def put_chunk_seq_in_txn_def put_patch_state_pending_in_txn_def
      update_folded_in_txn_def delete_patch_state_abandoned_in_txn_def put_pending_healing_batch_in_txn_def
      set_counter_def put_files_tombstones Let_def split_beta split: option.split)

lemma db_ok_apply_ops:
  "db_ok db \<Longrightarrow> db_ok (fst (apply_ops ops db)) \<and> db_tombstones (fst (apply_ops ops db)) = db_tombstones db"
proof (induction ops arbitrary: db)
  case (Cons p ops)
  obtain now op where p: "p = (now, op)" by (cases p)
  from Cons.IH [OF db_ok_apply_op [OF Cons.prems, of now op]] show ?case
    by (simp add: p split_beta apply_op_tombstones)
qed simp

lemma store_ok_group: "store_ok s \<Longrightarrow> store_ok (fst (apply_ops_group io ops s))"
proof -
  assume s: "store_ok s"
  obtain s1 d where g: "group_durability ops s = (s1, d)" by (cases "group_durability ops s")
  then have s1: "store_ok s1" "ms_db s1 = ms_db s"
    using s store_ok_durability [OF s, of "sum_list (map (\<lambda>p. weight (snd p)) ops)"] group_durability_db [of ops s]
    by (simp_all add: group_durability_def split: if_splits)
  have "store_ok (commit_as d ok (fst (apply_ops ops (ms_db s))) s1)" for ok
    using s1 db_ok_apply_ops [OF store_okD [OF s], of ops]
    by (simp add: store_ok_def both_def commit_as_def is_file_tombstoned_def file_tombstoned_def)
  then show ?thesis using s by (simp add: apply_ops_group_def g Let_def split_beta s1(2))
qed

section \<open>Reachable states\<close>

text \<open>
  Every operation of the store from any state, with any end of its transactions. Dropping a path
  entry has a side condition: \<open>delete_path_index\<close> is called for the path a record has left, and the
  path given to \<open>delete_file_for_good_with\<close> is that of the deleted file.
\<close>

inductive store_reach :: "MetadataStore \<Rightarrow> bool" where
  start: "db_ok disk \<Longrightarrow> tables_wf disk \<Longrightarrow> store_reach (new_MetadataStore d disk)"
| put: "store_reach s \<Longrightarrow> store_reach (fst (put_file io m s))"
| put_batch: "store_reach s \<Longrightarrow> store_reach (fst (put_files_batch io ms s))"
| delete: "store_reach s \<Longrightarrow> store_reach (fst (delete_file io i s))"
| delete_for_good: "store_reach s \<Longrightarrow> store_reach (fst (delete_file_for_good io now i s))"
| delete_with: "store_reach s \<Longrightarrow> unused_path (ms_db s) p \<or> path_owner (db_paths (ms_db s)) p = Some i \<Longrightarrow>
    store_reach (fst (delete_file_for_good_with io now i p cs s))"
| delete_path: "store_reach s \<Longrightarrow> unused_path (ms_db s) p \<Longrightarrow> store_reach (fst (delete_path_index io p s))"
| prune: "store_reach s \<Longrightarrow> store_reach (fst (prune_file_tombstones io now age s))"
| unlist: "store_reach s \<Longrightarrow> store_reach (fst (remove_unlisted_files io io' live s))"
| repair: "store_reach s \<Longrightarrow> store_reach (fst (repair_path_index io io' s))"
| put_loc: "store_reach s \<Longrightarrow> store_reach (fst (put_chunk_location io l s))"
| put_locs: "store_reach s \<Longrightarrow> store_reach (fst (put_chunk_locations_batch io ls s))"
| delete_loc: "store_reach s \<Longrightarrow> store_reach (fst (delete_chunk_location io c s))"
| update_locs: "store_reach s \<Longrightarrow> store_reach (fst (batch_update_chunk_locations io ls cs hs s))"
| rebuild: "store_reach s \<Longrightarrow> store_reach (fst (rebuild_chunk_locations_from_files io s))"
| incr: "store_reach s \<Longrightarrow> store_reach (fst (incr_chunk_refcount io c s))"
| decr: "store_reach s \<Longrightarrow> store_reach (fst (decr_chunk_refcount io c s))"
| put_seq: "store_reach s \<Longrightarrow> store_reach (fst (put_chunk_seq io i idx sq s))"
| put_pending: "store_reach s \<Longrightarrow> store_reach (fst (put_patch_state_pending io i idx t b d sz w q s))"
| fold_patch: "store_reach s \<Longrightarrow> store_reach (fst (update_patch_state_folded_inner io now t c f s))"
| abandon: "store_reach s \<Longrightarrow> store_reach (fst (delete_patch_state_abandoned io t i idx s))"
| drop_patches: "store_reach s \<Longrightarrow> store_reach (fst (remove_patch_state_rows io ks s))"
| put_announce: "store_reach s \<Longrightarrow> store_reach (fst (put_pending_fold_announce io a s))"
| delete_announce: "store_reach s \<Longrightarrow> store_reach (fst (delete_pending_fold_announce io t s))"
| put_heal: "store_reach s \<Longrightarrow> store_reach (fst (put_pending_healing io c n s))"
| put_heals: "store_reach s \<Longrightarrow> store_reach (fst (put_pending_healing_batch io es s))"
| delete_heal: "store_reach s \<Longrightarrow> store_reach (fst (delete_pending_healing io c s))"
| next_seq: "store_reach s \<Longrightarrow> store_reach (fst (next_meta_sequence io s))"
| put_leader: "store_reach s \<Longrightarrow> store_reach (fst (put_leader_state io n k s))"
| set_follower: "store_reach s \<Longrightarrow> store_reach (fst (set_follower_sequence io k s))"
| enqueue: "store_reach s \<Longrightarrow> store_reach (fst (enqueue_meta_for_node io n k m s))"
| ack: "store_reach s \<Longrightarrow> store_reach (fst (ack_meta_queue_for_node io n k s))"
| compact: "store_reach s \<Longrightarrow> store_reach (fst (compact_meta_queue_for_node io n s))"
| enq_delete: "store_reach s \<Longrightarrow> store_reach (fst (enqueue_delete io e s))"
| deq_delete: "store_reach s \<Longrightarrow> store_reach (fst (dequeue_delete io i s))"
| group: "store_reach s \<Longrightarrow> store_reach (fst (apply_ops_group io ops s))"
| crash: "store_reach s \<Longrightarrow> store_reach (crash_restart s)"

lemmas store_ok_ops = store_ok_new store_ok_put_file store_ok_put_files_batch store_ok_delete_file
  store_ok_delete_file_for_good_with store_ok_delete_path_index store_ok_prune store_ok_remove_unlisted_files
  store_ok_repair_path_index store_ok_chunks store_ok_put_chunk_seq store_ok_patches store_ok_fold_announce
  store_ok_healing store_ok_queues store_ok_group store_ok_crash

lemma store_reach_ok: "store_reach s \<Longrightarrow> store_ok s"
  by (induction rule: store_reach.induct) (simp_all only: store_ok_ops)

lemma db_ok_empty: "db_ok empty_db"
  by (simp add: db_ok_def empty_db_def index_ok_def tomb_ok_def patch_ok_def bt_wf_def file_tombstoned_def)

lemma tables_wf_empty: "tables_wf empty_db"
  by (simp add: tables_wf_def empty_db_def bt_wf_def)

lemma get_file_Some: "get_file i s = Some (Some m) \<longleftrightarrow> map_of (db_files (ms_db s)) i = Some (Good m)"
  by (simp add: get_file_def split: option.splits stored.splits)



lemma delete_for_good_marks: "is_file_tombstoned i (fst (delete_file_for_good Committed now i s))"
  by (simp add: delete_file_for_good_def delete_file_inner_def Let_def is_file_tombstoned_def)

text \<open>
  C23. A file that was deleted for good stays deleted as long as its marker is kept: in every reachable
  state a marked file has no record, no slot sequence number and no pending fold announcement, a put
  of a record is refused, and a slot sequence number that is recorded later is not kept.
\<close>

theorem deleted_stays_deleted:
  assumes r: "store_reach s" and i: "is_file_tombstoned i s" and m: "fm_id m = i"
  shows "get_file i s = Some None \<and> get_chunk_seq i idx s = None \<and>
      (\<forall>a \<in> set (scan_pending_fold_announces s). fa_file_id a \<noteq> i) \<and>
      snd (put_file Committed m s) = Some Deleted \<and> get_file i (fst (put_file io m s)) = Some None \<and>
      get_chunk_seq i idx (fst (put_chunk_seq io i idx sq s)) = None"
proof -
  have tomb: "get_file i u = Some None \<and> get_chunk_seq i idx u = None \<and>
      (\<forall>a \<in> set (scan_pending_fold_announces u). fa_file_id a \<noteq> i)" if u: "store_ok u" "is_file_tombstoned i u" for u
  proof -
    have ok: "tomb_ok (ms_db u)" using store_okD [OF u(1)] by (simp add: db_ok_def)
    have t: "file_tombstoned i (ms_db u)" using u by (simp add: store_ok_def)
    have "fa_file_id a \<noteq> i" if "a \<in> set (scan_pending_fold_announces u)" for a
    proof -
      from that obtain k where "(k, Good a) \<in> set (db_fold_announce (ms_db u))"
        by (auto simp: scan_pending_fold_announces_def set_map_filter dest: good_SomeD)
      then have "map_of (db_fold_announce (ms_db u)) k = Some (Good a)" using bt_wf_distinct [OF tomb_okD(2) [OF ok]] by simp
      then show ?thesis by (rule tomb_okD(5) [OF ok t])
    qed
    then show ?thesis
      using tomb_okD(3) [OF ok t] tomb_okD(4) [OF ok t, of idx] by (simp add: get_file_def get_chunk_seq_def)
  qed
  have s: "store_ok s" by (rule store_reach_ok [OF r])
  have marked: "is_file_tombstoned i (fst (put_file io m s))" "is_file_tombstoned i (fst (put_chunk_seq io i idx sq s))"
    using i by (simp_all add: is_file_tombstoned_def put_file_def put_chunk_seq_def split: prod.split)
  have "snd (put_file Committed m s) = Some Deleted"
    using i m s by (simp add: put_file_def put_file_in_txn_refused store_ok_def)
  then show ?thesis
    using tomb [OF s i] tomb [OF store_ok_put_file [OF s] marked(1)] tomb [OF store_ok_put_chunk_seq [OF s] marked(2)] by simp
qed

theorem deleted_stays_deleted_witness:
  "let s = fst (delete_file_for_good Committed 5 (FileId 1)
                 (fst (put_file Committed (sample_record 1 ''/a'' 1) (new_MetadataStore True empty_db))))
   in get_file (FileId 1) (fst (put_file Committed (sample_record 1 ''/a'' 2) s)) = Some None"
proof -
  let ?s = "fst (delete_file_for_good Committed 5 (FileId 1)
                 (fst (put_file Committed (sample_record 1 ''/a'' 1) (new_MetadataStore True empty_db))))"
  have r: "store_reach ?s" by (rule store_reach.delete_for_good [OF store_reach.put [OF store_reach.start [OF db_ok_empty tables_wf_empty]]])
  have m: "fm_id (sample_record 1 ''/a'' 2) = FileId 1" by (simp add: sample_record_def new_FileMetadata_def)
  from deleted_stays_deleted [OF r delete_for_good_marks m] show ?thesis by (simp add: Let_def)
qed

section \<open>Deferred patches\<close>

lemma pending_slots_iff:
  "(i, idx, t) \<in> set (all_pending_patch_slots s) \<longleftrightarrow>
     ((i, idx), t) \<in> set (db_patch_slot (ms_db s)) \<and>
     (\<exists>b d sz w q. map_of (db_patch_state (ms_db s)) t = Some (Good (Pending b d sz w q)))"
  by (force simp: all_pending_patch_slots_def slot_walk_def set_map_filter
      split: option.splits stored.splits PatchState.splits)

text \<open>
  C24. The sweep that resumes the folds after a restart misses no patch: in every reachable state a
  token is pending exactly if the walk over the slots reports it. (The walk starts from the slots,
  so a pending token no slot points to would be lost.)
\<close>

theorem resume_sweep_complete:
  assumes "store_reach s"
  shows "(\<exists>b d sz w q. get_patch_state t s = Some (Some (Pending b d sz w q))) \<longleftrightarrow>
    (\<exists>i idx. (i, idx, t) \<in> set (all_pending_patch_slots s))"
proof -
  have ok: "patch_ok (db_patch_slot (ms_db s)) (db_patch_state (ms_db s))"
    using store_okD [OF store_reach_ok [OF assms]] by (simp add: db_ok_def)
  have st: "get_patch_state t s = Some (Some x) \<longleftrightarrow> map_of (db_patch_state (ms_db s)) t = Some (Good x)" for x
    by (simp add: get_patch_state_def read_row_def split: option.splits stored.splits)
  show ?thesis
  proof
    assume "\<exists>b d sz w q. get_patch_state t s = Some (Some (Pending b d sz w q))"
    then obtain b d sz w q where p: "map_of (db_patch_state (ms_db s)) t = Some (Good (Pending b d sz w q))" by (auto simp: st)
    from patch_okD(3) [OF ok p] obtain i idx where "hm_get (db_patch_slot (ms_db s)) (i, idx) = Some t" by auto
    from hm_get_SomeD [OF this] p show "\<exists>i idx. (i, idx, t) \<in> set (all_pending_patch_slots s)"
      by (auto simp: pending_slots_iff)
  next
    assume "\<exists>i idx. (i, idx, t) \<in> set (all_pending_patch_slots s)"
    then show "\<exists>b d sz w q. get_patch_state t s = Some (Some (Pending b d sz w q))" by (auto simp: pending_slots_iff st)
  qed
qed

lemma ms_db_put_pending:
  "ms_db (fst (put_patch_state_pending Committed i idx t b d sz w q s)) =
     fst (put_patch_state_pending_in_txn i idx t (Pending b d sz w q) (ms_db s))"
  by (simp add: put_patch_state_pending_def split_beta ms_db_commit)

lemma put_pending_reported:
  "(i, idx, t) \<in> set (all_pending_patch_slots (fst (put_patch_state_pending Committed i idx t b d sz w q s)))"
proof -
  have "hm_get (hm_insert (i, idx) t m) (i, idx) = Some t" for m :: "(FileId \<times> nat, ChunkId) hash_map"
    by (simp add: hm_get_def hm_insert_def AList.update_conv')
  from hm_get_SomeD [OF this] show ?thesis
    by (simp add: pending_slots_iff ms_db_put_pending put_patch_state_pending_in_txn_def Let_def map_of_bt_insert)
qed

theorem resume_sweep_complete_witness:
  "let s = fst (put_patch_state_pending Committed (FileId 1) 0 (ChunkId [1]) (ChunkId [2]) (ChunkId [3]) 4 5 None
                 (new_MetadataStore True empty_db))
   in \<exists>b d sz w q. get_patch_state (ChunkId [1]) s = Some (Some (Pending b d sz w q))"
proof -
  let ?s = "fst (put_patch_state_pending Committed (FileId 1) 0 (ChunkId [1]) (ChunkId [2]) (ChunkId [3]) 4 5 None
                 (new_MetadataStore True empty_db))"
  have "store_reach ?s" by (rule store_reach.put_pending [OF store_reach.start [OF db_ok_empty tables_wf_empty]])
  then show ?thesis unfolding Let_def by (subst resume_sweep_complete) (assumption, intro exI, rule put_pending_reported)
qed

text \<open>
  A patch is recorded for a file that was deleted for good: \<open>put_patch_state_pending\<close> does not look
  at the marker, so the patch becomes a pending patch of the deleted file, and its fold is refused
  as long as the marker is kept.
\<close>

theorem patch_of_deleted_file:
  assumes "store_reach s" and i: "is_file_tombstoned i s" and io: "io \<noteq> BeginFails"
  shows "let s1 = fst (put_patch_state_pending Committed i idx t b d sz w q s)
    in get_file i s1 = Some None \<and> (i, idx, t) \<in> set (all_pending_patch_slots s1) \<and>
       snd (update_patch_state_folded_inner io now t c (Some i) s1) = Inl (FileDeletedDuringFold i)"
proof -
  have s: "store_ok s" by (rule store_reach_ok [OF assms(1)])
  then have tomb: "file_tombstoned i (ms_db s)" using i by (simp add: store_ok_def)
  have f: "map_of (db_files (ms_db s)) i = None"
    using tomb_okD(3) [OF _ tomb] store_okD [OF s] by (simp add: db_ok_def)
  show ?thesis
    using put_pending_reported [of i idx t b d sz w q s] f tomb io
    by (simp add: Let_def get_file_def ms_db_put_pending update_patch_state_folded_inner_def update_folded_in_txn_def
        file_tombstoned_def) (simp add: put_patch_state_pending_in_txn_def Let_def)
qed

theorem patch_of_deleted_file_witness:
  "let s = fst (delete_file_for_good Committed 5 (FileId 1) (new_MetadataStore True empty_db));
       s1 = fst (put_patch_state_pending Committed (FileId 1) 0 (ChunkId [1]) (ChunkId [2]) (ChunkId [3]) 4 5 None s)
   in (FileId 1, 0, ChunkId [1]) \<in> set (all_pending_patch_slots s1)"
proof -
  let ?s = "fst (delete_file_for_good Committed 5 (FileId 1) (new_MetadataStore True empty_db))"
  have r: "store_reach ?s" by (rule store_reach.delete_for_good [OF store_reach.start [OF db_ok_empty tables_wf_empty]])
  have "Committed \<noteq> BeginFails" by simp
  from patch_of_deleted_file [OF r delete_for_good_marks this, of 0 "ChunkId [1]" "ChunkId [2]" "ChunkId [3]" 4 5 None]
  show ?thesis unfolding Let_def by blast
qed

section \<open>The start-up repair\<close>

lemma map_of_insert_all:
  "map_of (fold (\<lambda>(p, i). bt_insert p (PathId i)) rs paths) p =
     (case map_of (rev rs) p of None \<Rightarrow> map_of paths p | Some i \<Rightarrow> Some (PathId i))"
  by (induction rs arbitrary: paths) (auto simp: map_of_bt_insert map_of_append map_add_def split: option.splits)

lemma bt_wf_insert_all: "bt_wf paths \<Longrightarrow> bt_wf (fold (\<lambda>(p, i). bt_insert p (PathId i)) rs paths)"
  by (induction rs arbitrary: paths) (auto simp: bt_wf_insert)

lemma dangling_paths_iff:
  "bt_wf (db_paths db) \<Longrightarrow> p \<in> set (dangling_paths db) \<longleftrightarrow>
     (\<exists>i. path_owner (db_paths db) p = Some i \<and> map_of (db_files db) i = None)"
proof
  assume wf: "bt_wf (db_paths db)" and "\<exists>i. path_owner (db_paths db) p = Some i \<and> map_of (db_files db) i = None"
  then obtain v i where v: "map_of (db_paths db) p = Some v" "resolve_path_entry_file_id v = Some i" "map_of (db_files db) i = None"
    by (auto simp: path_owner_def split: Option.bind_splits)
  from map_of_SomeD [OF v(1)] v(2,3) show "p \<in> set (dangling_paths db)" by (force simp: dangling_paths_def)
qed (rule dangling_pathsD)

definition indexed :: "MetaDb \<Rightarrow> MetaDb" where
  "indexed db = db\<lparr>db_paths := fold (\<lambda>(p, i). bt_insert p (PathId i)) (missing_paths db) (db_paths db)\<rparr>"

lemma repair_path_index_db:
  "ms_db (fst (repair_path_index Committed Committed s)) = remove_paths (dangling_paths (indexed (ms_db s))) (indexed (ms_db s))"
  by (simp add: repair_path_index_def Let_def ms_db_commit indexed_def remove_paths_def)

lemma indexed_entry:
  assumes "bt_wf (db_files db)"
  shows "map_of (db_paths (indexed db)) p = map_of (db_paths db) p \<or>
    (\<exists>i m. map_of (db_paths (indexed db)) p = Some (PathId i) \<and> map_of (db_files db) i = Some (Good m))"
proof (cases "map_of (rev (missing_paths db)) p")
  case None
  then show ?thesis by (simp add: indexed_def map_of_insert_all)
next
  case (Some i)
  from map_of_SomeD [OF Some] obtain m where "(i, Good m) \<in> set (db_files db)" by (auto simp: missing_paths_iff)
  then have "map_of (db_files db) i = Some (Good m)" using bt_wf_distinct [OF assms] by simp
  with Some show ?thesis by (simp add: indexed_def map_of_insert_all)
qed

lemma indexed_complete:
  assumes "map_of (db_files db) i = Some (Good m)"
  shows "map_of (db_paths (indexed db)) (fm_path m) \<noteq> None"
proof (cases "map_of (db_paths db) (fm_path m)")
  case None
  with map_of_SomeD [OF assms] have "(fm_path m, i) \<in> set (missing_paths db)" by (auto simp: missing_paths_iff)
  then have "map_of (rev (missing_paths db)) (fm_path m) \<noteq> None"
    unfolding map_of_eq_None_iff set_rev by force
  then show ?thesis by (auto simp: indexed_def map_of_insert_all)
next
  case (Some v)
  then show ?thesis by (simp add: indexed_def map_of_insert_all split: option.split)
qed

text \<open>
  The start-up repair of the path index works on any tables: afterwards no entry names a file
  without a record, no record was touched, and the path of every record has an entry again, except
  a path whose entry named a missing file when the repair began.
\<close>

theorem repair_restores:
  assumes wf: "bt_wf (db_files (ms_db s))" "bt_wf (db_paths (ms_db s))"
  shows "let db = ms_db s; db' = ms_db (fst (repair_path_index Committed Committed s)) in
    db_files db' = db_files db \<and>
    (\<forall>p i. path_owner (db_paths db') p = Some i \<longrightarrow> map_of (db_files db) i \<noteq> None) \<and>
    (\<forall>i m. map_of (db_files db) i = Some (Good m) \<and> fm_path m \<notin> set (dangling_paths db) \<longrightarrow>
       map_of (db_paths db') (fm_path m) \<noteq> None)"
proof -
  define db where "db = ms_db s"
  define db1 where "db1 = indexed db"
  have wf1: "bt_wf (db_paths db1)" using wf(2) by (simp add: db1_def db_def indexed_def bt_wf_insert_all)
  have files: "db_files db1 = db_files db" by (simp add: db1_def indexed_def)
  have paths: "map_of (db_paths (remove_paths (dangling_paths db1) db1)) p =
      (if p \<in> set (dangling_paths db1) then None else map_of (db_paths db1) p)" for p
    by (simp add: remove_paths_def bt.get_del_all [OF wf1])
  have owned: "map_of (db_files db) i \<noteq> None" if "path_owner (db_paths (remove_paths (dangling_paths db1) db1)) p = Some i" for p i
    using that dangling_paths_iff [OF wf1, of p] by (auto simp: path_owner_def paths files split: if_splits)
  have found: "map_of (db_paths (remove_paths (dangling_paths db1) db1)) (fm_path m) \<noteq> None"
    if "map_of (db_files db) i = Some (Good m)" "fm_path m \<notin> set (dangling_paths db)" for i m
  proof -
    have "fm_path m \<notin> set (dangling_paths db1)"
    proof
      assume "fm_path m \<in> set (dangling_paths db1)"
      then obtain j where j: "path_owner (db_paths db1) (fm_path m) = Some j" "map_of (db_files db) j = None"
        by (auto simp: dangling_paths_iff [OF wf1] files)
      from indexed_entry [of db "fm_path m"] wf(1) have "map_of (db_paths db1) (fm_path m) = map_of (db_paths db) (fm_path m)"
        using j by (auto simp: db1_def db_def path_owner_def)
      with j that(2) dangling_paths_iff [of db "fm_path m"] wf(2) show False by (simp add: path_owner_def db_def)
    qed
    then show ?thesis using indexed_complete [OF that(1), folded db1_def] by (simp add: paths)
  qed
  have "db_files (remove_paths (dangling_paths db1) db1) = db_files db" by (simp add: remove_paths_def files)
  then show ?thesis
    unfolding Let_def repair_path_index_db db_def [symmetric] db1_def [symmetric]
    by (intro conjI allI impI) (assumption, erule owned, elim conjE, rule found)
qed

theorem repair_restores_witness:
  "map_of (db_paths (ms_db (fst (repair_path_index Committed Committed
     (new_MetadataStore True (empty_db\<lparr>db_files := [(FileId 1, Good (sample_record 1 ''/a'' 1))]\<rparr>)))))) ''/a'' \<noteq> None"
proof -
  let ?s = "new_MetadataStore True (empty_db\<lparr>db_files := [(FileId 1, Good (sample_record 1 ''/a'' 1))]\<rparr>)"
  have w: "bt_wf (db_files (ms_db ?s))" "bt_wf (db_paths (ms_db ?s))"
    by (simp_all add: new_MetadataStore_def empty_db_def bt_wf_def)
  have "map_of (db_files (ms_db ?s)) (FileId 1) = Some (Good (sample_record 1 ''/a'' 1))"
    "fm_path (sample_record 1 ''/a'' 1) \<notin> set (dangling_paths (ms_db ?s))"
    by (simp_all add: new_MetadataStore_def empty_db_def dangling_paths_def)
  moreover have "fm_path (sample_record 1 ''/a'' 1) = ''/a''" by (simp add: sample_record_def new_FileMetadata_def)
  ultimately show ?thesis using repair_restores [OF w] unfolding Let_def by metis
qed

text \<open>
  The exception is real: a record whose path entry names a missing file keeps no entry after the
  repair, and gets one at the next start.
\<close>

lemma repair_needs_second_start:
  "let s = new_MetadataStore True (empty_db\<lparr>db_files := [(FileId 1, Good (sample_record 1 ''/a'' 1))],
                                             db_paths := [(''/a'', PathId (FileId 2))]\<rparr>);
       s1 = fst (repair_path_index Committed Committed s);
       s2 = fst (repair_path_index Committed Committed s1)
   in db_paths (ms_db s1) = [] \<and> db_paths (ms_db s2) = [(''/a'', PathId (FileId 1))]"
  by (simp add: Let_def repair_path_index_db indexed_def new_MetadataStore_def empty_db_def missing_paths_def
      dangling_paths_def remove_paths_def sample_record_def new_FileMetadata_def List.map_filter_simps bt_remove_def)

end
