(* ===== verification/Table_Types.thy ===== *)
theory Table_Types
  imports Metadata_Reach
begin

text \<open>
  The well-formedness of the tables of the metadata store: each is a map with one row per key, the
  ordered ones in key order, after every operation, failed transaction and crash. Online compaction
  relies on it when it compares the tables row by row.
\<close>

lemma tables_wf_upd:
  "tables_wf db \<Longrightarrow> bt_wf files \<Longrightarrow> tables_wf (db\<lparr>db_files := files\<rparr>)"
  "tables_wf db \<Longrightarrow> bt_wf paths \<Longrightarrow> tables_wf (db\<lparr>db_paths := paths\<rparr>)"
  "tables_wf db \<Longrightarrow> bt_wf chunks \<Longrightarrow> tables_wf (db\<lparr>db_chunks := chunks\<rparr>)"
  "tables_wf db \<Longrightarrow> bt_wf meta_queue \<Longrightarrow> tables_wf (db\<lparr>db_meta_queue := meta_queue\<rparr>)"
  "tables_wf db \<Longrightarrow> hm_wf meta_idx \<Longrightarrow> tables_wf (db\<lparr>db_meta_idx := meta_idx\<rparr>)"
  "tables_wf db \<Longrightarrow> hm_wf counters \<Longrightarrow> tables_wf (db\<lparr>db_counters := counters\<rparr>)"
  "tables_wf db \<Longrightarrow> bt_wf delete_queue \<Longrightarrow> tables_wf (db\<lparr>db_delete_queue := delete_queue\<rparr>)"
  "tables_wf db \<Longrightarrow> bt_wf pending_healing \<Longrightarrow> tables_wf (db\<lparr>db_pending_healing := pending_healing\<rparr>)"
  "tables_wf db \<Longrightarrow> hm_wf refcounts \<Longrightarrow> tables_wf (db\<lparr>db_refcounts := refcounts\<rparr>)"
  "tables_wf db \<Longrightarrow> bt_wf patch_state \<Longrightarrow> tables_wf (db\<lparr>db_patch_state := patch_state\<rparr>)"
  "tables_wf db \<Longrightarrow> hm_wf fold_ts \<Longrightarrow> tables_wf (db\<lparr>db_fold_ts := fold_ts\<rparr>)"
  "tables_wf db \<Longrightarrow> bt_wf fold_announce \<Longrightarrow> tables_wf (db\<lparr>db_fold_announce := fold_announce\<rparr>)"
  "tables_wf db \<Longrightarrow> hm_wf patch_slot \<Longrightarrow> tables_wf (db\<lparr>db_patch_slot := patch_slot\<rparr>)"
  "tables_wf db \<Longrightarrow> hm_wf chunk_seq \<Longrightarrow> tables_wf (db\<lparr>db_chunk_seq := chunk_seq\<rparr>)"
  "tables_wf db \<Longrightarrow> bt_wf tombstones \<Longrightarrow> tables_wf (db\<lparr>db_tombstones := tombstones\<rparr>)"
  by (simp_all add: tables_wf_def)

lemma tables_wfD:
  assumes "tables_wf db"
  shows "bt_wf (db_files db)"
    "bt_wf (db_paths db)"
    "bt_wf (db_chunks db)"
    "bt_wf (db_meta_queue db)"
    "hm_wf (db_meta_idx db)"
    "hm_wf (db_counters db)"
    "bt_wf (db_delete_queue db)"
    "bt_wf (db_pending_healing db)"
    "hm_wf (db_refcounts db)"
    "bt_wf (db_patch_state db)"
    "hm_wf (db_fold_ts db)"
    "bt_wf (db_fold_announce db)"
    "hm_wf (db_patch_slot db)"
    "hm_wf (db_chunk_seq db)"
    "bt_wf (db_tombstones db)"
  using assms by (simp_all add: tables_wf_def)

lemma bt_wf_fold_insert: "bt_wf m \<Longrightarrow> bt_wf (fold (\<lambda>x. bt_insert (f x) (g x)) xs m)"
  by (induction xs arbitrary: m) (simp_all add: bt_wf_insert)

lemma bt_wf_fold_insert_pair: "bt_wf m \<Longrightarrow> bt_wf (fold (\<lambda>(k, v). bt_insert k (g v)) xs m)"
  by (induction xs arbitrary: m) (simp_all add: bt_wf_insert split_beta)

lemma bt_wf_fold_remove_key: "bt_wf m \<Longrightarrow> bt_wf (fold (\<lambda>x. bt_remove (f x)) xs m)"
  by (induction xs arbitrary: m) (simp_all add: bt_wf_remove)

lemma hm_wf_filter: "hm_wf m \<Longrightarrow> hm_wf (filter P m)"
  by (simp add: hm_wf_def distinct_map_filter)

lemmas table_ops = bt_wf_insert bt_wf_remove bt.wf_del_all hm.wf_put hm.wf_del hm.wf_del_all bt_wf_fold_insert
  bt_wf_fold_insert_pair [where g = "\<lambda>x. x"] bt_wf_fold_insert_pair [where g = PathId] bt_wf_fold_remove_key
  bt_wf_filter hm_wf_filter

lemma tables_wf_put_file: "tables_wf db \<Longrightarrow> tables_wf (fst (put_file_in_txn m db))"
  by (simp add: put_file_in_txn_def Let_def tables_wf_def table_ops split: prod.split option.split)

lemma tables_wf_put_files: "tables_wf db \<Longrightarrow> tables_wf (fst (put_files_in_txn ms db))"
proof (induction ms arbitrary: db)
  case (Cons m ms)
  from Cons.IH [OF tables_wf_put_file [OF Cons.prems, of m]] show ?case by (simp add: split_beta)
qed simp

lemma tables_wf_delete_file: "tables_wf db \<Longrightarrow> tables_wf (delete_file_in_txn now i g path cs db)"
  by (simp add: delete_file_in_txn_def tombstone_in_txn_def delete_patch_rows_def Let_def tables_wf_def table_ops
      split: option.split)

lemma tables_wf_chunks: "tables_wf db \<Longrightarrow> tables_wf (update_chunks ls cs hs db)"
  by (simp add: update_chunks_def tables_wf_def table_ops)

lemma tables_wf_chunk_seq: "tables_wf db \<Longrightarrow> tables_wf (fst (put_chunk_seq_in_txn i idx sq db))"
  by (simp add: put_chunk_seq_in_txn_def Let_def tables_wf_def table_ops)

lemma tables_wf_pending: "tables_wf db \<Longrightarrow> tables_wf (fst (put_patch_state_pending_in_txn i idx t v db))"
  by (simp add: put_patch_state_pending_in_txn_def Let_def tables_wf_def table_ops split: option.split)

lemma tables_wf_folded: "tables_wf db \<Longrightarrow> update_folded_in_txn now t c f db = Inr db' \<Longrightarrow> tables_wf db'"
  by (auto simp: update_folded_in_txn_def tables_wf_def table_ops split: option.splits if_splits)

lemma tables_wf_abandoned: "tables_wf db \<Longrightarrow> tables_wf (delete_patch_state_abandoned_in_txn t i idx db)"
  by (simp add: delete_patch_state_abandoned_in_txn_def tables_wf_def table_ops)

lemma tables_wf_healing: "tables_wf db \<Longrightarrow> tables_wf (put_pending_healing_batch_in_txn es db)"
  by (simp add: put_pending_healing_batch_in_txn_def tables_wf_def table_ops)

lemma tables_wf_counter: "tables_wf db \<Longrightarrow> tables_wf (set_counter k v db)"
  by (simp add: set_counter_def tables_wf_def table_ops)

lemma tables_wf_enqueue: "tables_wf db \<Longrightarrow> tables_wf (enqueue_in_txn n k m db)"
  by (simp add: enqueue_in_txn_def Let_def tables_wf_def table_ops split: option.split)

lemma tables_wf_ack: "tables_wf db \<Longrightarrow> tables_wf (ack_remove rows db)"
proof (induction rows db rule: ack_remove.induct)
  case (2 n sq fid rows db)
  show ?case
    unfolding ack_remove.simps Let_def
    by (rule "2.IH" [OF refl]) (use "2.prems" in \<open>simp add: tables_wf_def table_ops split: option.split\<close>)
qed simp

lemma tables_wf_paths: "tables_wf db \<Longrightarrow> tables_wf (remove_rows rs db)" "tables_wf db \<Longrightarrow> tables_wf (remove_paths ps db)"
  by (simp_all add: remove_rows_def remove_paths_def tables_wf_def table_ops)

lemma tables_wf_apply_op: "tables_wf db \<Longrightarrow> tables_wf (fst (apply_op now op db))"
  by (cases op) (auto simp: split_beta tables_wf_chunks tables_wf_chunk_seq tables_wf_pending tables_wf_abandoned
      tables_wf_healing tables_wf_counter tables_wf_put_files split: sum.split dest: tables_wf_folded)

lemma tables_wf_apply_ops: "tables_wf db \<Longrightarrow> tables_wf (fst (apply_ops ops db))"
proof (induction ops arbitrary: db)
  case (Cons p ops)
  obtain now op where p: "p = (now, op)" by (cases p)
  from Cons.IH [OF tables_wf_apply_op [OF Cons.prems, of now op]] show ?case by (simp add: p split_beta)
qed simp

lemma both_tablesD: "both P s \<Longrightarrow> P (ms_db s)"
  by (simp add: both_def)

lemmas tables_wf_txns = tables_wf_put_file tables_wf_put_files tables_wf_delete_file tables_wf_chunks
  tables_wf_chunk_seq tables_wf_pending tables_wf_abandoned tables_wf_healing tables_wf_counter tables_wf_enqueue
  tables_wf_ack tables_wf_paths both_tablesD

lemma tables_wf_group: "both tables_wf s \<Longrightarrow> both tables_wf (fst (apply_ops_group io ops s))"
proof -
  assume s: "both tables_wf s"
  obtain s1 d where g: "group_durability ops s = (s1, d)" by (cases "group_durability ops s")
  then have s1: "both tables_wf s1" "ms_db s1 = ms_db s"
    using s both_durability [OF s, of "sum_list (map (\<lambda>p. weight (snd p)) ops)"] group_durability_db [of ops s]
    by (simp_all add: group_durability_def split: if_splits)
  have "both tables_wf (commit_as d ok (fst (apply_ops ops (ms_db s))) s1)" for ok
    using s1 tables_wf_apply_ops [OF both_tablesD [OF s], of ops] by (simp add: both_def commit_as_def)
  then show ?thesis using s by (simp add: apply_ops_group_def g Let_def split_beta s1(2))
qed

lemma tables_wf_unlist: "both tables_wf s \<Longrightarrow> both tables_wf (fst (remove_unlisted_files io io' live s))"
  by (simp add: remove_unlisted_files_def Let_def both_commit tables_wf_txns)

lemma tables_wf_indexed: "tables_wf db \<Longrightarrow> tables_wf (indexed db)"
  by (simp add: indexed_def tables_wf_def table_ops)

lemma tables_wf_repair: "both tables_wf s \<Longrightarrow> both tables_wf (fst (repair_path_index io io' s))"
  unfolding repair_path_index_def Let_def indexed_def [symmetric]
  by (simp add: both_commit tables_wf_txns tables_wf_indexed)

lemma tables_wf_files:
  "both tables_wf s \<Longrightarrow> both tables_wf (fst (put_file io m s))"
  "both tables_wf s \<Longrightarrow> both tables_wf (fst (put_files_batch io ms s))"
  "both tables_wf s \<Longrightarrow> both tables_wf (fst (delete_file_inner io now i g path cs s))"
  by (simp_all add: put_file_def put_files_batch_def delete_file_inner_def Let_def split_beta both_commit tables_wf_txns)

lemma tables_wf_deletes:
  "both tables_wf s \<Longrightarrow> both tables_wf (fst (delete_file io i s))"
  "both tables_wf s \<Longrightarrow> both tables_wf (fst (delete_file_for_good io now i s))"
  "both tables_wf s \<Longrightarrow> both tables_wf (fst (delete_file_for_good_with io now i p cs s))"
  by (simp_all add: delete_file_def delete_file_for_good_def delete_file_for_good_with_def tables_wf_files)

lemmas tables_wf_step = both_commit both_run_immediate tables_wf_upd tables_wfD table_ops tables_wf_txns

lemma tables_wf_path:
  "both tables_wf s \<Longrightarrow> both tables_wf (fst (delete_path_index io p s))"
  "both tables_wf s \<Longrightarrow> both tables_wf (fst (prune_file_tombstones io now age s))"
  by (simp_all add: delete_path_index_def prune_file_tombstones_def Let_def tables_wf_step)

lemma tables_wf_locations:
  "both tables_wf s \<Longrightarrow> both tables_wf (fst (put_chunk_location io l s))"
  "both tables_wf s \<Longrightarrow> both tables_wf (fst (put_chunk_locations_batch io ls s))"
  "both tables_wf s \<Longrightarrow> both tables_wf (fst (delete_chunk_location io c s))"
  "both tables_wf s \<Longrightarrow> both tables_wf (fst (batch_update_chunk_locations io ls cs hs s))"
  "both tables_wf s \<Longrightarrow> both tables_wf (fst (rebuild_chunk_locations_from_files io s))"
  "both tables_wf s \<Longrightarrow> both tables_wf (fst (incr_chunk_refcount io c s))"
  "both tables_wf s \<Longrightarrow> both tables_wf (fst (decr_chunk_refcount io c s))"
  by (simp_all add: put_chunk_location_def put_chunk_locations_batch_def delete_chunk_location_def
      batch_update_chunk_locations_def rebuild_chunk_locations_from_files_def incr_chunk_refcount_def
      decr_chunk_refcount_def run_txn_def Let_def tables_wf_step split: option.split)

lemma tables_wf_patches:
  "both tables_wf s \<Longrightarrow> both tables_wf (fst (put_chunk_seq io i idx sq s))"
  "both tables_wf s \<Longrightarrow> both tables_wf (fst (put_patch_state_pending io i idx t b d sz w q s))"
  "both tables_wf s \<Longrightarrow> both tables_wf (fst (update_patch_state_folded_inner io now t c f s))"
  "both tables_wf s \<Longrightarrow> both tables_wf (fst (delete_patch_state_abandoned io t i idx s))"
  "both tables_wf s \<Longrightarrow> both tables_wf (fst (remove_patch_state_rows io ks s))"
  by (simp_all add: put_chunk_seq_def put_patch_state_pending_def update_patch_state_folded_inner_def
      update_folded_in_txn_def delete_patch_state_abandoned_def remove_patch_state_rows_def run_txn_def Let_def
      split_beta both_durability tables_wf_step split: option.split)

lemma tables_wf_announces:
  "both tables_wf s \<Longrightarrow> both tables_wf (fst (put_pending_fold_announce io a s))"
  "both tables_wf s \<Longrightarrow> both tables_wf (fst (delete_pending_fold_announce io t s))"
  "both tables_wf s \<Longrightarrow> both tables_wf (fst (put_pending_healing io c n s))"
  "both tables_wf s \<Longrightarrow> both tables_wf (fst (put_pending_healing_batch io es s))"
  "both tables_wf s \<Longrightarrow> both tables_wf (fst (delete_pending_healing io c s))"
  by (simp_all add: put_pending_fold_announce_def delete_pending_fold_announce_def put_pending_healing_def
      put_pending_healing_batch_def delete_pending_healing_def run_txn_def tables_wf_step)

lemma tables_wf_queues:
  "both tables_wf s \<Longrightarrow> both tables_wf (fst (next_meta_sequence io s))"
  "both tables_wf s \<Longrightarrow> both tables_wf (fst (put_leader_state io n k s))"
  "both tables_wf s \<Longrightarrow> both tables_wf (fst (set_follower_sequence io k s))"
  "both tables_wf s \<Longrightarrow> both tables_wf (fst (enqueue_meta_for_node io n k m s))"
  "both tables_wf s \<Longrightarrow> both tables_wf (fst (ack_meta_queue_for_node io n k s))"
  "both tables_wf s \<Longrightarrow> both tables_wf (fst (compact_meta_queue_for_node io n s))"
  "both tables_wf s \<Longrightarrow> both tables_wf (fst (enqueue_delete io e s))"
  "both tables_wf s \<Longrightarrow> both tables_wf (fst (dequeue_delete io i s))"
  by (simp_all add: next_meta_sequence_def put_leader_state_def set_follower_sequence_def enqueue_meta_for_node_def
      ack_meta_queue_for_node_def compact_meta_queue_for_node_def enqueue_delete_def dequeue_delete_def Let_def
      tables_wf_step)

lemmas tables_wf_ops = tables_wf_files tables_wf_deletes tables_wf_path tables_wf_unlist tables_wf_repair
  tables_wf_locations tables_wf_patches tables_wf_announces tables_wf_queues tables_wf_group both_crash both_new



end
