(* ===== verification/Compaction.thy ===== *)
theory Compaction
  imports Table_Types "HOL-Library.Monad_Syntax"
begin

text \<open>
  The online compaction of the metadata store (\<open>compact_db\<close> of \<^verbatim>\<open>dfs-server/src/metadata.rs\<close>): a copy of every
  table into a shadow database, catch-up passes that read the dirty keys of the file and path tables
  and compare the other tables row by row, and the swap under the exclusive lock. Writers run
  throughout: a writer commits, then marks the keys it changed as dirty, both under the shared lock,
  so the exclusive lock waits for the mark.

  Rows are compared as decoded. The clock enters as what the deadline checks find.

  Shown: for every interleaving of writers and compactor, the database that is swapped in holds the
  records, the owners of all paths and the rows of the other tables of the live database it replaces.
\<close>

section \<open>Definitions\<close>

definition COPY_DEADLINE_CHECK_INTERVAL :: nat where
  "COPY_DEADLINE_CHECK_INTERVAL = 2048"

text \<open>\<open>late i\<close>: the deadline has passed when row \<open>i\<close> is reached.\<close>

fun copy_rows :: "('k \<Rightarrow> 'v \<Rightarrow> 'm \<Rightarrow> 'm) \<Rightarrow> (nat \<Rightarrow> bool) \<Rightarrow> nat \<Rightarrow> ('k \<times> 'v) list \<Rightarrow> 'm \<Rightarrow> 'm option" where
  "copy_rows put late i [] dst = Some dst"
| "copy_rows put late i ((k, v) # rows) dst =
     (if i mod COPY_DEADLINE_CHECK_INTERVAL = 0 \<and> late i then None
      else copy_rows put late (Suc i) rows (put k v dst))"

definition copy_table ::
    "('k \<Rightarrow> 'v \<Rightarrow> ('k \<times> 'v) list \<Rightarrow> ('k \<times> 'v) list) \<Rightarrow> bool \<Rightarrow> (nat \<Rightarrow> bool) \<Rightarrow> ('k \<times> 'v) list \<Rightarrow> ('k \<times> 'v) list option" where
  "copy_table put late_now late src = (if late_now then None else copy_rows put late 0 src [])"

definition copy_all_tables :: "(nat \<Rightarrow> bool) \<Rightarrow> (nat \<Rightarrow> nat \<Rightarrow> bool) \<Rightarrow> MetaDb \<Rightarrow> MetaDb option" where
  "copy_all_tables between within src = do {
     files \<leftarrow> copy_table bt_insert (between 0) (within 0) (db_files src);
     paths \<leftarrow> copy_table bt_insert (between 1) (within 1) (db_paths src);
     chunks \<leftarrow> copy_table bt_insert (between 2) (within 2) (db_chunks src);
     meta_queue \<leftarrow> copy_table bt_insert (between 3) (within 3) (db_meta_queue src);
     meta_idx \<leftarrow> copy_table hm_insert (between 4) (within 4) (db_meta_idx src);
     counters \<leftarrow> copy_table hm_insert (between 5) (within 5) (db_counters src);
     delete_queue \<leftarrow> copy_table bt_insert (between 6) (within 6) (db_delete_queue src);
     pending_healing \<leftarrow> copy_table bt_insert (between 7) (within 7) (db_pending_healing src);
     refcounts \<leftarrow> copy_table hm_insert (between 8) (within 8) (db_refcounts src);
     patch_state \<leftarrow> copy_table bt_insert (between 9) (within 9) (db_patch_state src);
     fold_ts \<leftarrow> copy_table hm_insert (between 10) (within 10) (db_fold_ts src);
     fold_announce \<leftarrow> copy_table bt_insert (between 11) (within 11) (db_fold_announce src);
     patch_slot \<leftarrow> copy_table hm_insert (between 12) (within 12) (db_patch_slot src);
     chunk_seq \<leftarrow> copy_table hm_insert (between 13) (within 13) (db_chunk_seq src);
     tombstones \<leftarrow> copy_table bt_insert (between 14) (within 14) (db_tombstones src);
     Some \<lparr>db_files = files, db_paths = paths, db_chunks = chunks, db_meta_queue = meta_queue, db_meta_idx = meta_idx,
           db_counters = counters, db_delete_queue = delete_queue, db_pending_healing = pending_healing,
           db_refcounts = refcounts, db_patch_state = patch_state, db_fold_ts = fold_ts,
           db_fold_announce = fold_announce, db_patch_slot = patch_slot, db_chunk_seq = chunk_seq,
           db_tombstones = tombstones\<rparr>
   }"

fun diff_update :: "('m \<Rightarrow> 'k \<Rightarrow> 'v option) \<Rightarrow> ('k \<Rightarrow> 'v \<Rightarrow> 'm \<Rightarrow> 'm) \<Rightarrow> ('k \<times> 'v) list \<Rightarrow> 'm \<Rightarrow> 'm \<times> nat" where
  "diff_update get put [] dst = (dst, 0)"
| "diff_update get put ((k, v) # src) dst =
     (let needs_update = (get dst k \<noteq> Some v);
          (dst', changed) = diff_update get put src (if needs_update then put k v dst else dst)
      in (dst', (if needs_update then 1 else 0) + changed))"

fun diff_remove :: "('k \<Rightarrow> 'm \<Rightarrow> 'm) \<Rightarrow> 'k set \<Rightarrow> 'k list \<Rightarrow> 'm \<Rightarrow> 'm \<times> nat" where
  "diff_remove del live_keys [] dst = (dst, 0)"
| "diff_remove del live_keys (k # ks) dst =
     (let (dst', changed) = diff_remove del live_keys ks (if k \<in> live_keys then dst else del k dst)
      in (dst', (if k \<in> live_keys then 0 else 1) + changed))"

definition diff_bytes_table ::
    "(('k \<times> 'v) list \<Rightarrow> 'k \<Rightarrow> 'v option) \<Rightarrow> ('k \<Rightarrow> 'v \<Rightarrow> ('k \<times> 'v) list \<Rightarrow> ('k \<times> 'v) list) \<Rightarrow>
     ('k \<Rightarrow> ('k \<times> 'v) list \<Rightarrow> ('k \<times> 'v) list) \<Rightarrow> ('k \<times> 'v) list \<Rightarrow> ('k \<times> 'v) list \<Rightarrow> ('k \<times> 'v) list \<times> nat" where
  "diff_bytes_table get put del src dst =
     (let (dst1, changed1) = diff_update get put src dst;
          (dst2, changed2) = diff_remove del (set (map fst src)) (map fst dst1) dst1
      in (dst2, changed1 + changed2))"

text \<open>The loop over the dirty keys, in the order \<open>keys\<close> the set yields them.\<close>

fun diff_bytes_table_by_keys ::
    "('m \<Rightarrow> 'k \<Rightarrow> 'v option) \<Rightarrow> ('k \<Rightarrow> 'v \<Rightarrow> 'm \<Rightarrow> 'm) \<Rightarrow> ('k \<Rightarrow> 'm \<Rightarrow> 'm) \<Rightarrow> 'k list \<Rightarrow> 'm \<Rightarrow> 'm \<Rightarrow> 'm \<times> nat" where
  "diff_bytes_table_by_keys get put del [] src dst = (dst, 0)"
| "diff_bytes_table_by_keys get put del (k # keys) src dst =
     (let (dst', changed) =
        (case get src k of
           Some v \<Rightarrow> if get dst k \<noteq> Some v then (put k v dst, 1) else (dst, 0)
         | None \<Rightarrow> if get dst k \<noteq> None then (del k dst, 1) else (dst, 0));
        (dst'', more_changed) = diff_bytes_table_by_keys get put del keys src dst'
      in (dst'', changed + more_changed))"

definition diff_all_tables_tracked :: "FileId list \<Rightarrow> string list \<Rightarrow> MetaDb \<Rightarrow> MetaDb \<Rightarrow> MetaDb \<times> nat" where
  "diff_all_tables_tracked dirty_file_keys dirty_path_keys src dst =
     (let (files, n0) = diff_bytes_table_by_keys map_of bt_insert bt_remove dirty_file_keys (db_files src) (db_files dst);
          (paths, n1) = diff_bytes_table_by_keys map_of bt_insert bt_remove dirty_path_keys (db_paths src) (db_paths dst);
          (chunks, n2) = diff_bytes_table map_of bt_insert bt_remove (db_chunks src) (db_chunks dst);
          (meta_queue, n3) = diff_bytes_table map_of bt_insert bt_remove (db_meta_queue src) (db_meta_queue dst);
          (meta_idx, n4) = diff_bytes_table hm_get hm_insert hm_remove (db_meta_idx src) (db_meta_idx dst);
          (counters, n5) = diff_bytes_table hm_get hm_insert hm_remove (db_counters src) (db_counters dst);
          (delete_queue, n6) = diff_bytes_table map_of bt_insert bt_remove (db_delete_queue src) (db_delete_queue dst);
          (pending_healing, n7) = diff_bytes_table map_of bt_insert bt_remove (db_pending_healing src) (db_pending_healing dst);
          (refcounts, n8) = diff_bytes_table hm_get hm_insert hm_remove (db_refcounts src) (db_refcounts dst);
          (patch_state, n9) = diff_bytes_table map_of bt_insert bt_remove (db_patch_state src) (db_patch_state dst);
          (fold_ts, n10) = diff_bytes_table hm_get hm_insert hm_remove (db_fold_ts src) (db_fold_ts dst);
          (fold_announce, n11) = diff_bytes_table map_of bt_insert bt_remove (db_fold_announce src) (db_fold_announce dst);
          (patch_slot, n12) = diff_bytes_table hm_get hm_insert hm_remove (db_patch_slot src) (db_patch_slot dst);
          (chunk_seq, n13) = diff_bytes_table hm_get hm_insert hm_remove (db_chunk_seq src) (db_chunk_seq dst);
          (tombstones, n14) = diff_bytes_table map_of bt_insert bt_remove (db_tombstones src) (db_tombstones dst)
      in (\<lparr>db_files = files, db_paths = paths, db_chunks = chunks, db_meta_queue = meta_queue, db_meta_idx = meta_idx,
           db_counters = counters, db_delete_queue = delete_queue, db_pending_healing = pending_healing,
           db_refcounts = refcounts, db_patch_state = patch_state, db_fold_ts = fold_ts,
           db_fold_announce = fold_announce, db_patch_slot = patch_slot, db_chunk_seq = chunk_seq,
           db_tombstones = tombstones\<rparr>,
          n0 + n1 + n2 + n3 + n4 + n5 + n6 + n7 + n8 + n9 + n10 + n11 + n12 + n13 + n14))"

section \<open>Copying and comparing\<close>

context map_impl
begin

lemma copy_rows_get:
  "copy_rows put late i rows dst = Some dst' \<Longrightarrow> wf dst \<Longrightarrow> distinct (map fst rows) \<Longrightarrow>
     wf dst' \<and> (\<forall>k. get dst' k = (case map_of rows k of None \<Rightarrow> get dst k | Some v \<Rightarrow> Some v))"
proof (induction rows arbitrary: i dst)
  case (Cons p rows)
  obtain k v where p: "p = (k, v)" by (cases p)
  from Cons.prems have c: "copy_rows put late (Suc i) rows (put k v dst) = Some dst'" by (simp add: p split: if_splits)
  from Cons.prems have k: "map_of rows k = None" by (simp add: p map_of_eq_None_iff)
  from Cons.IH [OF c] Cons.prems k show ?case by (simp add: p wf_put get_put split: option.split)
qed simp

lemma diff_update_get:
  "wf dst \<Longrightarrow> distinct (map fst src) \<Longrightarrow>
     wf (fst (diff_update get put src dst)) \<and>
     (\<forall>k. get (fst (diff_update get put src dst)) k = (case map_of src k of None \<Rightarrow> get dst k | Some v \<Rightarrow> Some v))"
proof (induction src arbitrary: dst)
  case (Cons p src)
  obtain k v where p: "p = (k, v)" by (cases p)
  from Cons.prems have k: "map_of src k = None" by (simp add: p map_of_eq_None_iff)
  have "wf (if get dst k \<noteq> Some v then put k v dst else dst)" using Cons.prems by (simp add: wf_put)
  from Cons.IH [OF this] Cons.prems k show ?case by (simp add: p Let_def split_beta get_put split: option.split)
qed simp

lemma diff_remove_get:
  "wf dst \<Longrightarrow> wf (fst (diff_remove del live ks dst)) \<and>
     (\<forall>k. get (fst (diff_remove del live ks dst)) k = (if k \<in> set ks \<and> k \<notin> live then None else get dst k))"
proof (induction ks arbitrary: dst)
  case (Cons k ks)
  have "wf (if k \<in> live then dst else del k dst)" using Cons.prems by (simp add: wf_del)
  from Cons.IH [OF this] Cons.prems show ?case by (auto simp: Let_def split_beta get_del)
qed simp

lemma diff_by_keys_get:
  "wf dst \<Longrightarrow> wf (fst (diff_bytes_table_by_keys get put del keys src dst)) \<and>
     (\<forall>k. get (fst (diff_bytes_table_by_keys get put del keys src dst)) k = (if k \<in> set keys then get src k else get dst k))"
proof (induction keys arbitrary: dst)
  case (Cons k keys)
  define d where "d = fst (case get src k of
      Some v \<Rightarrow> if get dst k \<noteq> Some v then (put k v dst, 1 :: nat) else (dst, 0)
    | None \<Rightarrow> if get dst k \<noteq> None then (del k dst, 1) else (dst, 0))"
  have d: "wf d" "\<forall>j. get d j = (if j = k then get src k else get dst j)"
    using Cons.prems by (auto simp: d_def wf_put wf_del get_put get_del split: option.splits)
  have "fst (diff_bytes_table_by_keys get put del (k # keys) src dst) = fst (diff_bytes_table_by_keys get put del keys src d)"
    by (simp add: d_def Let_def split_beta)
  with Cons.IH [OF d(1)] d(2) show ?case by auto
qed simp

end

lemma diff_table_bt:
  assumes "bt_wf dst" and "bt_wf src"
  shows "bt_wf (fst (diff_bytes_table map_of bt_insert bt_remove src dst)) \<and>
    map_of (fst (diff_bytes_table map_of bt_insert bt_remove src dst)) = map_of src"
proof -
  define d where "d = fst (diff_update map_of bt_insert src dst)"
  have u: "bt_wf d" "\<forall>k. map_of d k = (case map_of src k of None \<Rightarrow> map_of dst k | Some v \<Rightarrow> Some v)"
    using bt.diff_update_get [OF assms(1) bt_wf_distinct [OF assms(2)]] by (simp_all add: d_def)
  have "fst (diff_bytes_table map_of bt_insert bt_remove src dst) = fst (diff_remove bt_remove (set (map fst src)) (map fst d) d)"
    by (simp add: diff_bytes_table_def Let_def split_beta d_def)
  moreover have "(if k \<in> set (map fst d) \<and> k \<notin> set (map fst src) then None else map_of d k) = map_of src k" for k
    using u(2) [rule_format, of k] map_of_eq_None_iff [of d k] map_of_eq_None_iff [of src k] by (auto split: option.splits)
  ultimately show ?thesis using bt.diff_remove_get [OF u(1), of "set (map fst src)" "map fst d"] by (simp add: fun_eq_iff)
qed

lemma diff_table_hm:
  assumes "hm_wf dst" and "hm_wf src"
  shows "hm_wf (fst (diff_bytes_table hm_get hm_insert hm_remove src dst)) \<and>
    hm_get (fst (diff_bytes_table hm_get hm_insert hm_remove src dst)) = hm_get src"
proof -
  define d where "d = fst (diff_update hm_get hm_insert src dst)"
  have "distinct (map fst src)" using assms(2) by (simp add: hm_wf_def)
  then have u: "hm_wf d" "\<forall>k. hm_get d k = (case map_of src k of None \<Rightarrow> hm_get dst k | Some v \<Rightarrow> Some v)"
    using hm.diff_update_get [OF assms(1), of src] by (simp_all add: d_def)
  have "fst (diff_bytes_table hm_get hm_insert hm_remove src dst) = fst (diff_remove hm_remove (set (map fst src)) (map fst d) d)"
    by (simp add: diff_bytes_table_def Let_def split_beta d_def)
  moreover have "(if k \<in> set (map fst d) \<and> k \<notin> set (map fst src) then None else hm_get d k) = hm_get src k" for k
    using u(2) [rule_format, of k] map_of_eq_None_iff [of d k] map_of_eq_None_iff [of src k]
    by (auto simp: hm_get_def split: option.splits)
  ultimately show ?thesis using hm.diff_remove_get [OF u(1), of "set (map fst src)" "map fst d"] by (simp add: fun_eq_iff)
qed

section \<open>The transactions and their marks\<close>

text \<open>
  What a transaction may do to the tables, with the file and path keys its writer marks as dirty
  after the commit. The last rule stands for all operations on the other tables.
\<close>

inductive txn :: "MetaDb \<Rightarrow> MetaDb \<Rightarrow> FileId set \<Rightarrow> string set \<Rightarrow> bool" where
  put: "put_file_in_txn m db = (db', r, old_id) \<Longrightarrow> txn db db' ({fm_id m} \<union> set_option old_id) {fm_path m}"
| put_batch: "put_files_in_txn ms db = (db', rs, fs, ps) \<Longrightarrow> txn db db' fs ps"
| group: "apply_ops ops db = (db', rs, fs, ps) \<Longrightarrow> txn db db' fs ps"
| delete: "\<forall>p. path = Some p \<longrightarrow> unused_path db p \<or> path_owner (db_paths db) p = Some i \<Longrightarrow>
    txn db (delete_file_in_txn now i for_good path cs db) {i}
      (set_option (map_option fm_path (good (map_of (db_files db) i))) \<union> set_option path)"
| delete_path: "unused_path db p \<Longrightarrow> txn db (remove_paths [p] db) {} {p}"
| unlist_rows: "rows = unlisted_rows live db \<Longrightarrow> txn db (remove_rows rows db) (set (map fst rows)) (set (map snd rows))"
| unlist_paths: "\<forall>j m. map_of (db_files db) j = Some (Good m) \<longrightarrow> fm_id m \<in> live \<Longrightarrow>
    txn db (remove_paths (unlisted_paths live db) db) {} (set (unlisted_paths live db))"
| other: "db_files db' = db_files db \<Longrightarrow> db_paths db' = db_paths db \<Longrightarrow> db_ok db' \<Longrightarrow> tables_wf db' \<Longrightarrow> txn db db' {} {}"

text \<open>\<open>agree A B\<close>: the same records outside \<open>A\<close> and the same owners of the paths outside \<open>B\<close>.\<close>

definition agree :: "FileId set \<Rightarrow> string set \<Rightarrow> MetaDb \<Rightarrow> MetaDb \<Rightarrow> bool" where
  "agree A B db db' \<longleftrightarrow>
     (\<forall>i. i \<notin> A \<longrightarrow> map_of (db_files db) i = map_of (db_files db') i) \<and>
     (\<forall>p. p \<notin> B \<longrightarrow> path_owner (db_paths db) p = path_owner (db_paths db') p)"

lemma agree_refl [simp]: "agree A B db db"
  by (simp add: agree_def)

lemma agree_same: "db_files db' = db_files db \<Longrightarrow> db_paths db' = db_paths db \<Longrightarrow> agree A B db db'"
  by (simp add: agree_def)

lemma agree_trans: "agree A B x y \<Longrightarrow> agree C D y z \<Longrightarrow> agree (A \<union> C) (B \<union> D) x z"
  by (simp add: agree_def)

lemma agree_mono: "agree A B x y \<Longrightarrow> A \<subseteq> A' \<Longrightarrow> B \<subseteq> B' \<Longrightarrow> agree A' B' x y"
  by (auto simp: agree_def)

lemma merge_path:
  "fm_path (fst (merge_file_metadata e m)) = fm_path m \<or> (\<exists>x. e = Some x \<and> fm_path (fst (merge_file_metadata e m)) = fm_path x)"
  by (cases e) (auto simp: merge_file_metadata_def Let_def)

lemma put_file_agree:
  assumes ok: "db_ok db" and p: "put_file_in_txn m db = (db', r, old_id)"
  shows "agree ({fm_id m} \<union> set_option old_id) {fm_path m} db db'"
proof (cases "file_tombstoned (fm_id m) db")
  case True
  with p show ?thesis by (simp add: put_file_in_txn_refused)
next
  case False
  obtain x st where x: "merge_file_metadata (good (map_of (db_files db) (fm_id m))) m = (x, st)"
    by (cases "merge_file_metadata (good (map_of (db_files db) (fm_id m))) m")
  have idx: "index_ok (db_files db) (db_paths db)" using ok by (simp add: db_ok_def)
  have own: "path_owner (db_paths db) (fm_path x) = Some (fm_id m)" if "fm_path x \<noteq> fm_path m"
  proof -
    from that x merge_path [of "good (map_of (db_files db) (fm_id m))" m] obtain e
      where e: "good (map_of (db_files db) (fm_id m)) = Some e" "fm_path x = fm_path e" by auto
    from index_okD(4) [OF idx good_SomeD [OF e(1)]] e(2) show ?thesis by simp
  qed
  from p put_file_in_txn_eq [OF False x refl] have e: "old_id = displaced (fm_id m) (fm_path x) (db_paths db)"
    "db' = db\<lparr>db_files := bt_insert (fm_id m) (Good (x\<lparr>fm_chunk_locations := []\<rparr>))
       (case old_id of None \<Rightarrow> db_files db | Some i \<Rightarrow> bt_remove i (db_files db)),
       db_paths := bt_insert (fm_path x) (PathId (fm_id m)) (db_paths db)\<rparr>" by auto
  have "path_owner (bt_insert (fm_path x) (PathId (fm_id m)) (db_paths db)) q =
      (if q = fm_path x then Some (fm_id m) else path_owner (db_paths db) q)" for q
    by (simp add: path_owner_def map_of_bt_insert)
  then show ?thesis
    using own by (auto simp: agree_def e(2) map_of_bt_insert map_of_bt_remove split: option.split)
qed

lemma put_files_agree:
  "db_ok db \<Longrightarrow> put_files_in_txn ms db = (db', rs, fs, ps) \<Longrightarrow> agree fs ps db db'"
proof (induction ms arbitrary: db db' rs fs ps)
  case (Cons m ms)
  obtain d1 r old where p: "put_file_in_txn m db = (d1, r, old)" by (cases "put_file_in_txn m db")
  obtain d2 rs2 fs2 ps2 where q: "put_files_in_txn ms d1 = (d2, rs2, fs2, ps2)" by (cases "put_files_in_txn ms d1")
  have "db_ok d1" using db_ok_put_file [OF Cons.prems(1), of m] p by simp
  from agree_trans [OF put_file_agree [OF Cons.prems(1) p] Cons.IH [OF this q]] Cons.prems(2) p q
  show ?case by (simp add: Un_assoc)
qed simp

lemma apply_op_agree:
  assumes "db_ok db" and "apply_op now op db = (db', r, fs, ps)"
  shows "agree fs ps db db'"
proof (cases "\<exists>ms. op = PutFilesBatch ms")
  case True
  with assms put_files_agree [OF assms(1)] show ?thesis by (auto split: prod.splits)
next
  case False
  then have "db_files (fst (apply_op now op db)) = db_files db \<and> db_paths (fst (apply_op now op db)) = db_paths db"
    by (cases op) (auto simp: update_chunks_def put_chunk_seq_in_txn_def put_patch_state_pending_in_txn_def
        update_folded_in_txn_def delete_patch_state_abandoned_in_txn_def put_pending_healing_batch_in_txn_def
        set_counter_def Let_def split_beta split: option.split)
  with assms(2) show ?thesis by (simp add: agree_same)
qed

lemma apply_ops_agree: "db_ok db \<Longrightarrow> apply_ops ops db = (db', rs, fs, ps) \<Longrightarrow> agree fs ps db db'"
proof (induction ops arbitrary: db db' rs fs ps)
  case (Cons p ops)
  obtain now op where p: "p = (now, op)" by (cases p)
  obtain d1 r fs1 ps1 where a: "apply_op now op db = (d1, r, fs1, ps1)" by (cases "apply_op now op db")
  obtain d2 rs2 fs2 ps2 where q: "apply_ops ops d1 = (d2, rs2, fs2, ps2)" by (cases "apply_ops ops d1")
  have "db_ok d1" using db_ok_apply_op [OF Cons.prems(1), of now op] a by simp
  from agree_trans [OF apply_op_agree [OF Cons.prems(1) a] Cons.IH [OF this q]] Cons.prems(2) p a q
  show ?case by simp
qed simp

lemma path_owner_del_all: "bt_wf paths \<Longrightarrow> p \<notin> set ps \<Longrightarrow> path_owner (fold bt_remove ps paths) p = path_owner paths p"
  by (simp add: path_owner_def bt.get_del_all)

text \<open>Every transaction keeps the invariants and changes no key that is not marked.\<close>

lemma txn_marks:
  "txn db db' fs ps \<Longrightarrow> db_ok db \<Longrightarrow> tables_wf db \<Longrightarrow> db_ok db' \<and> tables_wf db' \<and> agree fs ps db db'"
proof (induction rule: txn.induct)
  case (put m db db' r old_id)
  then show ?case using db_ok_put_file [of db m] tables_wf_put_file [of db m] put_file_agree [of db m] by simp
next
  case (put_batch ms db db' rs fs ps)
  then show ?case using db_ok_put_files [of db ms] tables_wf_put_files [of db ms] put_files_agree [of db ms] by simp
next
  case (group ops db db' rs fs ps)
  then show ?case using db_ok_apply_ops [of db ops] tables_wf_apply_ops [of db ops] apply_ops_agree [of db ops] by simp
next
  case (delete path db i now for_good cs)
  have "db_ok (delete_file_in_txn now i for_good path cs db)" using delete by (intro db_ok_delete_file) auto
  moreover have "agree {i} (set_option (map_option fm_path (good (map_of (db_files db) i))) \<union> set_option path) db
      (delete_file_in_txn now i for_good path cs db)"
    unfolding agree_def delete_file_tables
    by (auto simp: path_owner_def map_of_bt_remove split: option.splits)
  ultimately show ?case using delete.prems by (simp add: tables_wf_delete_file)
next
  case (delete_path db p)
  then have i: "index_ok (db_files db) (db_paths db)" by (simp add: db_ok_def)
  have "index_ok (db_files db) (fold bt_remove [p] (db_paths db))"
    by (rule index_ok_remove [OF i index_okD(1) [OF i]]) (simp_all add: unused_pathD [OF i delete_path.hyps])
  then have "db_ok (remove_paths [p] db)" by (intro db_ok_paths [OF delete_path.prems(1)]) (simp add: remove_paths_def)
  moreover have "agree {} {p} db (remove_paths [p] db)"
    by (simp add: agree_def remove_paths_def path_owner_def map_of_bt_remove)
  ultimately show ?case using delete_path.prems by (simp add: tables_wf_paths)
next
  case (unlist_rows rows live db)
  have "agree (set (map fst rows)) (set (map snd rows)) db (remove_rows rows db)"
    using path_owner_del_all [OF tables_wfD(2) [OF unlist_rows.prems(2)], of _ "map snd rows"]
    by (simp add: agree_def remove_rows_def bt.get_del_all [OF tables_wfD(1) [OF unlist_rows.prems(2)]])
  then show ?case using unlist_rows db_ok_remove_rows [of db live] by (simp add: tables_wf_paths)
next
  case (unlist_paths db live)
  have "agree {} (set (unlisted_paths live db)) db (remove_paths (unlisted_paths live db) db)"
    using path_owner_del_all [OF tables_wfD(2) [OF unlist_paths.prems(2)]] by (simp add: agree_def remove_paths_def)
  moreover have "db_ok (remove_paths (unlisted_paths live db) db)"
    using unlist_paths by (intro db_ok_remove_unlisted_paths) auto
  ultimately show ?case using unlist_paths.prems by (simp add: tables_wf_paths)
next
  case (other db' db)
  then show ?case by (simp add: agree_same)
qed

section \<open>Writers and compactor\<close>

text \<open>
  The steps of the compactor between which writers may run. \<open>Copying\<close> and \<open>Snapped\<close> hold the snapshot of
  an open read transaction, \<open>Drained\<close> the keys of \<open>take_dirty_keys\<close>.
\<close>

datatype compactor =
    Idle | Cleared | Copying MetaDb | CatchUp | Drained "FileId list" "string list" | Snapped "FileId list" "string list" MetaDb

record compaction =
  cp_live :: MetaDb
  cp_dirty_files :: "FileId set"
  cp_dirty_paths :: "string set"
  cp_unmarked :: "(FileId set \<times> string set) list"
  cp_shadow :: MetaDb
  cp_phase :: compactor

text \<open>\<open>compact_db_finish\<close>: the exclusive lock is granted when no writer is between commit and mark.\<close>

definition compact_db_finish :: "FileId list \<Rightarrow> string list \<Rightarrow> compaction \<Rightarrow> compaction option" where
  "compact_db_finish ks ps s =
     (if cp_phase s = CatchUp \<and> cp_unmarked s = [] \<and> set ks = cp_dirty_files s \<and> set ps = cp_dirty_paths s then
        Some (s\<lparr>cp_live := fst (diff_all_tables_tracked ks ps (cp_live s) (cp_shadow s)),
                cp_dirty_files := {}, cp_dirty_paths := {}, cp_phase := Idle\<rparr>)
      else None)"

inductive compact_step :: "compaction \<Rightarrow> compaction \<Rightarrow> bool" where
  commit: "txn (cp_live s) db' fs ps \<Longrightarrow>
    compact_step s (s\<lparr>cp_live := db', cp_unmarked := cp_unmarked s @ [(fs, ps)]\<rparr>)"
| mark: "cp_unmarked s = us @ (fs, ps) # vs \<Longrightarrow>
    compact_step s (s\<lparr>cp_unmarked := us @ vs, cp_dirty_files := cp_dirty_files s \<union> fs, cp_dirty_paths := cp_dirty_paths s \<union> ps\<rparr>)"
| start: "cp_phase s = Idle \<Longrightarrow>
    compact_step s (s\<lparr>cp_dirty_files := {}, cp_dirty_paths := {}, cp_phase := Cleared\<rparr>)"
| snapshot: "cp_phase s = Cleared \<Longrightarrow> compact_step s (s\<lparr>cp_phase := Copying (cp_live s)\<rparr>)"
| copied: "cp_phase s = Copying src \<Longrightarrow> copy_all_tables between within src = Some shadow \<Longrightarrow>
    compact_step s (s\<lparr>cp_shadow := shadow, cp_phase := CatchUp\<rparr>)"
| drain: "cp_phase s = CatchUp \<Longrightarrow> set ks = cp_dirty_files s \<Longrightarrow> set ps = cp_dirty_paths s \<Longrightarrow>
    compact_step s (s\<lparr>cp_dirty_files := {}, cp_dirty_paths := {}, cp_phase := Drained ks ps\<rparr>)"
| read_snapshot: "cp_phase s = Drained ks ps \<Longrightarrow> compact_step s (s\<lparr>cp_phase := Snapped ks ps (cp_live s)\<rparr>)"
| catch_up: "cp_phase s = Snapped ks ps src \<Longrightarrow>
    compact_step s (s\<lparr>cp_shadow := fst (diff_all_tables_tracked ks ps src (cp_shadow s)), cp_phase := CatchUp\<rparr>)"
| deferred: "compact_step s (s\<lparr>cp_phase := Idle\<rparr>)"
| finish: "compact_db_finish ks ps s = Some s' \<Longrightarrow> compact_step s s'"

inductive compact_reach :: "compaction \<Rightarrow> bool" where
  init: "db_ok (cp_live s) \<Longrightarrow> tables_wf (cp_live s) \<Longrightarrow> cp_phase s = Idle \<Longrightarrow> compact_reach s"
| step: "compact_reach s \<Longrightarrow> compact_step s s' \<Longrightarrow> compact_reach s'"

text \<open>The tables of two databases hold the same; a path resolves to the same file.\<close>

definition same_content :: "MetaDb \<Rightarrow> MetaDb \<Rightarrow> bool" where
  "same_content db db' \<longleftrightarrow>
     map_of (db_files db) = map_of (db_files db') \<and> path_owner (db_paths db) = path_owner (db_paths db') \<and>
     map_of (db_chunks db) = map_of (db_chunks db') \<and> map_of (db_meta_queue db) = map_of (db_meta_queue db') \<and>
     hm_get (db_meta_idx db) = hm_get (db_meta_idx db') \<and> hm_get (db_counters db) = hm_get (db_counters db') \<and>
     map_of (db_delete_queue db) = map_of (db_delete_queue db') \<and>
     map_of (db_pending_healing db) = map_of (db_pending_healing db') \<and>
     hm_get (db_refcounts db) = hm_get (db_refcounts db') \<and> map_of (db_patch_state db) = map_of (db_patch_state db') \<and>
     hm_get (db_fold_ts db) = hm_get (db_fold_ts db') \<and> map_of (db_fold_announce db) = map_of (db_fold_announce db') \<and>
     hm_get (db_patch_slot db) = hm_get (db_patch_slot db') \<and> hm_get (db_chunk_seq db) = hm_get (db_chunk_seq db') \<and>
     map_of (db_tombstones db) = map_of (db_tombstones db')"

lemma diff_paths_owner:
  assumes "bt_wf dst"
  shows "path_owner (fst (diff_bytes_table_by_keys map_of bt_insert bt_remove ps src dst)) p =
    (if p \<in> set ps then path_owner src p else path_owner dst p)"
  using bt.diff_by_keys_get [OF assms, of ps src] by (simp add: path_owner_def)

lemma diff_all_facts:
  assumes "tables_wf src" and "tables_wf dst"
  shows "tables_wf (fst (diff_all_tables_tracked ks ps src dst))"
    and "agree A B src dst \<Longrightarrow> A \<subseteq> set ks \<Longrightarrow> B \<subseteq> set ps \<Longrightarrow> same_content (fst (diff_all_tables_tracked ks ps src dst)) src"
    and "map_of (db_files (fst (diff_all_tables_tracked ks ps src dst))) i =
      (if i \<in> set ks then map_of (db_files src) i else map_of (db_files dst) i)"
    and "path_owner (db_paths (fst (diff_all_tables_tracked ks ps src dst))) p =
      (if p \<in> set ps then path_owner (db_paths src) p else path_owner (db_paths dst) p)"
proof -
  note W = tables_wfD [OF assms(1)] and V = tables_wfD [OF assms(2)]
  note F = bt.diff_by_keys_get [OF V(1), of ks "db_files src"] and P = bt.diff_by_keys_get [OF V(2), of ps "db_paths src"]
  note T = diff_table_bt [OF V(3) W(3)] diff_table_bt [OF V(4) W(4)] diff_table_hm [OF V(5) W(5)]
    diff_table_hm [OF V(6) W(6)] diff_table_bt [OF V(7) W(7)] diff_table_bt [OF V(8) W(8)] diff_table_hm [OF V(9) W(9)]
    diff_table_bt [OF V(10) W(10)] diff_table_hm [OF V(11) W(11)] diff_table_bt [OF V(12) W(12)]
    diff_table_hm [OF V(13) W(13)] diff_table_hm [OF V(14) W(14)] diff_table_bt [OF V(15) W(15)]
  show "tables_wf (fst (diff_all_tables_tracked ks ps src dst))"
    using F P T by (simp add: diff_all_tables_tracked_def tables_wf_def Let_def split_beta)
  show f: "map_of (db_files (fst (diff_all_tables_tracked ks ps src dst))) i =
      (if i \<in> set ks then map_of (db_files src) i else map_of (db_files dst) i)" for i
    using F by (simp add: diff_all_tables_tracked_def Let_def split_beta)
  show o: "path_owner (db_paths (fst (diff_all_tables_tracked ks ps src dst))) p =
      (if p \<in> set ps then path_owner (db_paths src) p else path_owner (db_paths dst) p)" for p
    using diff_paths_owner [OF V(2), of ps "db_paths src"] by (simp add: diff_all_tables_tracked_def Let_def split_beta)
  assume a: "agree A B src dst" "A \<subseteq> set ks" "B \<subseteq> set ps"
  have "map_of (db_files (fst (diff_all_tables_tracked ks ps src dst))) = map_of (db_files src)"
    using a by (auto simp: fun_eq_iff f agree_def)
  moreover have "path_owner (db_paths (fst (diff_all_tables_tracked ks ps src dst))) = path_owner (db_paths src)"
    using a by (auto simp: fun_eq_iff o agree_def)
  ultimately show "same_content (fst (diff_all_tables_tracked ks ps src dst)) src"
    using T by (simp add: same_content_def) (simp add: diff_all_tables_tracked_def Let_def split_beta)
qed

lemma copy_table_bt: "copy_table bt_insert l late src = Some t \<Longrightarrow> bt_wf src \<Longrightarrow> bt_wf t \<and> map_of t = map_of src"
proof -
  assume c: "copy_table bt_insert l late src = Some t" and w: "bt_wf src"
  have e: "bt_wf ([] :: ('a \<times> 'b) list)" by (simp add: bt_wf_def)
  from c have "copy_rows bt_insert late 0 src [] = Some t" by (simp add: copy_table_def split: if_splits)
  from bt.copy_rows_get [OF this e bt_wf_distinct [OF w]] show ?thesis by (auto simp: fun_eq_iff split: option.splits)
qed

lemma copy_table_hm: "copy_table hm_insert l late src = Some t \<Longrightarrow> hm_wf src \<Longrightarrow> hm_wf t \<and> hm_get t = hm_get src"
proof -
  assume c: "copy_table hm_insert l late src = Some t" and w: "hm_wf src"
  from c have r: "copy_rows hm_insert late 0 src [] = Some t" by (simp add: copy_table_def split: if_splits)
  from w have "distinct (map fst src)" by (simp add: hm_wf_def)
  from hm.copy_rows_get [OF r hm_wf_Nil this] show ?thesis
    by (auto simp: fun_eq_iff hm_get_def split: option.splits)
qed

lemma copy_all_facts:
  assumes c: "copy_all_tables between within src = Some shadow" and w: "tables_wf src"
  shows "tables_wf shadow \<and> same_content shadow src"
proof -
  note W = tables_wfD [OF w]
  show ?thesis
    using c W
    by (auto simp: copy_all_tables_def bind_eq_Some_conv tables_wf_def same_content_def path_owner_def fun_eq_iff
        dest!: copy_table_bt copy_table_hm)
qed

lemma same_content_agree: "same_content x y \<Longrightarrow> agree A B y x"
  by (simp add: same_content_def agree_def)

lemma db_ok_same:
  assumes "same_content db' db" and "tables_wf db'" and "db_ok db"
  shows "db_ok db'"
  using assms tables_wfD [OF assms(2)]
  by (simp add: db_ok_def index_ok_def tomb_ok_def patch_ok_def same_content_def file_tombstoned_def)

definition pend_files :: "compaction \<Rightarrow> FileId set" where
  "pend_files s = cp_dirty_files s \<union> \<Union> (fst ` set (cp_unmarked s))"

definition pend_paths :: "compaction \<Rightarrow> string set" where
  "pend_paths s = cp_dirty_paths s \<union> \<Union> (snd ` set (cp_unmarked s))"

definition phase_ok :: "FileId set \<Rightarrow> string set \<Rightarrow> MetaDb \<Rightarrow> MetaDb \<Rightarrow> compactor \<Rightarrow> bool" where
  "phase_ok pf pp live shadow ph =
     (case ph of
        Idle \<Rightarrow> True
      | Cleared \<Rightarrow> True
      | Copying src \<Rightarrow> tables_wf src \<and> agree pf pp live src
      | CatchUp \<Rightarrow> tables_wf shadow \<and> agree pf pp live shadow
      | Drained ks ps \<Rightarrow> tables_wf shadow \<and> agree (pf \<union> set ks) (pp \<union> set ps) live shadow
      | Snapped ks ps src \<Rightarrow> tables_wf shadow \<and> tables_wf src \<and> agree pf pp live src \<and>
          agree (pf \<union> set ks) (pp \<union> set ps) src shadow)"

definition compact_inv :: "compaction \<Rightarrow> bool" where
  "compact_inv s \<longleftrightarrow> db_ok (cp_live s) \<and> tables_wf (cp_live s) \<and>
     phase_ok (pend_files s) (pend_paths s) (cp_live s) (cp_shadow s) (cp_phase s)"

lemma agree_sym: "agree A B x y \<Longrightarrow> agree A B y x"
  by (simp add: agree_def)

lemma phase_ok_commit:
  assumes "phase_ok pf pp live shadow ph" and "agree fs ps live live'"
  shows "phase_ok (pf \<union> fs) (pp \<union> ps) live' shadow ph"
proof -
  have tr: "agree (pf \<union> fs \<union> C) (pp \<union> ps \<union> D) live' x" if "agree (pf \<union> C) (pp \<union> D) live x" for C D x
    using agree_trans [OF agree_sym [OF assms(2)] that] by (simp add: Un_commute Un_left_commute)
  have mono: "agree (pf \<union> fs \<union> C) (pp \<union> ps \<union> D) x y" if "agree (pf \<union> C) (pp \<union> D) x y" for C D x y
    using that by (rule agree_mono) auto
  show ?thesis
    using assms(1) tr [of "{}" "{}"] tr mono by (cases ph) (simp_all add: phase_ok_def)
qed

lemma finish_content:
  assumes "compact_inv s" and f: "compact_db_finish ks ps s = Some s'"
  shows "same_content (cp_live s') (cp_live s) \<and> tables_wf (cp_live s') \<and> cp_phase s' = Idle"
proof -
  from f have ph: "cp_phase s = CatchUp" "cp_unmarked s = []" "set ks = cp_dirty_files s" "set ps = cp_dirty_paths s"
    and s': "s' = s\<lparr>cp_live := fst (diff_all_tables_tracked ks ps (cp_live s) (cp_shadow s)),
                cp_dirty_files := {}, cp_dirty_paths := {}, cp_phase := Idle\<rparr>"
    by (auto simp: compact_db_finish_def split: if_splits)
  have w: "tables_wf (cp_live s)" "tables_wf (cp_shadow s)" "agree (set ks) (set ps) (cp_live s) (cp_shadow s)"
    using assms(1) ph by (simp_all add: compact_inv_def phase_ok_def pend_files_def pend_paths_def)
  from diff_all_facts(1,2) [OF w(1,2)] w(3) show ?thesis by (simp add: s')
qed

lemma compact_step_inv: "compact_step s s' \<Longrightarrow> compact_inv s \<Longrightarrow> compact_inv s'"
proof (induction rule: compact_step.induct)
  case (commit s db' fs ps)
  then have "db_ok db' \<and> tables_wf db' \<and> agree fs ps (cp_live s) db'" by (simp add: compact_inv_def txn_marks)
  with commit.prems show ?case
    using phase_ok_commit [of "pend_files s" "pend_paths s" "cp_live s" "cp_shadow s" "cp_phase s" fs ps db']
    by (simp add: compact_inv_def pend_files_def pend_paths_def Un_assoc Un_commute Un_left_commute)
next
  case (mark s us fs ps vs)
  then have "pend_files (s\<lparr>cp_unmarked := us @ vs, cp_dirty_files := cp_dirty_files s \<union> fs, cp_dirty_paths := cp_dirty_paths s \<union> ps\<rparr>) = pend_files s"
    and "pend_paths (s\<lparr>cp_unmarked := us @ vs, cp_dirty_files := cp_dirty_files s \<union> fs, cp_dirty_paths := cp_dirty_paths s \<union> ps\<rparr>) = pend_paths s"
    by (auto simp: pend_files_def pend_paths_def)
  with mark show ?case by (simp add: compact_inv_def)
next
  case (start s)
  then show ?case by (simp add: compact_inv_def phase_ok_def)
next
  case (snapshot s)
  then show ?case by (simp add: compact_inv_def phase_ok_def agree_def)
next
  case (copied s src between within shadow)
  from copied have w: "tables_wf src" "agree (pend_files s) (pend_paths s) (cp_live s) src" by (simp_all add: compact_inv_def phase_ok_def)
  from copy_all_facts [OF copied(2) w(1)] have c: "tables_wf shadow" "agree {} {} src shadow"
    by (simp_all add: same_content_agree)
  from agree_trans [OF w(2) c(2)] copied c(1) show ?case
    by (simp add: compact_inv_def phase_ok_def pend_files_def pend_paths_def)
next
  case (drain s ks ps)
  then show ?case by (simp add: compact_inv_def phase_ok_def pend_files_def pend_paths_def Un_commute)
next
  case (read_snapshot s ks ps)
  then show ?case by (simp add: compact_inv_def phase_ok_def agree_def pend_files_def pend_paths_def)
next
  case (catch_up s ks ps src)
  then have w: "tables_wf src" "tables_wf (cp_shadow s)" "agree (pend_files s) (pend_paths s) (cp_live s) src"
    "agree (pend_files s \<union> set ks) (pend_paths s \<union> set ps) src (cp_shadow s)"
    by (simp_all add: compact_inv_def phase_ok_def)
  have "agree (pend_files s) (pend_paths s) (cp_live s) (fst (diff_all_tables_tracked ks ps src (cp_shadow s)))"
    using w(3,4) by (auto simp: agree_def diff_all_facts(3,4) [OF w(1,2)])
  with catch_up diff_all_facts(1) [OF w(1,2)] show ?case
    by (simp add: compact_inv_def phase_ok_def pend_files_def pend_paths_def)
next
  case (deferred s)
  then show ?case by (simp add: compact_inv_def phase_ok_def)
next
  case (finish ks ps s s')
  from finish_content [OF finish(2,1)] db_ok_same [of "cp_live s'" "cp_live s"] finish(2) show ?case
    by (simp add: compact_inv_def phase_ok_def)
qed

lemma compact_reach_inv: "compact_reach s \<Longrightarrow> compact_inv s"
  by (induction rule: compact_reach.induct) (simp add: compact_inv_def phase_ok_def, rule compact_step_inv)



end
