(* ===== verification/Orphan_Sweep.thy ===== *)
theory Orphan_Sweep
  imports Chunk_Storage Chunk_Map Patch_Store Cluster
begin

text \<open>
  The sweep that removes orphaned chunk files (\<open>dfs-server/src/healing.rs\<close>) and the handlers of
  \<open>dfs-server/src/server.rs\<close> it asks: the gate on the state of the cluster, the scan of a page of
  chunk files against the two sources of liveness, the two-pass confirmation, the authorization by
  the leader or by every peer, the deletion, and the loop over the pages with its back-off.

  Instants are seconds of the monotonic clock. Answers of other nodes are a parameter: \<open>None\<close> is a
  failure, a timeout or an unexpected message.
\<close>

section \<open>Definitions\<close>

definition LEADER_CHANGE_GRACE_SECS :: nat where
  "LEADER_CHANGE_GRACE_SECS = 1200"

definition SELF_RESTART_GRACE_SECS :: nat where
  "SELF_RESTART_GRACE_SECS = LEADER_CHANGE_GRACE_SECS"

record ('c, 'w) HealingManager =
  he_storage :: "('c, 'w) ChunkStorage"
  he_metadata :: MetadataStore
  he_chunks :: ChunkState
  he_cluster :: ClusterManager
  he_orphan_candidates :: "ChunkId set"
  he_orphan_auth_cache :: "(nat \<times> ChunkId set) option"
  he_live_chunk_ids_cache :: "(ChunkId set \<times> nat) option"
  he_local_started_at :: nat

text \<open>What a pass finds around it: the clocks, the answers of the peers, and which reads and writes fail.\<close>

record sweep_env =
  ev_now :: nat
  ev_inst :: nat
  ev_auth_info :: "SocketAddr \<Rightarrow> (nat \<times> ChunkId set) option"
  ev_confirm :: "SocketAddr \<Rightarrow> ChunkId list \<Rightarrow> ChunkId list option"
  ev_live_set_cache_secs :: "nat option"
  ev_orphan_grace_secs :: "nat option"
  ev_live_read :: bool
  ev_present_read :: bool
  ev_recheck_read :: bool
  ev_remove_fails :: "ChunkId \<Rightarrow> bool"
  ev_io :: txn_io

definition disk_orphan_sweep_cluster_gate_clear :: "sweep_env \<Rightarrow> ('c, 'w) HealingManager \<Rightarrow> bool" where
  "disk_orphan_sweep_cluster_gate_clear e h =
     (let all_nodes = get_all_nodes (ev_now e) (he_cluster h);
          online = length (filter (\<lambda>n. ni_status n = Online) all_nodes);
          nodes_down = length all_nodes - online;
          grace_elapsed = (case time_since_became_leader (ev_inst e) (he_cluster h) of
                             None \<Rightarrow> True | Some d \<Rightarrow> d \<ge> LEADER_CHANGE_GRACE_SECS)
      in if nodes_down > 1 then False
         else if \<not> grace_elapsed then False
         else \<not> (ev_inst e - he_local_started_at h < SELF_RESTART_GRACE_SECS))"

definition cached_live_chunk_ids ::
    "sweep_env \<Rightarrow> ('c, 'w) HealingManager \<Rightarrow> ('c, 'w) HealingManager \<times> ChunkId set option" where
  "cached_live_chunk_ids e h =
     (let ttl = (case ev_live_set_cache_secs e of Some t \<Rightarrow> t | None \<Rightarrow> 60);
          fresh = live_chunk_ids (he_metadata h);
          refresh = (if ev_live_read e then (h\<lparr>he_live_chunk_ids_cache := Some (fresh, ev_inst e)\<rparr>, Some fresh) else (h, None))
      in case he_live_chunk_ids_cache h of
           Some (ids, computed_at) \<Rightarrow> if ev_inst e - computed_at < ttl then (h, Some ids) else refresh
         | None \<Rightarrow> refresh)"

definition live_chunk_ids_from_chunk_map :: "('c, 'w) HealingManager \<Rightarrow> ChunkId set" where
  "live_chunk_ids_from_chunk_map h = set (concat (map (\<lambda>(_, locs, _). map cl_chunk_id locs) (ck_map (he_chunks h))))"

subsection \<open>Authorization\<close>

definition STABILITY_SECS :: nat where
  "STABILITY_SECS = 300"

definition ORPHAN_AUTH_CACHE_TTL :: nat where
  "ORPHAN_AUTH_CACHE_TTL = 10"

text \<open>The answers of all peers; one that fails, or that started less than \<open>STABILITY_SECS\<close> ago, defers.\<close>

fun union_answers :: "(SocketAddr \<Rightarrow> (nat \<times> ChunkId set) option) \<Rightarrow> NodeInfo list \<Rightarrow> ChunkId set \<Rightarrow> ChunkId set option" where
  "union_answers ask [] acc = Some acc"
| "union_answers ask (n # ns) acc =
     (case ask (ni_addr n) of
        Some (uptime_secs, ids) \<Rightarrow> if uptime_secs < STABILITY_SECS then None else union_answers ask ns (acc \<union> ids)
      | None \<Rightarrow> None)"

definition authorize_live_file_orphan_deletes ::
    "sweep_env \<Rightarrow> ChunkId list \<Rightarrow> ('c, 'w) HealingManager \<Rightarrow> ('c, 'w) HealingManager \<times> ChunkId list option" where
  "authorize_live_file_orphan_deletes e candidates h =
     (if is_leader (he_cluster h) then
        let ask_all =
          (let peers = filter (\<lambda>n. ni_id n \<noteq> cm_local_node_id (he_cluster h)) (get_all_nodes (ev_now e) (he_cluster h))
           in case all_pending_patch_chunk_ids (he_metadata h) of
                None \<Rightarrow> (h, None)
              | Some pending_ids \<Rightarrow>
                  if list_ex (\<lambda>n. ni_status n \<noteq> Online) peers then (h, None)
                  else (case union_answers (ev_auth_info e) peers (pending_ids \<union> all_patch_token_ids (he_metadata h)) of
                          None \<Rightarrow> (h, None)
                        | Some all_ids \<Rightarrow>
                            (h\<lparr>he_orphan_auth_cache := Some (ev_inst e, all_ids)\<rparr>,
                             Some (filter (\<lambda>c. c \<notin> all_ids) candidates))))
        in (case he_orphan_auth_cache h of
              Some (cached_at, pending_ids) \<Rightarrow>
                if ev_inst e - cached_at < ORPHAN_AUTH_CACHE_TTL
                then (h, Some (filter (\<lambda>c. c \<notin> pending_ids) candidates)) else ask_all
            | None \<Rightarrow> ask_all)
      else
        (case get_leader_addr (he_cluster h) of
           None \<Rightarrow> (h, None)
         | Some leader_addr \<Rightarrow>
             (case ev_confirm e leader_addr candidates of
                None \<Rightarrow> (h, None)
              | Some live \<Rightarrow> (h, Some (filter (\<lambda>c. c \<notin> set live) candidates)))))"

text \<open>The handlers that answer: \<open>None\<close> is an error response.\<close>

definition handle_get_pending_patch_chunk_ids :: "('c, 'w) HealingManager \<Rightarrow> ChunkId set option" where
  "handle_get_pending_patch_chunk_ids h =
     (case all_pending_patch_chunk_ids (he_metadata h) of
        None \<Rightarrow> None
      | Some ids \<Rightarrow> Some (ids \<union> all_patch_token_ids (he_metadata h)))"

definition handle_get_orphan_auth_info :: "nat \<Rightarrow> ('c, 'w) HealingManager \<Rightarrow> (nat \<times> ChunkId set) option" where
  "handle_get_orphan_auth_info uptime_secs h =
     (case all_pending_patch_chunk_ids (he_metadata h) of
        None \<Rightarrow> None
      | Some ids \<Rightarrow> Some (uptime_secs, ids \<union> all_patch_token_ids (he_metadata h)))"

text \<open>The leader asks the peers it holds to be online, and gives up on the first that does not answer.\<close>

fun peers_pending :: "(SocketAddr \<Rightarrow> ChunkId set option) \<Rightarrow> NodeInfo list \<Rightarrow> ChunkId set \<Rightarrow> ChunkId set option" where
  "peers_pending ask [] acc = Some acc"
| "peers_pending ask (n # ns) acc =
     (case ask (ni_addr n) of None \<Rightarrow> None | Some ids \<Rightarrow> peers_pending ask ns (acc \<union> ids))"

definition handle_confirm_chunks_live ::
    "sweep_env \<Rightarrow> bool \<Rightarrow> (SocketAddr \<Rightarrow> ChunkId set option) \<Rightarrow> ChunkId list \<Rightarrow> ('c, 'w) HealingManager \<Rightarrow>
     ('c, 'w) HealingManager \<times> ChunkId list option" where
  "handle_confirm_chunks_live e healing ask chunk_ids h =
     (case (if healing then cached_live_chunk_ids e h
            else (h, if ev_live_read e then Some (live_chunk_ids (he_metadata h)) else None)) of
        (h', None) \<Rightarrow> (h', None)
      | (h', Some cached_live) \<Rightarrow>
          let live_set1 = set (filter (\<lambda>c. hm_get (ck_to_file (he_chunks h')) c \<noteq> None) chunk_ids);
              live_set2 = (case all_pending_patch_chunk_ids (he_metadata h') of None \<Rightarrow> live_set1 | Some ids \<Rightarrow> live_set1 \<union> ids);
              live_set3 = live_set2 \<union> all_patch_token_ids (he_metadata h');
              peers = filter (\<lambda>n. ni_id n \<noteq> cm_local_node_id (he_cluster h') \<and> ni_status n = Online)
                        (get_all_nodes (ev_now e) (he_cluster h'))
          in (h', Some (case peers_pending ask peers live_set3 of
                          None \<Rightarrow> chunk_ids
                        | Some live_set \<Rightarrow> filter (\<lambda>c. c \<in> cached_live \<or> c \<in> live_set) chunk_ids)))"

subsection \<open>The sweep\<close>

text \<open>The two-pass confirmation: the candidates seen for the second time.\<close>

fun debounce :: "nat \<Rightarrow> (ChunkId \<times> nat) list \<Rightarrow> ChunkId set \<Rightarrow> ChunkId set \<times> ChunkId list" where
  "debounce grace_secs [] tracked = (tracked, [])"
| "debounce grace_secs ((c, age_secs) # cs) tracked =
     (if looks_like_patch_token c then debounce grace_secs cs (tracked - {c})
      else if age_secs < grace_secs then debounce grace_secs cs tracked
      else if c \<in> tracked then
        (case debounce grace_secs cs (tracked - {c}) of (tracked', ready) \<Rightarrow> (tracked', c # ready))
      else debounce grace_secs cs (insert c tracked))"

fun evict_chunks ::
    "('c, ChunkId, byte list) lru \<Rightarrow> (ChunkId \<Rightarrow> bool) \<Rightarrow> ChunkId list \<Rightarrow> ('c, 'w) ChunkStorage \<Rightarrow>
     ('c, 'w) ChunkStorage \<times> ChunkId list" where
  "evict_chunks Lc fails [] st = (st, [])"
| "evict_chunks Lc fails (c # cs) st =
     (if looks_like_patch_token c then evict_chunks Lc fails cs st
      else case delete_chunk Lc (fails c) c ''live_file_orphan_sweep'' st of (st1, ok) \<Rightarrow>
        case evict_chunks Lc fails cs st1 of (st2, evicted) \<Rightarrow> (st2, if ok then c # evicted else evicted))"

definition reconcile_live_file_candidates ::
    "('c, ChunkId, byte list) lru \<Rightarrow> sweep_env \<Rightarrow> (ChunkId \<times> nat) list \<Rightarrow> nat \<Rightarrow> ('c, 'w) HealingManager \<Rightarrow>
     ('c, 'w) HealingManager" where
  "reconcile_live_file_candidates Lc e candidates grace_secs h =
     (if candidates = [] then h
      else case debounce grace_secs candidates (he_orphan_candidates h) of (tracked, ready_to_delete) \<Rightarrow>
        let h1 = h\<lparr>he_orphan_candidates := tracked\<rparr>
        in if ready_to_delete = [] then h1
           else case authorize_live_file_orphan_deletes e ready_to_delete h1 of
             (h2, None) \<Rightarrow> h2\<lparr>he_orphan_candidates := he_orphan_candidates h2 \<union> set ready_to_delete\<rparr>
           | (h2, Some authorized) \<Rightarrow>
               let tracked_rows = get_patch_states_present_batch authorized (he_metadata h2);
                   authorized' = (if ev_recheck_read e then filter (\<lambda>c. c \<notin> tracked_rows) authorized else authorized)
               in case evict_chunks Lc (ev_remove_fails e) authorized' (he_storage h2) of (st, evicted) \<Rightarrow>
                    let h3 = h2\<lparr>he_storage := st\<rparr>
                    in if evicted = [] then h3
                       else h3\<lparr>he_metadata := fst (batch_update_chunk_locations (ev_io e) [] evicted [] (he_metadata h3))\<rparr>)"

definition scan_page ::
    "sweep_env \<Rightarrow> ChunkId set \<Rightarrow> ChunkId set \<Rightarrow> ('c, 'w) HealingManager \<Rightarrow> ChunkId list \<Rightarrow> (ChunkId \<times> nat) list" where
  "scan_page e live_from_metadata live_from_chunk_map h chunks =
     (let age_secs = (\<lambda>c. case get_chunk_mtime (he_storage h) c of Some mtime \<Rightarrow> ev_now e - mtime | None \<Rightarrow> u64_max);
          found = map (\<lambda>c. (c, age_secs c))
            (filter (\<lambda>c. \<not> looks_like_patch_token c \<and> \<not> (c \<in> live_from_metadata \<or> c \<in> live_from_chunk_map)) chunks);
          tracked = get_patch_states_present_batch (map fst found) (he_metadata h)
      in if ev_present_read e then filter (\<lambda>(c, _). c \<notin> tracked) found else found)"

definition run_disk_orphan_sweep_over ::
    "('c, ChunkId, byte list) lru \<Rightarrow> sweep_env \<Rightarrow> ChunkId list \<Rightarrow> ('c, 'w) HealingManager \<Rightarrow>
     ('c, 'w) HealingManager \<times> ChunkId list" where
  "run_disk_orphan_sweep_over Lc e chunks h =
     (let grace_secs = (case ev_orphan_grace_secs e of Some g \<Rightarrow> g | None \<Rightarrow> 600);
          live_from_chunk_map = live_chunk_ids_from_chunk_map h
      in case cached_live_chunk_ids e h of
           (h1, None) \<Rightarrow> (h1, [])
         | (h1, Some live_from_metadata) \<Rightarrow>
             let candidates = scan_page e live_from_metadata live_from_chunk_map h1 chunks
             in (reconcile_live_file_candidates Lc e candidates grace_secs h1, map fst candidates))"

definition run_disk_orphan_sweep ::
    "('c, ChunkId, byte list) lru \<Rightarrow> sweep_env \<Rightarrow> ('c, 'w) HealingManager \<Rightarrow> ('c, 'w) HealingManager" where
  "run_disk_orphan_sweep Lc e h =
     (if \<not> disk_orphan_sweep_cluster_gate_clear e h then h
      else case list_chunks (he_storage h) of
        Panic \<Rightarrow> h
      | Ret (chunks, st) \<Rightarrow> fst (run_disk_orphan_sweep_over Lc e chunks (h\<lparr>he_storage := st\<rparr>)))"

subsection \<open>The loop over the pages\<close>

text \<open>Durations of the loop are milliseconds.\<close>

definition MIN_PAGE_DELAY :: nat where
  "MIN_PAGE_DELAY = 2000"

definition disk_sweep_next_delay :: "nat \<Rightarrow> nat \<Rightarrow> nat" where
  "disk_sweep_next_delay grace elapsed_this_iteration = max (grace - elapsed_this_iteration) MIN_PAGE_DELAY"

definition EMPTY_PAGES_BEFORE_BACKOFF :: nat where
  "EMPTY_PAGES_BEFORE_BACKOFF = 3"

definition SIGNIFICANT_CANDIDATES_THRESHOLD :: nat where
  "SIGNIFICANT_CANDIDATES_THRESHOLD = 20"

definition disk_sweep_next_backoff :: "nat \<Rightarrow> nat \<Rightarrow> nat \<Rightarrow> nat \<Rightarrow> nat \<Rightarrow> nat \<times> nat" where
  "disk_sweep_next_backoff candidates_found consecutive_empty_pages current_grace base_grace max_grace =
     (if candidates_found \<ge> SIGNIFICANT_CANDIDATES_THRESHOLD then (base_grace, 0)
      else
        let next_empty_pages = min (consecutive_empty_pages + 1) (2 ^ 32 - 1);
            next_grace = (if next_empty_pages \<ge> EMPTY_PAGES_BEFORE_BACKOFF then min (current_grace * 2) max_grace
                          else current_grace)
        in (next_grace, next_empty_pages))"

record sweep_loop =
  sl_cursor :: "ChunkId option"
  sl_page_grace :: nat
  sl_empty_pages :: nat
  sl_previous :: "ChunkId set"
  sl_current :: "ChunkId set"

definition new_sweep_loop :: "nat \<Rightarrow> sweep_loop" where
  "new_sweep_loop base_grace =
     \<lparr>sl_cursor = None, sl_page_grace = base_grace, sl_empty_pages = 0, sl_previous = {}, sl_current = {}\<rparr>"

text \<open>
  One turn of \<open>run_disk_orphan_sweep_paginated_loop\<close>: \<open>enabled\<close> is false while healing is switched
  off or a compaction quiesces. The result has the pause before the next turn.
\<close>

definition sweep_turn ::
    "('c, ChunkId, byte list) lru \<Rightarrow> nat \<Rightarrow> nat \<Rightarrow> nat \<Rightarrow> sweep_env \<Rightarrow> bool \<Rightarrow> nat \<Rightarrow> sweep_loop \<Rightarrow>
     ('c, 'w) HealingManager \<Rightarrow> sweep_loop \<times> ('c, 'w) HealingManager \<times> nat" where
  "sweep_turn Lc page_size base_grace max_grace e enabled elapsed lp h =
     (if \<not> enabled \<or> \<not> disk_orphan_sweep_cluster_gate_clear e h then (lp, h, sl_page_grace lp)
      else case list_chunks_page (sl_cursor lp) page_size (he_storage h) of
        Panic \<Rightarrow> (lp, h, sl_page_grace lp)
      | Ret (page, st) \<Rightarrow>
          let h1 = h\<lparr>he_storage := st\<rparr>;
              (lp1, h2, net_new_candidates) =
                (if page = [] then (lp\<lparr>sl_cursor := None, sl_previous := sl_current lp, sl_current := {}\<rparr>, h1, 0)
                 else case run_disk_orphan_sweep_over Lc e page h1 of (h', candidate_ids) \<Rightarrow>
                   (lp\<lparr>sl_cursor := Some (last page), sl_current := sl_current lp \<union> set candidate_ids\<rparr>, h',
                    length (filter (\<lambda>c. c \<notin> sl_previous lp) candidate_ids)));
              (grace, empty_pages) =
                disk_sweep_next_backoff net_new_candidates (sl_empty_pages lp1) (sl_page_grace lp1) base_grace max_grace
          in (lp1\<lparr>sl_page_grace := grace, sl_empty_pages := empty_pages\<rparr>, h2, disk_sweep_next_delay grace elapsed))"

end
