(* ===== verification/Healing.thy ===== *)
theory Healing
  imports Orphan_Sweep Placement
begin

text \<open>
  The repair of replicas in \<open>dfs-server/src/healing.rs\<close>: the queue of chunks to heal with its timers,
  its cancellation by folds and its back-off, the choice of the work of a cycle, the heal of one
  under-replicated chunk, the trimming of an over-replicated one, and the batched commit of what the
  heals have found. Every metadata write of a step ends as \<open>hv_io\<close> says; instants are seconds of the
  monotonic clock.
\<close>

section \<open>Definitions\<close>

record HardSupersededSlot =
  hs_loser :: ChunkId
  hs_winner :: ChunkId
  hs_file_id :: FileId
  hs_chunk_idx :: nat
  hs_loser_gen :: nat
  hs_winner_gen :: nat

record ('c, 'w) Healer = "('c, 'w) HealingManager" +
  he_pending :: "(ChunkId, nat) hash_map"
  he_stalled :: "ChunkId set"
  he_in_flight :: "ChunkId set"
  he_cancelled :: "(ChunkId, nat) hash_map"
  he_push_failure :: "(ChunkId, nat \<times> nat) hash_map"
  he_urgent :: "ChunkId set"
  he_requeue :: "(ChunkId, nat) hash_map"
  he_alive_cache :: "(ChunkId, NodeId list) hash_map"
  he_superseded :: "ChunkId set"
  he_delay_secs :: nat
  he_rf :: nat
  he_max_per_cycle :: nat
  he_hard_superseded :: "(ChunkId, HardSupersededSlot) hash_map"

text \<open>
  The answers a heal gets: \<open>PushNotFound\<close> is the error response of a source that does not hold the
  chunk. \<open>hv_free\<close> tells whether a transfer slot of a node is free at once, \<open>hv_target_has\<close> and
  \<open>hv_source_has\<close> are the \<open>HasChunks\<close> answers after a push, \<open>hv_trim\<close> the answer to
  \<open>DeleteChunkReplica\<close>.
\<close>

datatype push_answer = PushOk | PushNotFound | PushFails

record heal_env =
  hv_now :: nat
  hv_now_ms :: nat
  hv_inst :: nat
  hv_io :: txn_io
  hv_free :: "NodeId \<Rightarrow> bool"
  hv_push :: "SocketAddr \<Rightarrow> SocketAddr \<Rightarrow> push_answer"
  hv_target_has :: "SocketAddr \<Rightarrow> bool"
  hv_source_has :: "SocketAddr \<Rightarrow> bool"
  hv_trim :: "SocketAddr \<Rightarrow> bool"
  hv_remove_fails :: bool

subsection \<open>The queue\<close>

definition mark_pending :: "heal_env \<Rightarrow> ChunkId \<Rightarrow> ('c, 'w) Healer \<Rightarrow> ('c, 'w) Healer" where
  "mark_pending e c h =
     (case hm_get (he_pending h) c of
        Some _ \<Rightarrow> h
      | None \<Rightarrow> h\<lparr>he_pending := hm_insert c (hv_inst e) (he_pending h),
                  he_metadata := fst (put_pending_healing (hv_io e) c (hv_now e) (he_metadata h))\<rparr>)"

definition mark_pending_deferred ::
    "heal_env \<Rightarrow> ChunkId \<Rightarrow> (ChunkId \<times> nat) list \<Rightarrow> ('c, 'w) Healer \<Rightarrow> ('c, 'w) Healer \<times> (ChunkId \<times> nat) list" where
  "mark_pending_deferred e c deferred h =
     (case hm_get (he_pending h) c of
        Some _ \<Rightarrow> (h, deferred)
      | None \<Rightarrow> (h\<lparr>he_pending := hm_insert c (hv_inst e) (he_pending h)\<rparr>, deferred @ [(c, hv_now e)]))"

definition clear_pending_static :: "heal_env \<Rightarrow> ChunkId \<Rightarrow> ('c, 'w) Healer \<Rightarrow> ('c, 'w) Healer" where
  "clear_pending_static e c h =
     (let existed = (hm_get (he_pending h) c \<noteq> None)
      in h\<lparr>he_pending := hm_remove c (he_pending h), he_urgent := he_urgent h - {c},
           he_metadata := (if existed then fst (delete_pending_healing (hv_io e) c (he_metadata h)) else he_metadata h)\<rparr>)"

definition clear_pending :: "heal_env \<Rightarrow> ChunkId \<Rightarrow> ('c, 'w) Healer \<Rightarrow> ('c, 'w) Healer" where
  "clear_pending e c h = (let h1 = clear_pending_static e c h in h1\<lparr>he_requeue := hm_remove c (he_requeue h1)\<rparr>)"

definition clear_pending_batch :: "ChunkId list \<Rightarrow> ('c, 'w) Healer \<Rightarrow> ('c, 'w) Healer" where
  "clear_pending_batch cs h =
     h\<lparr>he_pending := fold hm_remove cs (he_pending h), he_stalled := he_stalled h - set cs\<rparr>"

definition cancel_healing :: "heal_env \<Rightarrow> ChunkId \<Rightarrow> ('c, 'w) Healer \<Rightarrow> ('c, 'w) Healer" where
  "cancel_healing e c h =
     (let h1 = clear_pending_static e c h
      in h1\<lparr>he_in_flight := he_in_flight h1 - {c}, he_cancelled := hm_insert c (hv_inst e) (he_cancelled h1)\<rparr>)"

definition retract_healing_cancellation :: "ChunkId \<Rightarrow> ('c, 'w) Healer \<Rightarrow> ('c, 'w) Healer" where
  "retract_healing_cancellation c h = h\<lparr>he_cancelled := hm_remove c (he_cancelled h)\<rparr>"

definition CANCEL_TOMBSTONE_TTL :: nat where
  "CANCEL_TOMBSTONE_TTL = 150"

definition is_healing_cancelled :: "nat \<Rightarrow> ('c, 'w) Healer \<Rightarrow> ChunkId \<Rightarrow> bool" where
  "is_healing_cancelled inst h c =
     (case hm_get (he_cancelled h) c of Some t \<Rightarrow> inst - t < CANCEL_TOMBSTONE_TTL | None \<Rightarrow> False)"

definition HEAL_PUSH_FAILURE_BASE :: nat where
  "HEAL_PUSH_FAILURE_BASE = 60"

definition HEAL_PUSH_FAILURE_CAP :: nat where
  "HEAL_PUSH_FAILURE_CAP = 1800"

definition heal_push_failure_backoff_active :: "nat \<Rightarrow> ('c, 'w) Healer \<Rightarrow> ChunkId \<Rightarrow> bool" where
  "heal_push_failure_backoff_active inst h c =
     (case hm_get (he_push_failure h) c of
        Some (last_failure, n) \<Rightarrow>
          inst - last_failure < min (HEAL_PUSH_FAILURE_BASE * 2 ^ min n 5) HEAL_PUSH_FAILURE_CAP
      | None \<Rightarrow> False)"

definition clear_pending_for_deleted_chunks :: "heal_env \<Rightarrow> ChunkId list \<Rightarrow> ('c, 'w) Healer \<Rightarrow> ('c, 'w) Healer" where
  "clear_pending_for_deleted_chunks e cs h =
     (let to_delete = filter (\<lambda>c. hm_get (he_pending h) c \<noteq> None) (remdups cs)
      in h\<lparr>he_pending := fold hm_remove cs (he_pending h), he_urgent := he_urgent h - set cs,
           he_metadata := fst (batch_update_chunk_locations (hv_io e) [] [] to_delete (he_metadata h))\<rparr>)"

text \<open>The batch lookup of the locations of chunks fails on a corrupt row of one of them.\<close>

definition lookup_fails :: "ChunkId set \<Rightarrow> MetadataStore \<Rightarrow> bool" where
  "lookup_fails cs m \<longleftrightarrow> (\<exists>c \<in> cs. map_of (db_chunks (ms_db m)) c = Some Corrupt)"

definition located :: "MetadataStore \<Rightarrow> ChunkId \<Rightarrow> bool" where
  "located m c \<longleftrightarrow> map_of (db_chunks (ms_db m)) c \<noteq> None"

definition cleanup_stale_pending :: "heal_env \<Rightarrow> ('c, 'w) Healer \<Rightarrow> ('c, 'w) Healer" where
  "cleanup_stale_pending e h =
     (let max_pending_time = he_delay_secs h * 20;
          too_old = map fst (filter (\<lambda>(c, t). hv_inst e - t > max_pending_time) (he_pending h));
          to_check = map fst (filter (\<lambda>(c, t). \<not> (hv_inst e - t > max_pending_time) \<and> \<not> looks_like_patch_token c) (he_pending h));
          to_remove = too_old @ (if lookup_fails (set to_check) (he_metadata h) then []
                                 else filter (\<lambda>c. \<not> located (he_metadata h) c) to_check);
          h1 = h\<lparr>he_pending := fold hm_remove to_remove (he_pending h)\<rparr>;
          h2 = (if to_remove = [] then h1
                else h1\<lparr>he_urgent := he_urgent h1 - set to_remove,
                       he_metadata := fst (batch_update_chunk_locations (hv_io e) [] [] to_remove (he_metadata h1))\<rparr>)
      in if lookup_fails (he_stalled h2) (he_metadata h2) then h2
         else h2\<lparr>he_stalled := {c \<in> he_stalled h2. located (he_metadata h2) c}\<rparr>)"

definition should_heal ::
    "heal_env \<Rightarrow> ChunkId \<Rightarrow> (ChunkId \<times> nat) list \<Rightarrow> ('c, 'w) Healer \<Rightarrow> (('c, 'w) Healer \<times> (ChunkId \<times> nat) list) \<times> bool" where
  "should_heal e c deferred h =
     (case hm_get (he_pending h) c of
        Some t \<Rightarrow> ((h, deferred), hv_inst e - t \<ge> he_delay_secs h)
      | None \<Rightarrow> (mark_pending_deferred e c deferred h, False))"

definition evict_from_pending :: "heal_env \<Rightarrow> ChunkId \<Rightarrow> ('c, 'w) Healer \<Rightarrow> ('c, 'w) Healer" where
  "evict_from_pending e c h = (let h1 = clear_pending e c h in h1\<lparr>he_stalled := he_stalled h1 - {c}\<rparr>)"

definition queue_chunks_immediate_local :: "heal_env \<Rightarrow> ChunkId list \<Rightarrow> bool \<Rightarrow> ('c, 'w) Healer \<Rightarrow> ('c, 'w) Healer" where
  "queue_chunks_immediate_local e chunk_ids urgent h =
     (let live = (\<lambda>c. looks_like_patch_token c \<or> (\<exists>l. get_chunk_location c (he_metadata h) = Some (Some l)));
          cs = (if is_leader (he_cluster h) then filter live chunk_ids else chunk_ids);
          backdated = hv_inst e - (he_delay_secs h + 1);
          backdated_secs = hv_now e - (he_delay_secs h + 1);
          fresh = set cs - fst ` set (he_pending h)
      in if is_leader (he_cluster h) \<and> cs = [] then h
         else h\<lparr>he_urgent := (if urgent then he_urgent h \<union> set cs else he_urgent h),
                he_pending := fold (\<lambda>c. hm_insert c backdated) cs (he_pending h),
                he_alive_cache := filter (\<lambda>p. fst p \<notin> fresh) (he_alive_cache h),
                he_metadata := fst (put_pending_healing_batch (hv_io e) (map (\<lambda>c. (c, backdated_secs)) cs) (he_metadata h))\<rparr>)"

subsection \<open>The work of a cycle\<close>

datatype ReplicationStatus = UnderReplicated | ReplicationOk | OverReplicated

fun severity_rank :: "ReplicationStatus \<Rightarrow> nat" where
  "severity_rank UnderReplicated = 0"
| "severity_rank ReplicationOk = 1"
| "severity_rank OverReplicated = 2"

text \<open>The last component is \<open>Reverse(age)\<close>: the older first.\<close>

definition heal_queue_sort_key :: "bool \<Rightarrow> ReplicationStatus \<Rightarrow> nat \<Rightarrow> nat \<Rightarrow> nat \<times> nat \<times> nat \<times> int" where
  "heal_queue_sort_key is_urgent status alive_count age =
     (if is_urgent then 0 else 1, severity_rank status, alive_count, - int age)"

definition effective_heal_priority_age :: "nat option \<Rightarrow> nat option \<Rightarrow> nat" where
  "effective_heal_priority_age since_last_failure since_detected =
     (case since_last_failure of Some a \<Rightarrow> a | None \<Rightarrow> (case since_detected of Some a \<Rightarrow> a | None \<Rightarrow> 0))"

definition destructive_ok :: "heal_env \<Rightarrow> ('c, 'w) Healer \<Rightarrow> bool" where
  "destructive_ok e h =
     (let all_nodes = get_all_nodes (hv_now e) (he_cluster h);
          online = length (filter (\<lambda>n. ni_status n = Online) all_nodes);
          nodes_down = length all_nodes - online;
          grace_elapsed = (case time_since_became_leader (hv_inst e) (he_cluster h) of
                             None \<Rightarrow> True | Some d \<Rightarrow> d \<ge> LEADER_CHANGE_GRACE_SECS)
      in grace_elapsed \<and> nodes_down \<le> 1)"

definition heal_status :: "bool \<Rightarrow> nat \<Rightarrow> NodeId list \<Rightarrow> ReplicationStatus option" where
  "heal_status destructive_allowed rf alive =
     (if length alive < rf then Some UnderReplicated
      else if length alive > rf then if destructive_allowed then Some OverReplicated else None
      else None)"

text \<open>The choice of \<open>drain_heal_queue\<close>; \<open>probed\<close> are the holders a direct probe finds for a chunk no discovery has classified.\<close>

definition drain_work ::
    "heal_env \<Rightarrow> (ChunkId \<Rightarrow> NodeId list) \<Rightarrow> ('c, 'w) Healer \<Rightarrow>
     ('c, 'w) Healer \<times> (ChunkId \<times> ReplicationStatus \<times> NodeId list) list" where
  "drain_work e probed h =
     (let destructive_allowed = destructive_ok e h;
          due = filter (\<lambda>c. c \<notin> he_in_flight h \<and> c \<notin> he_stalled h)
                  (map fst (filter (\<lambda>(c, t). hv_inst e - t \<ge> he_delay_secs h) (he_pending h)));
          alive_of = (\<lambda>c. case hm_get (he_alive_cache h) c of Some ns \<Rightarrow> ns | None \<Rightarrow> probed c);
          misses = filter (\<lambda>c. hm_get (he_alive_cache h) c = None) due;
          hits = filter (\<lambda>c. hm_get (he_alive_cache h) c \<noteq> None) due;
          v = List.map_filter (\<lambda>c. map_option (\<lambda>st. (c, st, alive_of c)) (heal_status destructive_allowed (he_rf h) (alive_of c)))
                (hits @ misses);
          age = (\<lambda>c. effective_heal_priority_age (map_option (\<lambda>t. hv_inst e - t) (hm_get (he_requeue h) c))
                       (map_option (\<lambda>t. hv_inst e - t) (hm_get (he_pending h) c)));
          key = (\<lambda>(c, st, ns). heal_queue_sort_key (c \<in> he_urgent h) st (length ns) (age c))
      in (h\<lparr>he_alive_cache := fold (\<lambda>c. hm_insert c (probed c)) misses (he_alive_cache h)\<rparr>,
          take (he_max_per_cycle h) (sort_key key v)))"

subsection \<open>Healing one chunk\<close>

record HealOutcome =
  ho_chunk_id :: ChunkId
  ho_location_put :: "ChunkLocation option"
  ho_location_delete :: "ChunkId option"
  ho_clear_pending :: bool
  ho_broadcast :: bool

definition clear_only :: "ChunkId \<Rightarrow> HealOutcome" where
  "clear_only c = \<lparr>ho_chunk_id = c, ho_location_put = None, ho_location_delete = None, ho_clear_pending = True, ho_broadcast = False\<rparr>"

definition delete_outcome :: "ChunkId \<Rightarrow> HealOutcome" where
  "delete_outcome c =
     \<lparr>ho_chunk_id = c, ho_location_put = None, ho_location_delete = Some c, ho_clear_pending = True, ho_broadcast = False\<rparr>"

definition put_outcome :: "ChunkId \<Rightarrow> ChunkLocation \<Rightarrow> bool \<Rightarrow> HealOutcome" where
  "put_outcome c l clear =
     \<lparr>ho_chunk_id = c, ho_location_put = Some l, ho_location_delete = None, ho_clear_pending = clear, ho_broadcast = True\<rparr>"

datatype heal_result = HealErr | Healed "HealOutcome option"

definition cluster_fully_healthy :: "heal_env \<Rightarrow> ('c, 'w) Healer \<Rightarrow> bool" where
  "cluster_fully_healthy e h =
     (let all_nodes = get_all_nodes (hv_now e) (he_cluster h)
      in all_nodes \<noteq> [] \<and> length (filter (\<lambda>n. ni_status n = Online) all_nodes) = length all_nodes \<and>
         (case time_since_became_leader (hv_inst e) (he_cluster h) of None \<Rightarrow> True | Some d \<Rightarrow> d \<ge> LEADER_CHANGE_GRACE_SECS))"

text \<open>The guard against healing a superseded generation of a live file.\<close>

definition superseded_generation :: "heal_env \<Rightarrow> ChunkId \<Rightarrow> FileId \<Rightarrow> ('c, 'w) Healer \<Rightarrow> bool" where
  "superseded_generation e c i h =
     (cluster_fully_healthy e h \<and>
      (case get_file i (he_metadata h) of
         Some (Some m) \<Rightarrow> fm_chunk_locations m \<noteq> [] \<and> c \<notin> cl_chunk_id ` set (fm_chunk_locations m)
       | _ \<Rightarrow> False))"

definition resolve_nodes :: "('c, 'w) Healer \<Rightarrow> NodeId list \<Rightarrow> (NodeId \<times> SocketAddr) list" where
  "resolve_nodes h ns = List.map_filter (\<lambda>n. map_option (\<lambda>i. (n, ni_addr i)) (get_node (he_cluster h) n)) ns"

text \<open>The nodes that count as holders, and whether this node was added because it holds the chunk unrecorded.\<close>

definition heal_alive :: "ChunkId \<Rightarrow> NodeId list \<Rightarrow> ('c, 'w) Healer \<Rightarrow> (NodeId \<times> SocketAddr) list \<times> bool" where
  "heal_alive c confirmed h =
     (let alive = resolve_nodes h confirmed;
          local_id = cm_local_node_id (he_cluster h)
      in if local_id \<notin> fst ` set alive \<and> has_chunk (he_storage h) c then
           (case get_node (he_cluster h) local_id of
              Some i \<Rightarrow> (alive @ [(local_id, ni_addr i)], True)
            | None \<Rightarrow> (alive, False))
         else (alive, False))"

definition heal_source :: "heal_env \<Rightarrow> (NodeId \<times> SocketAddr) list \<Rightarrow> ('c, 'w) Healer \<Rightarrow> NodeId \<times> SocketAddr" where
  "heal_source e alive h =
     (let remote = filter (\<lambda>(n, _). n \<noteq> cm_local_node_id (he_cluster h)) alive;
          preferred = (if remote = [] then alive else remote)
      in case find (\<lambda>(n, _). hv_free e n) preferred of Some s \<Rightarrow> s | None \<Rightarrow> hd preferred)"

text \<open>The pushes to the targets: the early end at a source that lost the chunk, or the nodes that confirmed it.\<close>

fun push_targets ::
    "heal_env \<Rightarrow> ('c, 'w) Healer \<Rightarrow> ChunkId \<Rightarrow> ChunkLocation \<Rightarrow> NodeId list \<Rightarrow> NodeId \<times> SocketAddr \<Rightarrow> NodeId list \<Rightarrow>
     HealOutcome + NodeId list" where
  "push_targets e h c l base src [] = Inr []"
| "push_targets e h c l base src (t # ts) =
     (case get_node (he_cluster h) t of
        None \<Rightarrow> push_targets e h c l base src ts
      | Some i \<Rightarrow>
          (case hv_push e (snd src) (ni_addr i) of
             PushOk \<Rightarrow>
               (case push_targets e h c l base src ts of
                  Inl out \<Rightarrow> Inl out
                | Inr rs \<Rightarrow> Inr (if hv_target_has e (ni_addr i) then t # rs else rs))
           | PushNotFound \<Rightarrow>
               (let remaining = filter (\<lambda>n. n \<noteq> fst src) base
                in Inl (if remaining \<noteq> [] then put_outcome c (l\<lparr>cl_nodes := remaining\<rparr>) False else delete_outcome c))
           | PushFails \<Rightarrow> push_targets e h c l base src ts))"

definition push_failed :: "heal_env \<Rightarrow> ChunkId \<Rightarrow> ('c, 'w) Healer \<Rightarrow> ('c, 'w) Healer" where
  "push_failed e c h =
     (let n = (case hm_get (he_push_failure h) c of Some (_, n) \<Rightarrow> n | None \<Rightarrow> 0)
      in h\<lparr>he_push_failure := hm_insert c (hv_inst e, min (n + 1) (2 ^ 32 - 1)) (he_push_failure h)\<rparr>)"

definition heal_transfer ::
    "(64 word \<Rightarrow> nat \<Rightarrow> 'k::linorder) \<Rightarrow> heal_env \<Rightarrow> ChunkId \<Rightarrow> ChunkLocation \<Rightarrow> (NodeId \<times> SocketAddr) list \<Rightarrow>
     ('c, 'w) Healer \<Rightarrow> (('c, 'w) Healer \<times> heal_result) outcome" where
  "heal_transfer key e c l alive h =
     (let base_nodes = map fst alive;
          needed = he_rf h - length alive
      in case get_nodes_with_capacity_awareness key (hv_now e) (he_cluster h) c (he_rf h + needed) of
           Panic \<Rightarrow> Panic
         | Ret candidates \<Rightarrow>
             let targets = take needed (filter (\<lambda>n. n \<notin> set base_nodes) candidates);
                 src = heal_source e alive h
             in if targets = [] then Ret (h, Healed None)
                else case push_targets e h c l base_nodes src targets of
                  Inl out \<Rightarrow> Ret (h, Healed (Some out))
                | Inr replicated \<Rightarrow>
                    if replicated = [] then Ret (push_failed e c h, HealErr)
                    else if is_healing_cancelled (hv_inst e) h c \<or> \<not> hv_source_has e (snd src) then Ret (h, Healed (Some (clear_only c)))
                    else Ret (h\<lparr>he_push_failure := hm_remove c (he_push_failure h)\<rparr>,
                              Healed (Some (put_outcome c (l\<lparr>cl_chunk_id := c, cl_nodes := base_nodes @ replicated,
                                                           cl_written_at := Some (hv_now_ms e)\<rparr>) True))))"

definition do_heal_chunk_inner ::
    "(64 word \<Rightarrow> nat \<Rightarrow> 'k::linorder) \<Rightarrow> heal_env \<Rightarrow> ChunkId \<Rightarrow> NodeId list \<Rightarrow> ('c, 'w) Healer \<Rightarrow>
     (('c, 'w) Healer \<times> heal_result) outcome" where
  "do_heal_chunk_inner key e c confirmed_alive h =
     (if looks_like_patch_token c then Ret (h, Healed (Some (clear_only c)))
      else if \<exists>st. get_patch_state c (he_metadata h) = Some (Some st) then Ret (h, Healed (Some (clear_only c)))
      else case get_chunk_location c (he_metadata h) of
        Some (Some l) \<Rightarrow>
          (case cl_file_id l of
             None \<Rightarrow> Ret (h, Healed (Some (clear_only c)))
           | Some i \<Rightarrow>
               if \<not> file_exists_by_id i (he_metadata h) then Ret (h, Healed (Some (delete_outcome c)))
               else if superseded_generation e c i h then Ret (h, Healed (Some (clear_only c)))
               else case heal_alive c confirmed_alive h of (alive, local_added) \<Rightarrow>
                 if alive = [] then Ret (h, HealErr)
                 else if he_rf h - length alive = 0 then
                   (if local_added \<and> \<not> is_healing_cancelled (hv_inst e) h c
                    then Ret (h, Healed (Some (put_outcome c (l\<lparr>cl_chunk_id := c, cl_nodes := map fst alive,
                                                              cl_written_at := Some (hv_now_ms e)\<rparr>) True)))
                    else Ret (h, Healed (Some (clear_only c))))
                 else heal_transfer key e c l alive h)
      | _ \<Rightarrow> Ret (h, HealErr))"

definition do_heal_chunk_shared ::
    "(64 word \<Rightarrow> nat \<Rightarrow> 'k::linorder) \<Rightarrow> heal_env \<Rightarrow> ChunkId \<Rightarrow> NodeId list \<Rightarrow> ('c, 'w) Healer \<Rightarrow>
     (('c, 'w) Healer \<times> heal_result) outcome" where
  "do_heal_chunk_shared key e c confirmed_alive h =
     (if c \<in> he_in_flight h then Ret (h, Healed None)
      else case do_heal_chunk_inner key e c confirmed_alive (h\<lparr>he_in_flight := insert c (he_in_flight h)\<rparr>) of
        Panic \<Rightarrow> Panic
      | Ret (h1, r) \<Rightarrow> Ret (h1\<lparr>he_in_flight := he_in_flight h1 - {c}\<rparr>, r))"

subsection \<open>Trimming one chunk\<close>

definition trim_choice :: "heal_env \<Rightarrow> NodeId list \<Rightarrow> ('c, 'w) Healer \<Rightarrow> NodeId" where
  "trim_choice e ns h =
     (let pair = take 2 (sort ns);
          non_pair = filter (\<lambda>n. n \<notin> set pair) ns;
          pool = (if non_pair \<noteq> [] then non_pair else ns)
      in case most_utilized_node (hv_now e) (he_cluster h) pool of Some n \<Rightarrow> n | None \<Rightarrow> last pool)"

text \<open>The result tells whether the lookup of the location succeeded, and the record that is broadcast.\<close>

definition do_cleanup_excess_inner ::
    "('c, ChunkId, byte list) lru \<Rightarrow> heal_env \<Rightarrow> ChunkId \<Rightarrow> NodeId list \<Rightarrow> ('c, 'w) Healer \<Rightarrow>
     ('c, 'w) Healer \<times> bool \<times> ChunkLocation option" where
  "do_cleanup_excess_inner Lc e c confirmed_alive h =
     (if looks_like_patch_token c then (h, True, None)
      else case get_chunk_location c (he_metadata h) of
        Some (Some l) \<Rightarrow>
          (let alive = resolve_nodes h confirmed_alive;
               trim_id = trim_choice e (map fst alive) h
           in if length alive - he_rf h = 0 then (h, True, None)
              else case map_of alive trim_id of
                None \<Rightarrow> (h, True, None)
              | Some trim_addr \<Rightarrow>
                  let (st, trimmed) =
                        (if trim_id = cm_local_node_id (he_cluster h)
                         then delete_chunk Lc (hv_remove_fails e) c ''over_replication_trim'' (he_storage h)
                         else (he_storage h, hv_trim e trim_addr));
                      h1 = h\<lparr>he_storage := st\<rparr>
                  in if \<not> trimmed then (h1, True, None)
                     else
                       let l' = l\<lparr>cl_chunk_id := c, cl_nodes := filter (\<lambda>n. n \<noteq> trim_id) (cl_nodes l), cl_written_at := Some (hv_now_ms e)\<rparr>;
                           (m, r) = put_chunk_location (hv_io e) l' (he_metadata h1)
                       in (h1\<lparr>he_metadata := m\<rparr>, True, if r \<noteq> None then Some l' else None))
      | _ \<Rightarrow> (h, False, None))"

definition do_cleanup_excess_shared ::
    "('c, ChunkId, byte list) lru \<Rightarrow> heal_env \<Rightarrow> ChunkId \<Rightarrow> NodeId list \<Rightarrow> ('c, 'w) Healer \<Rightarrow>
     ('c, 'w) Healer \<times> bool \<times> ChunkLocation option" where
  "do_cleanup_excess_shared Lc e c confirmed_alive h =
     (if c \<in> he_in_flight h then (h, True, None)
      else case do_cleanup_excess_inner Lc e c confirmed_alive (h\<lparr>he_in_flight := insert c (he_in_flight h)\<rparr>) of
        (h1, r) \<Rightarrow> (h1\<lparr>he_in_flight := he_in_flight h1 - {c}\<rparr>, r))"

subsection \<open>Committing the heals\<close>

record flush =
  fl_puts :: "ChunkLocation list"
  fl_deletes :: "ChunkId list"
  fl_clears :: "ChunkId list"
  fl_broadcasts :: "ChunkLocation list"

definition flush_add :: "nat \<Rightarrow> ('c, 'w) Healer \<Rightarrow> HealOutcome \<Rightarrow> flush \<Rightarrow> flush" where
  "flush_add inst h out f =
     (let clears = (if ho_clear_pending out then fl_clears f @ [ho_chunk_id out] else fl_clears f)
      in if ho_location_put out \<noteq> None \<and> is_healing_cancelled inst h (ho_chunk_id out) then f\<lparr>fl_clears := clears\<rparr>
         else \<lparr>fl_puts = fl_puts f @ (case ho_location_put out of Some l \<Rightarrow> [l] | None \<Rightarrow> []),
               fl_deletes = fl_deletes f @ (case ho_location_delete out of Some c \<Rightarrow> [c] | None \<Rightarrow> []),
               fl_clears = clears,
               fl_broadcasts = fl_broadcasts f @ (case ho_location_put out of Some l \<Rightarrow> if ho_broadcast out then [l] else [] | None \<Rightarrow> [])\<rparr>)"

definition flush_of :: "nat \<Rightarrow> ('c, 'w) Healer \<Rightarrow> HealOutcome list \<Rightarrow> flush" where
  "flush_of inst h outs = fold (flush_add inst h) outs \<lparr>fl_puts = [], fl_deletes = [], fl_clears = [], fl_broadcasts = []\<rparr>"

text \<open>The new state and what is broadcast to every online peer.\<close>

definition flush_heal_outcomes :: "heal_env \<Rightarrow> HealOutcome list \<Rightarrow> ('c, 'w) Healer \<Rightarrow> ('c, 'w) Healer \<times> ChunkLocation list" where
  "flush_heal_outcomes e outs h =
     (if outs = [] then (h, [])
      else
        let f = flush_of (hv_inst e) h outs;
            (m, r) = batch_update_chunk_locations (hv_io e) (fl_puts f) (fl_deletes f) (fl_clears f) (he_metadata h)
        in (h\<lparr>he_metadata := m, he_pending := fold hm_remove (fl_clears f) (he_pending h),
              he_urgent := he_urgent h - set (fl_clears f)\<rparr>,
            if r \<noteq> None then fl_broadcasts f else []))"

subsection \<open>A cycle\<close>

text \<open>
  One task of the cycle with the locations it broadcasts itself. \<open>timeouts\<close> tells which tasks the transfer
  timeout cuts, and of a trim whether the chunk file of this node was removed before. A task that panics
  ends without a result and leaves its chunk marked as in flight.
\<close>

definition stall :: "heal_env \<Rightarrow> ChunkId \<Rightarrow> ('c, 'w) Healer \<Rightarrow> ('c, 'w) Healer" where
  "stall e c h =
     h\<lparr>he_in_flight := he_in_flight h - {c}, he_stalled := insert c (he_stalled h),
       he_requeue := hm_insert c (hv_inst e) (he_requeue h)\<rparr>"

definition cut_task ::
    "('c, ChunkId, byte list) lru \<Rightarrow> heal_env \<Rightarrow> bool \<Rightarrow> ChunkId \<times> ReplicationStatus \<times> NodeId list \<Rightarrow>
     ('c, 'w) Healer \<Rightarrow> ('c, 'w) Healer" where
  "cut_task Lc e removed w h =
     (case w of (c, status, alive) \<Rightarrow>
        let trim = trim_choice e (map fst (resolve_nodes h alive)) h
        in stall e c
             (if removed \<and> status = OverReplicated \<and> he_rf h < length (resolve_nodes h alive) \<and>
                 \<not> looks_like_patch_token c \<and> trim = cm_local_node_id (he_cluster h)
              then h\<lparr>he_storage := fst (delete_chunk Lc (hv_remove_fails e) c ''over_replication_trim'' (he_storage h))\<rparr> else h))"

definition heal_task ::
    "(64 word \<Rightarrow> nat \<Rightarrow> 'k::linorder) \<Rightarrow> ('c, ChunkId, byte list) lru \<Rightarrow> heal_env \<Rightarrow> (ChunkId \<Rightarrow> bool option) \<Rightarrow>
     ChunkId \<times> ReplicationStatus \<times> NodeId list \<Rightarrow> ('c, 'w) Healer \<Rightarrow> ('c, 'w) Healer \<times> HealOutcome list \<times> ChunkLocation list" where
  "heal_task key Lc e timeouts w h =
     (case w of (c, status, alive) \<Rightarrow>
        case timeouts c of
          Some removed \<Rightarrow> (cut_task Lc e removed w h, [], [])
        | None \<Rightarrow>
            (case status of
               UnderReplicated \<Rightarrow>
                 (case do_heal_chunk_shared key e c alive h of
                    Panic \<Rightarrow> (h\<lparr>he_in_flight := insert c (he_in_flight h)\<rparr>, [], [])
                  | Ret (h1, HealErr) \<Rightarrow> (stall e c h1, [], [])
                  | Ret (h1, Healed None) \<Rightarrow> (h1, [], [])
                  | Ret (h1, Healed (Some out)) \<Rightarrow> (h1, [out], []))
             | OverReplicated \<Rightarrow>
                 (case do_cleanup_excess_shared Lc e c alive h of
                    (h1, found, sent) \<Rightarrow> (if found then h1 else stall e c h1, [], case sent of Some l \<Rightarrow> [l] | None \<Rightarrow> []))
             | ReplicationOk \<Rightarrow> (h, [], [])))"

text \<open>The tasks in the order in which they end; \<open>full\<close> tells after which of them the outcomes so far are committed.\<close>

fun drain_tasks ::
    "(64 word \<Rightarrow> nat \<Rightarrow> 'k::linorder) \<Rightarrow> ('c, ChunkId, byte list) lru \<Rightarrow> heal_env \<Rightarrow> (ChunkId \<Rightarrow> bool option) \<Rightarrow> (ChunkId \<Rightarrow> bool) \<Rightarrow>
     (ChunkId \<times> ReplicationStatus \<times> NodeId list) list \<Rightarrow> HealOutcome list \<Rightarrow> ('c, 'w) Healer \<Rightarrow> ('c, 'w) Healer \<times> ChunkLocation list" where
  "drain_tasks key Lc e timeouts full [] outs h = flush_heal_outcomes e outs h"
| "drain_tasks key Lc e timeouts full (w # ws) outs h =
     (let (h1, out, sent) = heal_task key Lc e timeouts w h;
          outs1 = outs @ out;
          (h2, sent2) = (if full (fst w) then flush_heal_outcomes e outs1 h1 else (h1, []));
          (h3, sent3) = drain_tasks key Lc e timeouts full ws (if full (fst w) then [] else outs1) h2
      in (h3, sent @ sent2 @ sent3))"

definition drain_heal_queue ::
    "(64 word \<Rightarrow> nat \<Rightarrow> 'k::linorder) \<Rightarrow> ('c, ChunkId, byte list) lru \<Rightarrow> heal_env \<Rightarrow> (ChunkId \<Rightarrow> NodeId list) \<Rightarrow>
     (ChunkId \<Rightarrow> bool option) \<Rightarrow> (ChunkId \<Rightarrow> bool) \<Rightarrow> ('c, 'w) Healer \<Rightarrow> ('c, 'w) Healer \<times> ChunkLocation list" where
  "drain_heal_queue key Lc e probed timeouts full h =
     (case drain_work e probed h of (h1, work) \<Rightarrow> if work = [] then (h1, []) else drain_tasks key Lc e timeouts full work [] h1)"

end
