(* ===== verification/Discovery.thy ===== *)
theory Discovery
  imports Healing
begin

text \<open>
  The discovery pass of \<^verbatim>\<open>dfs-server/src/healing.rs\<close> (\<open>run_discovery_pass\<close>): the scan of the routing
  table, the choice of the current generation of a slot, the questions to the other nodes, the
  classification of every chunk with the pruning of its node list and the purge of lost chunks, and
  the batched writes at the end; and the probe of the chunks no pass has classified. The pass sees one
  membership throughout. A leadership lost on the way is \<open>dc_leader\<close> after the scan and
  \<open>dc_leader_rpcs\<close> later.
\<close>

section \<open>Definitions\<close>

datatype has_answer = HasFails | HasUnexpected | HasValues "bool list"

record disco_env = heal_env +
  dc_scan_read :: bool
  dc_exists_read :: bool
  dc_leader :: bool
  dc_leader_rpcs :: bool
  dc_listing :: bool
  dc_has :: "SocketAddr \<Rightarrow> ChunkId list \<Rightarrow> has_answer"
  dc_tokens_read :: bool
  dc_tokens :: "SocketAddr \<Rightarrow> ChunkId set option"

subsection \<open>The scan\<close>

definition ORPHAN_DEQUEUE_SETTLE_SECS :: nat where
  "ORPHAN_DEQUEUE_SETTLE_SECS = 120"

definition orphan_candidates_are_trustworthy :: "bool \<Rightarrow> bool \<Rightarrow> bool" where
  "orphan_candidates_are_trustworthy live_is_empty pending_is_empty \<longleftrightarrow> \<not> (live_is_empty \<and> \<not> pending_is_empty)"

record scan_result =
  sr_check :: "ChunkLocation list"
  sr_orphaned :: "ChunkId list"
  sr_losers :: "ChunkId list"
  sr_hard :: "HardSupersededSlot list"

text \<open>The fast pass looks up the pending chunks; \<open>m0\<close> is the store at the time of the lookup.\<close>

fun fast_scan :: "disco_env \<Rightarrow> MetadataStore \<Rightarrow> ChunkId list \<Rightarrow> ('c, 'w) Healer \<Rightarrow> ('c, 'w) Healer \<times> ChunkLocation list" where
  "fast_scan e m0 [] h = (h, [])"
| "fast_scan e m0 (c # cs) h =
     (case get_chunk_location c m0 of
        Some (Some l) \<Rightarrow>
          (let is_orphan = (case cl_file_id l of
                              Some i \<Rightarrow> dc_exists_read e \<and> \<not> file_exists_by_id i (he_metadata h)
                            | None \<Rightarrow> False)
           in if is_orphan
              then fast_scan e m0 cs
                     (clear_pending (heal_env.truncate e) c
                        (h\<lparr>he_metadata := fst (delete_chunk_location (hv_io e) c (he_metadata h))\<rparr>))
              else case fast_scan e m0 cs h of (h', ls) \<Rightarrow> (h', l # ls))
      | _ \<Rightarrow> fast_scan e m0 cs (clear_pending (heal_env.truncate e) c h))"

definition slot_of :: "ChunkLocation \<Rightarrow> (FileId \<times> nat) option" where
  "slot_of l =
     (case (cl_file_id l, cl_file_offset l) of
        (Some i, Some off) \<Rightarrow> Some (i, off div CHUNK_SIZE)
      | _ \<Rightarrow> None)"

definition slot_winner_add ::
    "ChunkState \<Rightarrow> nat \<Rightarrow> ChunkLocation \<Rightarrow> (FileId \<times> nat, ChunkLocation) hash_map \<Rightarrow> (FileId \<times> nat, ChunkLocation) hash_map" where
  "slot_winner_add k min_nodes l winners =
     (case slot_of l of
        None \<Rightarrow> winners
      | Some key \<Rightarrow>
          (case hm_get winners key of
             None \<Rightarrow> hm_insert key l winners
           | Some cur \<Rightarrow>
               if location_supersedes l cur (cl_chunk_id l \<in> ck_folds k) (cl_chunk_id cur \<in> ck_folds k)
                    (hm_get (ck_gens k) (cl_chunk_id l)) (hm_get (ck_gens k) (cl_chunk_id cur)) min_nodes
               then hm_insert key l winners else winners))"

definition slot_winners :: "ChunkState \<Rightarrow> nat \<Rightarrow> ChunkLocation list \<Rightarrow> (FileId \<times> nat, ChunkLocation) hash_map" where
  "slot_winners k min_nodes ls = fold (slot_winner_add k min_nodes) ls []"

definition slot_losers :: "(FileId \<times> nat, ChunkLocation) hash_map \<Rightarrow> ChunkLocation list \<Rightarrow> ChunkLocation list" where
  "slot_losers winners ls =
     filter (\<lambda>l. cl_file_offset l \<noteq> None \<and> cl_chunk_id l \<notin> set (map (cl_chunk_id \<circ> snd) winners)) ls"

definition hard_confirmed :: "ChunkState \<Rightarrow> (FileId \<times> nat, ChunkLocation) hash_map \<Rightarrow> ChunkLocation \<Rightarrow> HardSupersededSlot option" where
  "hard_confirmed k winners l =
     (case slot_of l of
        None \<Rightarrow> None
      | Some (i, idx) \<Rightarrow>
          (case hm_get winners (i, idx) of
             None \<Rightarrow> None
           | Some winner \<Rightarrow>
               (case (hm_get (ck_gens k) (cl_chunk_id l), hm_get (ck_gens k) (cl_chunk_id winner)) of
                  (Some lg, Some wg) \<Rightarrow>
                    if wg > lg then
                      Some \<lparr>hs_loser = cl_chunk_id l, hs_winner = cl_chunk_id winner, hs_file_id = i, hs_chunk_idx = idx,
                            hs_loser_gen = lg, hs_winner_gen = wg\<rparr>
                    else None
                | _ \<Rightarrow> None)))"

definition deep_scan :: "ChunkId list \<Rightarrow> ('c, 'w) Healer \<Rightarrow> scan_result" where
  "deep_scan pending h =
     (let check = live_locations (he_metadata h);
          live = live_chunk_ids (he_metadata h);
          winners = slot_winners (he_chunks h) (write_quorum (he_rf h)) check;
          losers = slot_losers winners check
      in \<lparr>sr_check = check,
          sr_orphaned = (if orphan_candidates_are_trustworthy (live = {}) (pending = []) then filter (\<lambda>c. c \<notin> live) pending else []),
          sr_losers = map cl_chunk_id losers,
          sr_hard = List.map_filter (hard_confirmed (he_chunks h) winners) losers\<rparr>)"

subsection \<open>The questions to the nodes\<close>

definition online_members :: "disco_env \<Rightarrow> ('c, 'w) Healer \<Rightarrow> NodeInfo list" where
  "online_members e h = filter (\<lambda>n. ni_status n = Online) (get_all_nodes (hv_now e) (he_cluster h))"

definition known_ids :: "disco_env \<Rightarrow> ('c, 'w) Healer \<Rightarrow> NodeId set" where
  "known_ids e h = set (map ni_id (get_all_nodes (hv_now e) (he_cluster h)))"

definition node_assigned :: "ChunkLocation list \<Rightarrow> NodeId \<Rightarrow> ChunkId list" where
  "node_assigned ls n = concat (map (\<lambda>l. map (\<lambda>_. cl_chunk_id l) (filter (\<lambda>m. m = n) (cl_nodes l))) ls)"

definition values_of :: "ChunkId list \<Rightarrow> bool list \<Rightarrow> ChunkId set" where
  "values_of cs vs = set (map fst (filter snd (zip cs vs)))"

text \<open>The chunks a node has confirmed; \<open>None\<close> when it has given no usable answer.\<close>

definition node_chunk_presence :: "disco_env \<Rightarrow> ('c, 'w) Healer \<Rightarrow> ChunkLocation list \<Rightarrow> NodeId \<Rightarrow> ChunkId set option" where
  "node_chunk_presence e h ls n =
     (if n \<notin> known_ids e h \<or> node_assigned ls n = [] then None
      else if n = cm_local_node_id (he_cluster h) then
        (if dc_listing e then (case list_chunks (he_storage h) of Ret (cs, _) \<Rightarrow> Some (set cs) | Panic \<Rightarrow> None) else None)
      else case find (\<lambda>i. ni_id i = n) (online_members e h) of
        None \<Rightarrow> None
      | Some i \<Rightarrow> (case dc_has e (ni_addr i) (node_assigned ls n) of
                     HasValues vs \<Rightarrow> Some (values_of (node_assigned ls n) vs)
                   | _ \<Rightarrow> None))"

definition rpc_failed :: "disco_env \<Rightarrow> ('c, 'w) Healer \<Rightarrow> ChunkLocation list \<Rightarrow> NodeId \<Rightarrow> bool" where
  "rpc_failed e h ls n =
     (n \<in> known_ids e h \<and> node_assigned ls n \<noteq> [] \<and> n \<noteq> cm_local_node_id (he_cluster h) \<and>
      (case find (\<lambda>i. ni_id i = n) (online_members e h) of
         None \<Rightarrow> False
       | Some i \<Rightarrow> dc_has e (ni_addr i) (node_assigned ls n) = HasFails))"

text \<open>The listing of this node fills the index of its storage.\<close>

definition list_local :: "disco_env \<Rightarrow> ChunkLocation list \<Rightarrow> ('c, 'w) Healer \<Rightarrow> ('c, 'w) Healer" where
  "list_local e ls h =
     (let local_id = cm_local_node_id (he_cluster h)
      in if local_id \<in> known_ids e h \<and> node_assigned ls local_id \<noteq> [] \<and> dc_listing e
         then (case list_chunks (he_storage h) of Ret (_, st) \<Rightarrow> h\<lparr>he_storage := st\<rparr> | Panic \<Rightarrow> h) else h)"

text \<open>The patch tokens of all nodes, and whether every node has contributed.\<close>

definition token_view :: "disco_env \<Rightarrow> ('c, 'w) Healer \<Rightarrow> ChunkId set \<times> bool" where
  "token_view e h =
     (let online = online_members e h;
          complete = length online \<ge> length (get_all_nodes (hv_now e) (he_cluster h));
          own = (if dc_tokens_read e then (all_patch_token_ids (he_metadata h), complete) else ({}, False));
          peers = filter (\<lambda>n. ni_id n \<noteq> cm_local_node_id (he_cluster h)) online
      in fold (\<lambda>n (tokens, complete).
                 case dc_tokens e (ni_addr n) of
                   Some ts \<Rightarrow> (tokens \<union> ts, complete)
                 | None \<Rightarrow> (tokens, False)) peers own)"

subsection \<open>Classifying one chunk\<close>

definition may_declare_data_loss :: "bool \<Rightarrow> bool \<Rightarrow> bool" where
  "may_declare_data_loss destructive_allowed patch_token_view_complete \<longleftrightarrow> destructive_allowed \<and> patch_token_view_complete"

text \<open>Whether a chunk without replicas was superseded; \<open>None\<close> when this cannot be told.\<close>

definition classify_zero_replica_chunk :: "ChunkId \<Rightarrow> ChunkLocation \<Rightarrow> ('c, 'w) Healer \<Rightarrow> bool option" where
  "classify_zero_replica_chunk c l h =
     (case (cl_file_id l, cl_file_offset l) of
        (Some i, Some off) \<Rightarrow>
          (case hm_get (ck_map (he_chunks h)) i of
             Some (locs, _) \<Rightarrow>
               Some (case find (\<lambda>x. cl_file_offset x = Some off) locs of
                       Some cur \<Rightarrow> cl_chunk_id cur \<noteq> c
                     | None \<Rightarrow> True)
           | None \<Rightarrow>
               (case get_file i (he_metadata h) of
                  Some (Some _) \<Rightarrow> None
                | Some None \<Rightarrow> Some True
                | None \<Rightarrow> None))
      | _ \<Rightarrow> Some False)"

text \<open>What the pass knows when it classifies.\<close>

record disco_view =
  dv_destructive :: bool
  dv_known :: "NodeId set"
  dv_online :: "NodeId set"
  dv_presence :: "NodeId \<Rightarrow> ChunkId set option"
  dv_failed :: "NodeId \<Rightarrow> bool"
  dv_tokens :: "ChunkId set"
  dv_complete :: bool
  dv_losers :: "ChunkId set"

text \<open>What it collects on the way.\<close>

record disco_acc =
  da_puts :: "ChunkLocation list"
  da_deletes :: "ChunkId list"
  da_marks :: "(ChunkId \<times> nat) list"
  da_clears :: "ChunkId list"
  da_healthy :: "ChunkId list"
  da_updates :: "ChunkLocation list"
  da_work :: "(ChunkId \<times> ReplicationStatus \<times> NodeId list) list"

definition holds :: "disco_view \<Rightarrow> ChunkId \<Rightarrow> NodeId \<Rightarrow> bool" where
  "holds v c n = (case dv_presence v n of Some s \<Rightarrow> c \<in> s | None \<Rightarrow> False)"

definition asked :: "disco_view \<Rightarrow> ChunkLocation \<Rightarrow> NodeId list" where
  "asked v l = filter (\<lambda>n. n \<in> dv_known v \<and> n \<in> dv_online v \<and> \<not> dv_failed v n) (cl_nodes l)"

definition confirmed_alive_nodes :: "disco_view \<Rightarrow> ChunkLocation \<Rightarrow> NodeId list" where
  "confirmed_alive_nodes v l = filter (holds v (cl_chunk_id l)) (asked v l)"

definition nodes_without_chunk :: "disco_view \<Rightarrow> ChunkLocation \<Rightarrow> NodeId list" where
  "nodes_without_chunk v l = filter (\<lambda>n. \<not> holds v (cl_chunk_id l) n) (asked v l)"

definition removed_node_ids :: "disco_view \<Rightarrow> ChunkLocation \<Rightarrow> NodeId list" where
  "removed_node_ids v l = filter (\<lambda>n. n \<notin> dv_known v) (cl_nodes l)"

definition put_update :: "ChunkLocation \<Rightarrow> disco_acc \<Rightarrow> disco_acc" where
  "put_update l a = a\<lparr>da_puts := da_puts a @ [l], da_updates := da_updates a @ [l]\<rparr>"

definition pending_due :: "disco_env \<Rightarrow> ChunkId \<Rightarrow> ('c, 'w) Healer \<Rightarrow> bool" where
  "pending_due e c h =
     (case hm_get (he_pending h) c of Some t \<Rightarrow> hv_inst e - t \<ge> he_delay_secs h | None \<Rightarrow> False)"

definition prune_removed :: "disco_view \<Rightarrow> ChunkLocation \<Rightarrow> disco_acc \<Rightarrow> disco_acc" where
  "prune_removed v l a =
     (if removed_node_ids v l \<noteq> [] \<and> dv_destructive v
      then put_update (l\<lparr>cl_nodes := filter (\<lambda>n. n \<notin> set (removed_node_ids v l)) (cl_nodes l)\<rparr>) a else a)"

definition prune_ghosts ::
    "disco_env \<Rightarrow> disco_view \<Rightarrow> ChunkLocation \<Rightarrow> ('c, 'w) Healer \<times> disco_acc \<Rightarrow> ('c, 'w) Healer \<times> disco_acc" where
  "prune_ghosts e v l s =
     (case s of (h, a) \<Rightarrow>
        if nodes_without_chunk v l \<noteq> [] \<and> confirmed_alive_nodes v l \<noteq> [] then
          let h1 = mark_pending (heal_env.truncate e) (cl_chunk_id l) h
          in (h1, if pending_due e (cl_chunk_id l) h1
                  then put_update (l\<lparr>cl_nodes := filter (\<lambda>n. n \<notin> set (nodes_without_chunk v l)) (cl_nodes l),
                                      cl_written_at := Some (hv_now_ms e)\<rparr>) a
                  else a)
        else (h, a))"

definition purge_due :: "disco_env \<Rightarrow> disco_view \<Rightarrow> ChunkLocation \<Rightarrow> ('c, 'w) Healer \<Rightarrow> bool" where
  "purge_due e v l h =
     (confirmed_alive_nodes v l = [] \<and> (cl_nodes l = [] \<or> (\<forall>n \<in> set (cl_nodes l). dv_presence v n \<noteq> None)) \<and>
      (if cl_nodes l = []
       then written_at_secs l > 0 \<and> hv_now e - written_at_secs l \<ge> he_delay_secs h \<or> pending_due e (cl_chunk_id l) h
       else pending_due e (cl_chunk_id l) h))"

definition purged :: "disco_env \<Rightarrow> disco_view \<Rightarrow> ChunkLocation \<Rightarrow> ('c, 'w) Healer \<Rightarrow> bool" where
  "purged e v l h =
     (purge_due e v l h \<and> dv_destructive v \<and> may_declare_data_loss (dv_destructive v) (dv_complete v) \<and>
      classify_zero_replica_chunk (cl_chunk_id l) l h \<noteq> None)"

text \<open>The nodes that were found to hold the chunk and are not in its list.\<close>

definition add_extra_nodes :: "disco_view \<Rightarrow> ChunkLocation \<Rightarrow> disco_acc \<Rightarrow> ChunkLocation \<times> disco_acc" where
  "add_extra_nodes v l a =
     (let extra = filter (\<lambda>n. n \<notin> set (cl_nodes l)) (confirmed_alive_nodes v l);
          l' = l\<lparr>cl_nodes := cl_nodes l @ extra\<rparr>
      in if extra \<noteq> [] then (l', put_update l' a) else (l, a))"

definition mark_deferred :: "disco_env \<Rightarrow> ChunkId \<Rightarrow> ('c, 'w) Healer \<times> disco_acc \<Rightarrow> ('c, 'w) Healer \<times> disco_acc" where
  "mark_deferred e c s =
     (case s of (h, a) \<Rightarrow>
        case mark_pending_deferred (heal_env.truncate e) c (da_marks a) h of (h1, marks) \<Rightarrow> (h1, a\<lparr>da_marks := marks\<rparr>))"

definition add_work :: "ChunkId \<Rightarrow> ReplicationStatus \<Rightarrow> NodeId list \<Rightarrow> disco_acc \<Rightarrow> disco_acc" where
  "add_work c status alive a = a\<lparr>da_work := da_work a @ [(c, status, alive)]\<rparr>"

definition classify_under ::
    "disco_env \<Rightarrow> ChunkId \<Rightarrow> nat \<Rightarrow> NodeId list \<Rightarrow> ('c, 'w) Healer \<times> disco_acc \<Rightarrow> ('c, 'w) Healer \<times> disco_acc" where
  "classify_under e c metadata_node_count alive s =
     (case s of (h, a) \<Rightarrow>
        if alive = [] then
          mark_deferred e c (h\<lparr>he_stalled := insert c (he_stalled h), he_requeue := hm_insert c (hv_inst e) (he_requeue h)\<rparr>, a)
        else
          let h1 = h\<lparr>he_stalled := he_stalled h - {c}\<rparr>
          in if heal_push_failure_backoff_active (hv_inst e) h1 c then mark_deferred e c (h1, a)
             else case should_heal (heal_env.truncate e) c (da_marks a) h1 of
               ((h2, marks), True) \<Rightarrow> (h2, add_work c UnderReplicated alive (a\<lparr>da_marks := marks\<rparr>))
             | ((h2, marks), False) \<Rightarrow>
                 if metadata_node_count < he_rf h2 then mark_deferred e c (h2, a\<lparr>da_marks := marks\<rparr>)
                 else (h2, a\<lparr>da_marks := marks\<rparr>))"

definition classify_status ::
    "disco_env \<Rightarrow> disco_view \<Rightarrow> ChunkLocation \<Rightarrow> ('c, 'w) Healer \<times> disco_acc \<Rightarrow> ('c, 'w) Healer \<times> disco_acc" where
  "classify_status e v l s =
     (case s of (h, a) \<Rightarrow>
        let c = cl_chunk_id l;
            alive = confirmed_alive_nodes v l;
            (l1, a1) = add_extra_nodes v l a
        in if length alive < he_rf h then classify_under e c (length (cl_nodes l1)) alive (h, a1)
           else if length alive > he_rf h then
             if dv_destructive v
             then (case mark_deferred e c (h, a1) of (h1, a2) \<Rightarrow> (h1, add_work c OverReplicated alive a2))
             else (h, a1)
           else if nodes_without_chunk v l = []
             then (h\<lparr>he_push_failure := hm_remove c (he_push_failure h)\<rparr>,
                   a1\<lparr>da_healthy := da_healthy a1 @ [c], da_clears := da_clears a1 @ [c]\<rparr>)
             else (h, a1))"

definition classify_chunk ::
    "disco_env \<Rightarrow> disco_view \<Rightarrow> ChunkLocation \<Rightarrow> ('c, 'w) Healer \<times> disco_acc \<Rightarrow> ('c, 'w) Healer \<times> disco_acc" where
  "classify_chunk e v l s =
     (case s of (h, a) \<Rightarrow>
        let c = cl_chunk_id l
        in if c \<in> dv_tokens v \<or> c \<in> dv_losers v then (clear_pending (heal_env.truncate e) c h, a)
           else case prune_ghosts e v l (h, prune_removed v l a) of (h1, a1) \<Rightarrow>
             if purged e v l h1 then (clear_pending (heal_env.truncate e) c h1, a1\<lparr>da_deletes := da_deletes a1 @ [c]\<rparr>)
             else classify_status e v l (h1, a1))"

subsection \<open>The pass\<close>

definition empty_acc :: disco_acc where
  "empty_acc = \<lparr>da_puts = [], da_deletes = [], da_marks = [], da_clears = [], da_healthy = [], da_updates = [], da_work = []\<rparr>"

definition disco_flush ::
    "disco_env \<Rightarrow> ChunkId list \<Rightarrow> ('c, 'w) Healer \<times> disco_acc \<Rightarrow> ('c, 'w) Healer \<times> ChunkLocation list" where
  "disco_flush e orphans s =
     (case s of (h, a) \<Rightarrow>
        let h1 = (if da_healthy a \<noteq> [] \<or> orphans \<noteq> [] then clear_pending_batch (da_healthy a @ orphans) h else h);
            h2 = h1\<lparr>he_push_failure := fold hm_remove orphans (he_push_failure h1),
                    he_requeue := fold hm_remove orphans (he_requeue h1)\<rparr>;
            m1 = fst (batch_update_chunk_locations (hv_io e) (da_puts a) (da_deletes a) (da_clears a @ orphans) (he_metadata h2));
            m2 = fst (put_pending_healing_batch (hv_io e) (da_marks a) m1);
            cache = fold (\<lambda>(c, _, alive). hm_insert c alive) (da_work a) (he_alive_cache h2);
            cache' = (if lookup_fails (set (map fst cache)) m2 then cache else filter (\<lambda>(c, _). located m2 c) cache)
        in (h2\<lparr>he_metadata := m2, he_alive_cache := cache'\<rparr>, da_updates a))"

definition disco_view_of :: "disco_env \<Rightarrow> ('c, 'w) Healer \<Rightarrow> scan_result \<Rightarrow> disco_view" where
  "disco_view_of e h r =
     (case token_view e h of (tokens, complete) \<Rightarrow>
        \<lparr>dv_destructive = destructive_ok (heal_env.truncate e) h, dv_known = known_ids e h,
         dv_online = set (map ni_id (online_members e h)),
         dv_presence = node_chunk_presence e h (sr_check r), dv_failed = rpc_failed e h (sr_check r),
         dv_tokens = tokens, dv_complete = complete, dv_losers = set (sr_losers r)\<rparr>)"

definition disco_scan :: "disco_env \<Rightarrow> bool \<Rightarrow> ('c, 'w) Healer \<Rightarrow> ('c, 'w) Healer \<times> scan_result" where
  "disco_scan e deep h =
     (let pending = map fst (he_pending h)
      in if deep then (h, deep_scan pending h)
         else case (if lookup_fails (set pending) (he_metadata h) then (h, []) else fast_scan e (he_metadata h) pending h) of
           (h1, check) \<Rightarrow> (h1, \<lparr>sr_check = check, sr_orphaned = [], sr_losers = [], sr_hard = []\<rparr>))"

definition run_discovery_pass :: "disco_env \<Rightarrow> bool \<Rightarrow> ('c, 'w) Healer \<Rightarrow> ('c, 'w) Healer \<times> ChunkLocation list" where
  "run_discovery_pass e deep h =
     (if deep \<and> \<not> dc_scan_read e then (h, [])
      else case disco_scan e deep h of (h1, r) \<Rightarrow>
        if \<not> dc_leader e then (h1, [])
        else
          let orphans = (if hv_inst e - he_local_started_at h1 \<ge> ORPHAN_DEQUEUE_SETTLE_SECS then sr_orphaned r else []);
              h2 = (if deep then h1\<lparr>he_superseded := set (sr_losers r),
                                    he_hard_superseded := fold (\<lambda>s. hm_insert (hs_loser s) s) (sr_hard r) []\<rparr> else h1);
              h3 = list_local e (sr_check r) h2
          in if \<not> dc_leader_rpcs e then (h3, [])
             else disco_flush e orphans (fold (classify_chunk e (disco_view_of e h2 r)) (sr_check r) (h3, empty_acc)))"

subsection \<open>The probe\<close>

definition PROBE_BATCH_MAX :: nat where
  "PROBE_BATCH_MAX = 512"

fun batches :: "nat \<Rightarrow> 'a list \<Rightarrow> 'a list list" where
  "batches n [] = []"
| "batches n (x # xs) = (x # take n xs) # batches n (drop n xs)"

definition probe_node :: "disco_env \<Rightarrow> SocketAddr \<Rightarrow> ChunkId list \<Rightarrow> ChunkId set" where
  "probe_node e addr cs =
     \<Union> (set (map (\<lambda>b. case dc_has e addr b of HasValues vs \<Rightarrow> values_of b vs | _ \<Rightarrow> {}) (batches (PROBE_BATCH_MAX - 1) cs)))"

text \<open>The holders of every probed chunk: this node first, then the members in the order of the list.\<close>

definition probe_chunks_alive_nodes_batch ::
    "disco_env \<Rightarrow> ChunkId list \<Rightarrow> ('c, 'w) Healer \<Rightarrow> (('c, 'w) Healer \<times> (ChunkId \<Rightarrow> NodeId list)) outcome" where
  "probe_chunks_alive_nodes_batch e cs h =
     (let local_id = cm_local_node_id (he_cluster h);
          peers = filter (\<lambda>n. ni_id n \<noteq> local_id) (online_members e h);
          alive = (\<lambda>mine c. (if c \<in> mine then [local_id] else []) @
                            map ni_id (filter (\<lambda>n. c \<in> probe_node e (ni_addr n) cs) peers))
      in if \<not> dc_listing e then Ret (h, alive {})
         else case chunks_present_batch cs (he_storage h) of
           Panic \<Rightarrow> Panic
         | Ret (vs, st) \<Rightarrow> Ret (h\<lparr>he_storage := st\<rparr>, alive (values_of cs vs)))"

end
