(* ===== verification/Orphan_Sweep_Claims.thy ===== *)
theory Orphan_Sweep_Claims
  imports Orphan_Sweep Chunk_Storage_Claims Chunk_Map_Laws
begin

text \<open>
  What the orphan sweep may delete, that it does delete what nothing needs, that one rotation of the
  loop looks at every chunk file once, and where the protection of chunks other nodes need ends.
\<close>

section \<open>The parts of a pass\<close>

lemma delete_chunk_has:
  assumes "hm_wf (st_fs st)"
  shows "has_chunk (fst (delete_chunk Lc fails c reason st)) d \<longleftrightarrow> has_chunk st d \<and> (d = c \<longrightarrow> fails)"
    and "hm_wf (st_fs (fst (delete_chunk Lc fails c reason st)))"
  using assms by (auto simp: delete_chunk_def Let_def has_chunk_def forget_chunk_in_index_def invalidate_cache_def hm.get_del hm.wf_del)

lemma delete_chunk_index:
  "st_index (fst (delete_chunk Lc fails c reason st)) = map_option (bt_remove c) (st_index st) \<or>
   st_index (fst (delete_chunk Lc fails c reason st)) = st_index st"
  by (auto simp: delete_chunk_def Let_def forget_chunk_in_index_def invalidate_cache_def)

lemma delete_chunk_answer: "snd (delete_chunk Lc fails c reason st) \<longleftrightarrow> \<not> (has_chunk st c \<and> fails)"
  by (simp add: delete_chunk_def Let_def has_chunk_def)

lemma evict_has:
  "hm_wf (st_fs st) \<Longrightarrow>
     has_chunk (fst (evict_chunks Lc fails cs st)) d \<longleftrightarrow>
       has_chunk st d \<and> (d \<in> set cs \<and> \<not> looks_like_patch_token d \<longrightarrow> fails d)"
proof (induction cs arbitrary: st)
  case (Cons c cs)
  have "hm_wf (st_fs (fst (delete_chunk Lc (fails c) c ''live_file_orphan_sweep'' st)))" by (rule delete_chunk_has(2) [OF Cons.prems])
  from Cons.IH [OF this] Cons.IH [OF Cons.prems] show ?case
    by (auto simp: split_beta delete_chunk_has(1) [OF Cons.prems])
qed simp

lemma evict_subset: "set (snd (evict_chunks Lc fails cs st)) \<subseteq> {c \<in> set cs. \<not> looks_like_patch_token c}"
proof (induction cs arbitrary: st)
  case (Cons c cs)
  from Cons.IH show ?case by (auto simp: split_beta dest: subsetD)
qed simp

lemma debounce_ready:
  "distinct (map fst cs) \<Longrightarrow> debounce g cs T = (T', ready) \<Longrightarrow>
     set ready = {c \<in> T. \<not> looks_like_patch_token c \<and> (\<exists>age. (c, age) \<in> set cs \<and> g \<le> age)}"
proof (induction cs arbitrary: T T' ready)
  case (Cons x cs)
  obtain c age where x: "x = (c, age)" by (cases x)
  have out: "(c, a) \<notin> set cs" for a using Cons.prems(1) by (force simp: x)
  have d: "distinct (map fst cs)" using Cons.prems(1) by simp
  consider (token) "looks_like_patch_token c" | (young) "\<not> looks_like_patch_token c" "age < g"
    | (seen) "\<not> looks_like_patch_token c" "\<not> age < g" "c \<in> T" | (fresh) "\<not> looks_like_patch_token c" "\<not> age < g" "c \<notin> T" by blast
  then show ?case
  proof cases
    case token
    with Cons.prems(2) have "debounce g cs (T - {c}) = (T', ready)" by (simp add: x)
    from Cons.IH [OF d this] token show ?thesis by (auto simp: x)
  next
    case young
    with Cons.prems(2) have "debounce g cs T = (T', ready)" by (simp add: x)
    from Cons.IH [OF d this] young show ?thesis by (auto simp: x out)
  next
    case seen
    with Cons.prems(2) obtain r where r: "debounce g cs (T - {c}) = (T', r)" "ready = c # r" by (auto simp: x split: prod.splits)
    from Cons.IH [OF d r(1)] seen show ?thesis by (auto simp: x r(2))
  next
    case fresh
    with Cons.prems(2) have "debounce g cs (insert c T) = (T', ready)" by (simp add: x)
    from Cons.IH [OF d this] fresh show ?thesis by (auto simp: x out)
  qed
qed simp

lemma debounce_tracked:
  "distinct (map fst cs) \<Longrightarrow> debounce g cs T = (T', ready) \<Longrightarrow>
     T' = {c. if \<exists>age. (c, age) \<in> set cs \<and> (looks_like_patch_token c \<or> g \<le> age)
              then \<not> looks_like_patch_token c \<and> c \<notin> T else c \<in> T}"
proof (induction cs arbitrary: T T' ready)
  case (Cons x cs)
  obtain c age where x: "x = (c, age)" by (cases x)
  have out: "(c, a) \<notin> set cs" for a using Cons.prems(1) by (force simp: x)
  have d: "distinct (map fst cs)" using Cons.prems(1) by simp
  define T1 where "T1 = (if looks_like_patch_token c then T - {c} else if age < g then T else if c \<in> T then T - {c} else insert c T)"
  have "fst (debounce g cs T1) = T'" using Cons.prems(2) by (auto simp: x T1_def split: prod.splits if_splits)
  then obtain r where "debounce g cs T1 = (T', r)" by (cases "debounce g cs T1") auto
  from Cons.IH [OF d this] show ?case by (auto simp: x out T1_def)
qed simp

text \<open>A chunk is a candidate if nothing this node knows refers to it.\<close>

definition page_age :: "sweep_env \<Rightarrow> ('c, 'w) HealingManager \<Rightarrow> ChunkId \<Rightarrow> nat" where
  "page_age e h c = (case get_chunk_mtime (he_storage h) c of Some mtime \<Rightarrow> ev_now e - mtime | None \<Rightarrow> u64_max)"

lemma scan_page_iff:
  "(c, age) \<in> set (scan_page e L1 L2 h chunks) \<longleftrightarrow>
     c \<in> set chunks \<and> \<not> looks_like_patch_token c \<and> c \<notin> L1 \<and> c \<notin> L2 \<and> age = page_age e h c \<and>
     (ev_present_read e \<longrightarrow> map_of (db_patch_state (ms_db (he_metadata h))) c = None)"
  by (auto simp: scan_page_def Let_def page_age_def get_patch_states_present_batch_def image_image)

lemma scan_page_distinct: "distinct chunks \<Longrightarrow> distinct (map fst (scan_page e L1 L2 h chunks))"
  by (auto simp: scan_page_def Let_def comp_def intro!: distinct_map_filter)

section \<open>Authorization\<close>

text \<open>
  What has to be answered before a node deletes: on the leader every other member is online, has been
  up for \<open>STABILITY_SECS\<close> and does not need the chunk (or such an answer is less than ten seconds
  old), on another node the leader did not name the chunk as live.
\<close>

definition authorized_delete :: "sweep_env \<Rightarrow> ('c, 'w) HealingManager \<Rightarrow> ChunkId \<Rightarrow> bool" where
  "authorized_delete e h c \<longleftrightarrow>
     (if is_leader (he_cluster h) then
        (\<exists>t ids. he_orphan_auth_cache h = Some (t, ids) \<and> ev_inst e - t < ORPHAN_AUTH_CACHE_TTL \<and> c \<notin> ids) \<or>
        (\<exists>own. handle_get_pending_patch_chunk_ids h = Some own \<and> c \<notin> own) \<and>
        (\<forall>n \<in> set (get_all_nodes (ev_now e) (he_cluster h)). ni_id n \<noteq> cm_local_node_id (he_cluster h) \<longrightarrow>
           ni_status n = Online \<and>
           (\<exists>up ids. ev_auth_info e (ni_addr n) = Some (up, ids) \<and> STABILITY_SECS \<le> up \<and> c \<notin> ids))
      else \<exists>a cs live. get_leader_addr (he_cluster h) = Some a \<and> ev_confirm e a cs = Some live \<and> c \<in> set cs \<and> c \<notin> set live)"

lemma union_answers_Some:
  "union_answers ask ns acc = Some all_ids \<Longrightarrow>
     acc \<subseteq> all_ids \<and> (\<forall>n \<in> set ns. \<exists>up ids. ask (ni_addr n) = Some (up, ids) \<and> STABILITY_SECS \<le> up \<and> ids \<subseteq> all_ids)"
proof (induction ns arbitrary: acc)
  case (Cons n ns)
  then obtain up ids where a: "ask (ni_addr n) = Some (up, ids)" "\<not> up < STABILITY_SECS" "union_answers ask ns (acc \<union> ids) = Some all_ids"
    by (auto split: option.splits if_splits)
  from Cons.IH [OF a(3)] a(1,2) show ?case by auto
qed simp

lemma union_answers_ok:
  "\<forall>n \<in> set ns. \<exists>up ids. ask (ni_addr n) = Some (up, ids) \<and> STABILITY_SECS \<le> up \<and> c \<notin> ids \<Longrightarrow> c \<notin> acc \<Longrightarrow>
     \<exists>all_ids. union_answers ask ns acc = Some all_ids \<and> c \<notin> all_ids"
proof (induction ns arbitrary: acc)
  case (Cons n ns)
  then obtain up ids where a: "ask (ni_addr n) = Some (up, ids)" "\<not> up < STABILITY_SECS" "c \<notin> ids" by force
  have "\<exists>all_ids. union_answers ask ns (acc \<union> ids) = Some all_ids \<and> c \<notin> all_ids"
    by (rule Cons.IH) (use Cons.prems a in auto)
  with a show ?case by simp
qed simp

lemma authorize_sound:
  assumes "authorize_live_file_orphan_deletes e cands h = (h', Some auth)" and "c \<in> set auth"
  shows "c \<in> set cands \<and> authorized_delete e h c"
proof (cases "is_leader (he_cluster h)")
  case True
  show ?thesis
  proof (cases "\<exists>t ids. he_orphan_auth_cache h = Some (t, ids) \<and> ev_inst e - t < ORPHAN_AUTH_CACHE_TTL")
    case cached: True
    with True assms show ?thesis by (auto simp: authorize_live_file_orphan_deletes_def authorized_delete_def)
  next
    case False
    let ?peers = "filter (\<lambda>n. ni_id n \<noteq> cm_local_node_id (he_cluster h)) (get_all_nodes (ev_now e) (he_cluster h))"
    from False True assms(1) obtain own all_ids where own: "all_pending_patch_chunk_ids (he_metadata h) = Some own"
      and online: "\<not> list_ex (\<lambda>n. ni_status n \<noteq> Online) ?peers"
      and u: "union_answers (ev_auth_info e) ?peers (own \<union> all_patch_token_ids (he_metadata h)) = Some all_ids"
      and auth: "auth = filter (\<lambda>c. c \<notin> all_ids) cands"
      by (auto simp: authorize_live_file_orphan_deletes_def Let_def split: option.splits if_splits prod.splits)
    from union_answers_Some [OF u] assms(2) online True own show ?thesis
      by (fastforce simp: auth authorized_delete_def handle_get_pending_patch_chunk_ids_def list_ex_iff)
  qed
next
  case False
  with assms(1) obtain a live where "get_leader_addr (he_cluster h) = Some a" "ev_confirm e a cands = Some live"
      "auth = filter (\<lambda>c. c \<notin> set live) cands"
    by (auto simp: authorize_live_file_orphan_deletes_def split: option.splits)
  with False assms(2) show ?thesis unfolding authorized_delete_def by auto
qed

lemma authorize_frame:
  "authorize_live_file_orphan_deletes e cands h = (h', r) \<Longrightarrow> \<exists>x. h' = h\<lparr>he_orphan_auth_cache := x\<rparr>"
proof -
  have self: "\<exists>x. h = h\<lparr>he_orphan_auth_cache := x\<rparr>" by (rule exI [of _ "he_orphan_auth_cache h"]) simp
  then show "authorize_live_file_orphan_deletes e cands h = (h', r) \<Longrightarrow> ?thesis"
    by (auto simp: authorize_live_file_orphan_deletes_def Let_def split: option.splits if_splits)
qed

lemma authorized_candidates: "authorized_delete e (h\<lparr>he_orphan_candidates := T\<rparr>) c = authorized_delete e h c"
  by (simp add: authorized_delete_def handle_get_pending_patch_chunk_ids_def cong: if_cong option.case_cong)

lemma reconcile_deletes:
  assumes d: "distinct (map fst cands)" and wf: "hm_wf (st_fs (he_storage h))" and has: "has_chunk (he_storage h) c"
    and gone: "\<not> has_chunk (he_storage (reconcile_live_file_candidates Lc e cands g h)) c"
  shows "c \<in> he_orphan_candidates h \<and> \<not> looks_like_patch_token c \<and> (\<exists>age. (c, age) \<in> set cands \<and> g \<le> age) \<and>
    authorized_delete e h c \<and> (ev_recheck_read e \<longrightarrow> map_of (db_patch_state (ms_db (he_metadata h))) c = None)"
proof -
  obtain T ready where b: "debounce g cands (he_orphan_candidates h) = (T, ready)" by (cases "debounce g cands (he_orphan_candidates h)")
  let ?h1 = "h\<lparr>he_orphan_candidates := T\<rparr>"
  obtain h2 r where a: "authorize_live_file_orphan_deletes e ready ?h1 = (h2, r)" by (cases "authorize_live_file_orphan_deletes e ready ?h1")
  from authorize_frame [OF a] obtain x where h2: "h2 = ?h1\<lparr>he_orphan_auth_cache := x\<rparr>" ..
  from gone has b a h2 obtain auth where auth: "r = Some auth"
    by (auto simp: reconcile_live_file_candidates_def Let_def split: if_splits option.splits)
  define auth' where "auth' = (if ev_recheck_read e then filter (\<lambda>c. c \<notin> get_patch_states_present_batch auth (he_metadata h)) auth else auth)"
  have "he_storage (reconcile_live_file_candidates Lc e cands g h) = he_storage h \<or>
      he_storage (reconcile_live_file_candidates Lc e cands g h) = fst (evict_chunks Lc (ev_remove_fails e) auth' (he_storage h))"
    using b a auth h2 by (simp add: reconcile_live_file_candidates_def Let_def auth'_def split_beta)
  with gone has have "c \<in> set auth'" using evict_has [OF wf, of Lc "ev_remove_fails e" auth' c] by auto
  then have c: "c \<in> set auth" "ev_recheck_read e \<longrightarrow> map_of (db_patch_state (ms_db (he_metadata h))) c = None"
    by (auto simp: auth'_def get_patch_states_present_batch_def split: if_splits)
  from authorize_sound [OF a [unfolded auth] c(1)] have "c \<in> set ready" "authorized_delete e h c"
    by (simp_all add: authorized_candidates)
  with debounce_ready [OF d b] c(2) show ?thesis by auto
qed

section \<open>What the sweep deletes\<close>

lemma cached_live_frame:
  "cached_live_chunk_ids e h = (h', r) \<Longrightarrow> \<exists>x. h' = h\<lparr>he_live_chunk_ids_cache := x\<rparr>"
proof -
  have "\<exists>x. h = h\<lparr>he_live_chunk_ids_cache := x\<rparr>" by (rule exI [of _ "he_live_chunk_ids_cache h"]) simp
  then show "cached_live_chunk_ids e h = (h', r) \<Longrightarrow> ?thesis"
    by (auto simp: cached_live_chunk_ids_def Let_def split: option.splits if_splits prod.splits)
qed

lemma authorized_live_cache: "authorized_delete e (h\<lparr>he_live_chunk_ids_cache := x\<rparr>) c = authorized_delete e h c"
  by (simp add: authorized_delete_def handle_get_pending_patch_chunk_ids_def cong: if_cong option.case_cong)

definition orphan_grace :: "sweep_env \<Rightarrow> nat" where
  "orphan_grace e = (case ev_orphan_grace_secs e of Some g \<Rightarrow> g | None \<Rightarrow> 600)"

text \<open>Nothing this node knows refers to the chunk.\<close>

definition unreferenced :: "sweep_env \<Rightarrow> ('c, 'w) HealingManager \<Rightarrow> ChunkId \<Rightarrow> bool" where
  "unreferenced e h c \<longleftrightarrow>
     \<not> looks_like_patch_token c \<and> c \<notin> live_chunk_ids_from_chunk_map h \<and>
     (\<exists>live. snd (cached_live_chunk_ids e h) = Some live \<and> c \<notin> live) \<and>
     (ev_present_read e \<or> ev_recheck_read e \<longrightarrow> map_of (db_patch_state (ms_db (he_metadata h))) c = None)"

lemma sweep_parts:
  assumes "run_disk_orphan_sweep_over Lc e chunks h = (h', cands)"
  obtains x where "snd (cached_live_chunk_ids e h) = None" "h' = h\<lparr>he_live_chunk_ids_cache := x\<rparr>"
  | x live where "snd (cached_live_chunk_ids e h) = Some live"
      "h' = reconcile_live_file_candidates Lc e (scan_page e live (live_chunk_ids_from_chunk_map h) (h\<lparr>he_live_chunk_ids_cache := x\<rparr>) chunks)
              (orphan_grace e) (h\<lparr>he_live_chunk_ids_cache := x\<rparr>)"
proof -
  obtain h1 r where c: "cached_live_chunk_ids e h = (h1, r)" by (cases "cached_live_chunk_ids e h")
  from cached_live_frame [OF c] obtain x where h1: "h1 = h\<lparr>he_live_chunk_ids_cache := x\<rparr>" ..
  show thesis
  proof (cases r)
    case None
    with that(1) [of x] assms c h1 show ?thesis by (simp add: run_disk_orphan_sweep_over_def Let_def)
  next
    case (Some live)
    with that(2) [of live x] assms c h1 show ?thesis by (simp add: run_disk_orphan_sweep_over_def Let_def orphan_grace_def)
  qed
qed

lemma sweep_deletes:
  assumes "run_disk_orphan_sweep_over Lc e chunks h = (h', cands)" and "distinct chunks" and "hm_wf (st_fs (he_storage h))"
    and "has_chunk (he_storage h) c" and "\<not> has_chunk (he_storage h') c"
  shows "c \<in> set chunks \<and> unreferenced e h c \<and> orphan_grace e \<le> page_age e h c \<and>
    c \<in> he_orphan_candidates h \<and> authorized_delete e h c"
  using assms(1)
proof (cases rule: sweep_parts)
  case (1 x)
  with assms(4,5) show ?thesis by simp
next
  case (2 x live)
  let ?h1 = "h\<lparr>he_live_chunk_ids_cache := x\<rparr>"
  let ?cands = "scan_page e live (live_chunk_ids_from_chunk_map h) ?h1 chunks"
  have "hm_wf (st_fs (he_storage ?h1))" "has_chunk (he_storage ?h1) c"
    "\<not> has_chunk (he_storage (reconcile_live_file_candidates Lc e ?cands (orphan_grace e) ?h1)) c"
    using assms(3,4,5) 2 by simp_all
  from reconcile_deletes [OF scan_page_distinct [OF assms(2)] this] have r: "c \<in> he_orphan_candidates h" "\<not> looks_like_patch_token c" "\<exists>age. (c, age) \<in> set ?cands \<and> orphan_grace e \<le> age"
    "authorized_delete e h c" "ev_recheck_read e \<longrightarrow> map_of (db_patch_state (ms_db (he_metadata h))) c = None"
    by (simp_all add: authorized_live_cache)
  from r(3) have "(c, page_age e h c) \<in> set ?cands" "orphan_grace e \<le> page_age e h c"
    by (auto simp: scan_page_iff page_age_def)
  with r show ?thesis by (auto simp: scan_page_iff unreferenced_def 2)
qed


section \<open>Chunks other nodes need\<close>

text \<open>A patch row of the node names the chunk: as its token, or as the base or the delta of a pending patch.\<close>

definition needed_by :: "MetadataStore \<Rightarrow> ChunkId \<Rightarrow> bool" where
  "needed_by m c \<longleftrightarrow>
     (\<exists>t v. (t, v) \<in> set (db_patch_state (ms_db m)) \<and>
        (c = t \<or> (\<exists>b d sz w q. v = Good (Pending b d sz w q) \<and> (c = b \<or> c = d))))"

lemma pending_ids_iff:
  assumes "all_pending_patch_chunk_ids m = Some P"
  shows "c \<in> P \<union> all_patch_token_ids m \<longleftrightarrow> needed_by m c"
proof -
  have "c \<in> P \<longleftrightarrow> (\<exists>t v. (t, v) \<in> set (db_patch_state (ms_db m)) \<and> (\<exists>b d sz w q. v = Good (Pending b d sz w q) \<and> (c = b \<or> c = d)))"
    using assms by (force simp: all_pending_patch_chunk_ids_def Let_def split: if_splits stored.splits PatchState.splits)
  moreover have "c \<in> all_patch_token_ids m \<longleftrightarrow> (\<exists>t v. (t, v) \<in> set (db_patch_state (ms_db m)) \<and> c = t)"
    by (force simp: all_patch_token_ids_def)
  ultimately show ?thesis unfolding needed_by_def Un_iff by blast
qed

lemma handle_pending_iff: "handle_get_pending_patch_chunk_ids h = Some P \<Longrightarrow> c \<in> P \<longleftrightarrow> needed_by (he_metadata h) c"
  using pending_ids_iff by (auto simp: handle_get_pending_patch_chunk_ids_def split: option.splits)

lemma peers_pending_Some:
  "peers_pending ask ns acc = Some S \<Longrightarrow> acc \<subseteq> S \<and> (\<forall>n \<in> set ns. \<exists>P. ask (ni_addr n) = Some P \<and> P \<subseteq> S)"
proof (induction ns arbitrary: acc)
  case (Cons n ns)
  then obtain P where a: "ask (ni_addr n) = Some P" "peers_pending ask ns (acc \<union> P) = Some S" by (auto split: option.splits)
  from Cons.IH [OF a(2)] a(1) show ?case by auto
qed simp

lemma chunk_map_live_iff:
  assumes "lockstep own (he_chunks h)"
  shows "c \<in> live_chunk_ids_from_chunk_map h \<longleftrightarrow> hm_get (ck_to_file (he_chunks h)) c \<noteq> None"
proof -
  note L = lockstepD(3,4) [OF assms]
  have "c \<in> live_chunk_ids_from_chunk_map h \<longleftrightarrow> (\<exists>f. c \<in> ids (locs_of (he_chunks h) f))"
  proof
    assume "c \<in> live_chunk_ids_from_chunk_map h"
    then obtain f locs q where m: "(f, locs, q) \<in> set (ck_map (he_chunks h))" "c \<in> cl_chunk_id ` set locs"
      by (auto simp: live_chunk_ids_from_chunk_map_def)
    from m(1) L(2) have "hm_get (ck_map (he_chunks h)) f = Some (locs, q)" by (simp add: hm_get_def hm_wf_def)
    with m(2) have "c \<in> ids (locs_of (he_chunks h) f)" by (simp add: ids_def locs_of_def)
    then show "\<exists>f. c \<in> ids (locs_of (he_chunks h) f)" ..
  next
    assume "\<exists>f. c \<in> ids (locs_of (he_chunks h) f)"
    then obtain f where "c \<in> ids (locs_of (he_chunks h) f)" ..
    then obtain locs q where "hm_get (ck_map (he_chunks h)) f = Some (locs, q)" "c \<in> cl_chunk_id ` set locs"
      unfolding ids_def locs_of_def by (cases "hm_get (ck_map (he_chunks h)) f") auto
    then show "c \<in> live_chunk_ids_from_chunk_map h"
      unfolding live_chunk_ids_from_chunk_map_def hm_get_def by (force dest: map_of_SomeD)
  qed
  with L(1) show ?thesis by (metis not_None_eq)
qed

lemma confirm_spares:
  assumes "handle_confirm_chunks_live e healing ask cs h = (h', Some live)" and "c \<in> set cs" and "c \<notin> set live"
  shows "hm_get (ck_to_file (he_chunks h)) c = None"
    and "all_pending_patch_chunk_ids (he_metadata h) = Some P \<Longrightarrow> \<not> needed_by (he_metadata h) c"
    and "n \<in> set (get_all_nodes (ev_now e) (he_cluster h)) \<Longrightarrow> ni_id n \<noteq> cm_local_node_id (he_cluster h) \<Longrightarrow> ni_status n = Online \<Longrightarrow>
      \<exists>P. ask (ni_addr n) = Some P \<and> c \<notin> P"
proof -
  define got where "got = (if healing then cached_live_chunk_ids e h
    else (h, if ev_live_read e then Some (live_chunk_ids (he_metadata h)) else None))"
  obtain h1 r where g: "got = (h1, r)" by (cases got)
  then have "\<exists>x. h1 = h\<lparr>he_live_chunk_ids_cache := x\<rparr>"
    using cached_live_frame [of e h h1 r] exI [of "\<lambda>x. h = h\<lparr>he_live_chunk_ids_cache := x\<rparr>" "he_live_chunk_ids_cache h"]
    by (auto simp: got_def split: if_splits)
  then obtain x where h1: "h1 = h\<lparr>he_live_chunk_ids_cache := x\<rparr>" ..
  define S2 where "S2 = set (filter (\<lambda>c. hm_get (ck_to_file (he_chunks h)) c \<noteq> None) cs) \<union>
    (case all_pending_patch_chunk_ids (he_metadata h) of None \<Rightarrow> {} | Some P \<Rightarrow> P) \<union> all_patch_token_ids (he_metadata h)"
  let ?peers = "filter (\<lambda>n. ni_id n \<noteq> cm_local_node_id (he_cluster h) \<and> ni_status n = Online) (get_all_nodes (ev_now e) (he_cluster h))"
  obtain cached where r: "r = Some cached" using assms(1) g by (auto simp: handle_confirm_chunks_live_def got_def [symmetric] split: option.splits)
  have "live = (case peers_pending ask ?peers S2 of None \<Rightarrow> cs | Some S \<Rightarrow> filter (\<lambda>c. c \<in> cached \<or> c \<in> S) cs)"
    using assms(1) g unfolding handle_confirm_chunks_live_def got_def [symmetric] r h1 S2_def
    by (cases "all_pending_patch_chunk_ids (he_metadata h)") (simp_all add: Let_def)
  with assms(2,3) obtain S where S: "peers_pending ask ?peers S2 = Some S" "c \<notin> S" by (auto split: option.splits)
  note F = peers_pending_Some [OF S(1)]
  show "hm_get (ck_to_file (he_chunks h)) c = None" using F S(2) assms(2) by (auto simp: S2_def)
  show "all_pending_patch_chunk_ids (he_metadata h) = Some P \<Longrightarrow> \<not> needed_by (he_metadata h) c"
    using F S(2) pending_ids_iff [of "he_metadata h" P c] by (auto simp: S2_def)
  show "n \<in> set (get_all_nodes (ev_now e) (he_cluster h)) \<Longrightarrow> ni_id n \<noteq> cm_local_node_id (he_cluster h) \<Longrightarrow> ni_status n = Online \<Longrightarrow>
      \<exists>P. ask (ni_addr n) = Some P \<and> c \<notin> P"
    using F S(2) by fastforce
qed


lemma confirm_unasked:
  assumes off: "\<forall>n \<in> set (get_all_nodes (ev_now e) (he_cluster h)). ni_addr n = a \<longrightarrow> ni_status n \<noteq> Online"
  shows "handle_confirm_chunks_live e healing (ask(a := answer)) cs h = handle_confirm_chunks_live e healing ask cs h"
proof -
  have ask: "\<forall>n \<in> set ns. ni_addr n \<noteq> a \<Longrightarrow> peers_pending (ask(a := answer)) ns acc = peers_pending ask ns acc" for ns acc
    by (induction ns arbitrary: acc) (auto split: option.split)
  define got where "got = (if healing then cached_live_chunk_ids e h
    else (h, if ev_live_read e then Some (live_chunk_ids (he_metadata h)) else None))"
  obtain h1 r where g: "got = (h1, r)" by (cases got)
  then have "he_cluster h1 = he_cluster h"
    using cached_live_frame [of e h h1 r] by (auto simp: got_def split: if_splits)
  with off have "\<forall>n \<in> set (filter (\<lambda>n. ni_id n \<noteq> cm_local_node_id (he_cluster h1) \<and> ni_status n = Online)
      (get_all_nodes (ev_now e) (he_cluster h1))). ni_addr n \<noteq> a" by auto
  from ask [OF this] show ?thesis unfolding handle_confirm_chunks_live_def got_def [symmetric] g by (simp add: Let_def)
qed

text \<open>Where that protection ends. What a member would answer that the leader does not hold to be
  online makes no difference to the leader's answer to another node, although a sweep goes on with one
  member down; and for ten seconds after it asked, the leader decides on its own candidates without
  asking any member again.\<close>

theorem sweep_protection_ends:
  "((\<forall>n \<in> set (get_all_nodes (ev_now e) (he_cluster h)). ni_addr n = a \<longrightarrow> ni_status n \<noteq> Online) \<longrightarrow>
      handle_confirm_chunks_live e healing (ask(a := answer)) cs h = handle_confirm_chunks_live e healing ask cs h) \<and>
   (is_leader (he_cluster h) \<and> he_orphan_auth_cache h = Some (t, P) \<and> ev_inst e - t < ORPHAN_AUTH_CACHE_TTL \<longrightarrow>
      authorize_live_file_orphan_deletes (e\<lparr>ev_auth_info := answers\<rparr>) cs h = (h, Some (filter (\<lambda>c. c \<notin> P) cs)))"
  using confirm_unasked [of e h a healing ask answer cs] by (simp add: authorize_live_file_orphan_deletes_def)

section \<open>Progress\<close>

definition grants :: "sweep_env \<Rightarrow> ('c, 'w) HealingManager \<Rightarrow> ChunkId \<Rightarrow> bool" where
  "grants e h c \<longleftrightarrow>
     (if is_leader (he_cluster h) then
        (\<forall>t P. he_orphan_auth_cache h = Some (t, P) \<longrightarrow> c \<notin> P) \<and>
        (\<exists>own. handle_get_pending_patch_chunk_ids h = Some own \<and> c \<notin> own) \<and>
        (\<forall>n \<in> set (get_all_nodes (ev_now e) (he_cluster h)). ni_id n \<noteq> cm_local_node_id (he_cluster h) \<longrightarrow>
           ni_status n = Online \<and>
           (\<exists>up ids. ev_auth_info e (ni_addr n) = Some (up, ids) \<and> STABILITY_SECS \<le> up \<and> c \<notin> ids))
      else \<exists>a. get_leader_addr (he_cluster h) = Some a \<and> (\<forall>cs. \<exists>live. ev_confirm e a cs = Some live \<and> c \<notin> set live))"

lemma authorize_complete:
  assumes "grants e h c" and "c \<in> set cands"
  shows "\<exists>h' auth. authorize_live_file_orphan_deletes e cands h = (h', Some auth) \<and> c \<in> set auth"
proof (cases "is_leader (he_cluster h)")
  case True
  show ?thesis
  proof (cases "\<exists>t P. he_orphan_auth_cache h = Some (t, P) \<and> ev_inst e - t < ORPHAN_AUTH_CACHE_TTL")
    case cached: True
    then obtain t P where "he_orphan_auth_cache h = Some (t, P)" "ev_inst e - t < ORPHAN_AUTH_CACHE_TTL" by blast
    with True assms show ?thesis by (simp add: authorize_live_file_orphan_deletes_def grants_def)
  next
    case False
    let ?peers = "filter (\<lambda>n. ni_id n \<noteq> cm_local_node_id (he_cluster h)) (get_all_nodes (ev_now e) (he_cluster h))"
    from True assms(1) obtain P where P: "all_pending_patch_chunk_ids (he_metadata h) = Some P" "c \<notin> P \<union> all_patch_token_ids (he_metadata h)"
      and on: "\<not> list_ex (\<lambda>n. ni_status n \<noteq> Online) ?peers"
      and ok: "\<forall>n \<in> set ?peers. \<exists>up ids. ev_auth_info e (ni_addr n) = Some (up, ids) \<and> STABILITY_SECS \<le> up \<and> c \<notin> ids"
      by (auto simp: grants_def handle_get_pending_patch_chunk_ids_def list_ex_iff split: option.splits)
    from union_answers_ok [OF ok P(2)] obtain all_ids where
      "union_answers (ev_auth_info e) ?peers (P \<union> all_patch_token_ids (he_metadata h)) = Some all_ids" "c \<notin> all_ids" by blast
    with True False P(1) on assms(2) show ?thesis
      by (auto simp: authorize_live_file_orphan_deletes_def Let_def split: option.split)
  qed
next
  case False
  with assms(1) obtain a where "get_leader_addr (he_cluster h) = Some a" "\<exists>live. ev_confirm e a cands = Some live \<and> c \<notin> set live"
    by (auto simp: grants_def)
  with False assms(2) show ?thesis by (auto simp: authorize_live_file_orphan_deletes_def)
qed

lemma reconcile_collects:
  assumes d: "distinct (map fst cands)" and wf: "hm_wf (st_fs (he_storage h))" and c: "(c, age) \<in> set cands" "g \<le> age"
    "\<not> looks_like_patch_token c" and seen: "c \<in> he_orphan_candidates h" and "grants e h c" and "\<not> ev_remove_fails e c"
    and row: "ev_recheck_read e \<longrightarrow> map_of (db_patch_state (ms_db (he_metadata h))) c = None"
  shows "\<not> has_chunk (he_storage (reconcile_live_file_candidates Lc e cands g h)) c"
proof -
  obtain T ready where b: "debounce g cands (he_orphan_candidates h) = (T, ready)" by (cases "debounce g cands (he_orphan_candidates h)")
  have ready: "c \<in> set ready" using debounce_ready [OF d b] c seen by auto
  let ?h1 = "h\<lparr>he_orphan_candidates := T\<rparr>"
  have "grants e ?h1 c" using assms(7) by (simp add: grants_def handle_get_pending_patch_chunk_ids_def cong: if_cong option.case_cong)
  from authorize_complete [OF this ready] obtain h2 auth where
    a: "authorize_live_file_orphan_deletes e ready ?h1 = (h2, Some auth)" "c \<in> set auth" by blast
  from authorize_frame [OF a(1)] obtain x where h2: "h2 = ?h1\<lparr>he_orphan_auth_cache := x\<rparr>" ..
  define auth' where "auth' = (if ev_recheck_read e then filter (\<lambda>c. c \<notin> get_patch_states_present_batch auth (he_metadata h)) auth else auth)"
  have "c \<in> set auth'" using a(2) row by (auto simp: auth'_def get_patch_states_present_batch_def)
  moreover have "he_storage (reconcile_live_file_candidates Lc e cands g h) = fst (evict_chunks Lc (ev_remove_fails e) auth' (he_storage h))"
    using b a(1) h2 c(1) ready by (auto simp: reconcile_live_file_candidates_def Let_def auth'_def split_beta)
  ultimately show ?thesis using evict_has [OF wf, of Lc "ev_remove_fails e" auth' c] c(3) assms(8) by simp
qed

lemma reconcile_tracks:
  assumes d: "distinct (map fst cands)" and c: "(c, age) \<in> set cands" "g \<le> age" "\<not> looks_like_patch_token c"
    and "c \<notin> he_orphan_candidates h"
  shows "c \<in> he_orphan_candidates (reconcile_live_file_candidates Lc e cands g h)"
proof -
  obtain T ready where b: "debounce g cands (he_orphan_candidates h) = (T, ready)" by (cases "debounce g cands (he_orphan_candidates h)")
  have T: "c \<in> T" using debounce_tracked [OF d b] c assms(5) by auto
  obtain h2 r where a: "authorize_live_file_orphan_deletes e ready (h\<lparr>he_orphan_candidates := T\<rparr>) = (h2, r)"
    by (cases "authorize_live_file_orphan_deletes e ready (h\<lparr>he_orphan_candidates := T\<rparr>)")
  from authorize_frame [OF a] have "he_orphan_candidates h2 = T" by auto
  with b a T c(1) show ?thesis by (auto simp: reconcile_live_file_candidates_def Let_def split_beta split: option.split)
qed

lemma sweep_step:
  assumes "run_disk_orphan_sweep_over Lc e chunks h = (h', cands)" and "distinct chunks" and "hm_wf (st_fs (he_storage h))"
    and "c \<in> set chunks" and u: "unreferenced e h c" and age: "orphan_grace e \<le> page_age e h c"
  shows "c \<notin> he_orphan_candidates h \<Longrightarrow> c \<in> he_orphan_candidates h'"
    and "c \<in> he_orphan_candidates h \<Longrightarrow> grants e h c \<Longrightarrow> \<not> ev_remove_fails e c \<Longrightarrow> \<not> has_chunk (he_storage h') c"
proof -
  from assms(1) obtain x live where live: "snd (cached_live_chunk_ids e h) = Some live"
    and h': "h' = reconcile_live_file_candidates Lc e (scan_page e live (live_chunk_ids_from_chunk_map h) (h\<lparr>he_live_chunk_ids_cache := x\<rparr>) chunks)
              (orphan_grace e) (h\<lparr>he_live_chunk_ids_cache := x\<rparr>)"
    by (cases rule: sweep_parts) (use u in \<open>auto simp: unreferenced_def\<close>)
  let ?h1 = "h\<lparr>he_live_chunk_ids_cache := x\<rparr>"
  let ?cands = "scan_page e live (live_chunk_ids_from_chunk_map h) ?h1 chunks"
  have in_page: "(c, page_age e h c) \<in> set ?cands" using u assms(4) live by (auto simp: scan_page_iff unreferenced_def page_age_def)
  have tok: "\<not> looks_like_patch_token c" using u by (simp add: unreferenced_def)
  note d = scan_page_distinct [OF assms(2)]
  show "c \<in> he_orphan_candidates h'" if "c \<notin> he_orphan_candidates h"
    unfolding h' by (rule reconcile_tracks [OF d in_page age tok]) (use that in simp)
  show "\<not> has_chunk (he_storage h') c" if "c \<in> he_orphan_candidates h" "grants e h c" "\<not> ev_remove_fails e c"
    unfolding h'
  proof (rule reconcile_collects [OF d _ in_page age tok])
    show "grants e ?h1 c" using that(2) by (simp add: grants_def handle_get_pending_patch_chunk_ids_def cong: if_cong option.case_cong)
  qed (use that assms(3) u in \<open>simp_all add: unreferenced_def\<close>)
qed

lemma evict_wf: "hm_wf (st_fs st) \<Longrightarrow> hm_wf (st_fs (fst (evict_chunks Lc fails cs st)))"
proof (induction cs arbitrary: st)
  case (Cons c cs)
  from Cons.IH [OF Cons.prems] Cons.IH [OF delete_chunk_has(2) [OF Cons.prems, of Lc "fails c" c]] show ?case by (simp add: split_beta)
qed simp

lemma evict_index:
  "st_index st = Some ix \<Longrightarrow> \<exists>D \<subseteq> set cs. st_index (fst (evict_chunks Lc fails cs st)) = Some (filter (\<lambda>p. fst p \<notin> D) ix)"
proof (induction cs arbitrary: st ix)
  case Nil
  then show ?case by (intro exI [of _ "{}"]) simp
next
  case (Cons c cs)
  let ?st1 = "fst (delete_chunk Lc (fails c) c ''live_file_orphan_sweep'' st)"
  have "\<exists>D \<subseteq> {c}. st_index ?st1 = Some (filter (\<lambda>p. fst p \<notin> D) ix)"
    using delete_chunk_index [of Lc "fails c" c "''live_file_orphan_sweep''" st] Cons.prems
    by (elim disjE) (rule exI [of _ "{c}"], simp add: bt_remove_def, rule exI [of _ "{}"], simp)
  then obtain D1 where D1: "D1 \<subseteq> {c}" "st_index ?st1 = Some (filter (\<lambda>p. fst p \<notin> D1) ix)" by blast
  from Cons.IH [OF D1(2)] obtain D2 where D2: "D2 \<subseteq> set cs"
    "st_index (fst (evict_chunks Lc fails cs ?st1)) = Some (filter (\<lambda>p. fst p \<notin> D2) (filter (\<lambda>p. fst p \<notin> D1) ix))" by blast
  have f: "filter (\<lambda>p. fst p \<notin> D2) (filter (\<lambda>p. fst p \<notin> D1) ix) = filter (\<lambda>p. fst p \<notin> D1 \<union> D2) ix"
    by (simp add: filter_filter conj_commute)
  show ?case
  proof (cases "looks_like_patch_token c")
    case True
    from Cons.IH [OF Cons.prems] True show ?thesis by (auto intro: subset_insertI2)
  next
    case False
    with D1(1) D2 f show ?thesis by (intro exI [of _ "D1 \<union> D2"]) (auto simp: split_beta)
  qed
qed

lemma sweep_frame:
  assumes "run_disk_orphan_sweep_over Lc e chunks h = (h', cands)" and "distinct chunks"
  shows "he_cluster h' = he_cluster h" and "he_local_started_at h' = he_local_started_at h"
    and "hm_wf (st_fs (he_storage h)) \<Longrightarrow> hm_wf (st_fs (he_storage h'))"
    and "st_index (he_storage h) = Some ix \<Longrightarrow> \<exists>D \<subseteq> set chunks. st_index (he_storage h') = Some (filter (\<lambda>p. fst p \<notin> D) ix)"
proof -
  have "\<exists>cs \<subseteq> set chunks. he_cluster h' = he_cluster h \<and> he_local_started_at h' = he_local_started_at h \<and>
      (he_storage h' = he_storage h \<or> (\<exists>xs. set xs = cs \<and> he_storage h' = fst (evict_chunks Lc (ev_remove_fails e) xs (he_storage h))))"
    using assms(1)
  proof (cases rule: sweep_parts)
    case (1 x)
    then show ?thesis by auto
  next
    case (2 x live)
    let ?h1 = "h\<lparr>he_live_chunk_ids_cache := x\<rparr>"
    let ?cands = "scan_page e live (live_chunk_ids_from_chunk_map h) ?h1 chunks"
    obtain T ready where b: "debounce (orphan_grace e) ?cands (he_orphan_candidates ?h1) = (T, ready)"
      by (cases "debounce (orphan_grace e) ?cands (he_orphan_candidates ?h1)")
    have ready: "set ready \<subseteq> set chunks" using debounce_ready [OF scan_page_distinct [OF assms(2)] b] by (auto simp: scan_page_iff)
    let ?h2 = "?h1\<lparr>he_orphan_candidates := T\<rparr>"
    obtain h3 r where a: "authorize_live_file_orphan_deletes e ready ?h2 = (h3, r)" by (cases "authorize_live_file_orphan_deletes e ready ?h2")
    from authorize_frame [OF a] obtain y where h3: "h3 = ?h2\<lparr>he_orphan_auth_cache := y\<rparr>" ..
    show ?thesis
    proof (cases r)
      case None
      with 2 b a h3 show ?thesis by (auto simp: reconcile_live_file_candidates_def Let_def)
    next
      case (Some auth)
      let ?xs = "if ev_recheck_read e then filter (\<lambda>c. c \<notin> get_patch_states_present_batch auth (he_metadata h)) auth else auth"
      have "set ?xs \<subseteq> set chunks" using authorize_sound [OF a [unfolded Some]] ready by auto
      moreover have "he_cluster h' = he_cluster h \<and> he_local_started_at h' = he_local_started_at h \<and>
          (he_storage h' = he_storage h \<or> he_storage h' = fst (evict_chunks Lc (ev_remove_fails e) ?xs (he_storage h)))"
        using 2(2) b a h3 Some by (simp add: reconcile_live_file_candidates_def Let_def split_beta)
      ultimately show ?thesis by blast
    qed
  qed
  then obtain cs where cs: "cs \<subseteq> set chunks" "he_cluster h' = he_cluster h" "he_local_started_at h' = he_local_started_at h"
      "he_storage h' = he_storage h \<or> (\<exists>xs. set xs = cs \<and> he_storage h' = fst (evict_chunks Lc (ev_remove_fails e) xs (he_storage h)))"
    by blast
  show "he_cluster h' = he_cluster h" "he_local_started_at h' = he_local_started_at h" by fact+
  show "hm_wf (st_fs (he_storage h)) \<Longrightarrow> hm_wf (st_fs (he_storage h'))" using cs(4) evict_wf by metis
  show "\<exists>D \<subseteq> set chunks. st_index (he_storage h') = Some (filter (\<lambda>p. fst p \<notin> D) ix)" if "st_index (he_storage h) = Some ix"
    using cs(4)
  proof
    assume "he_storage h' = he_storage h"
    with that show ?thesis by (intro exI [of _ "{}"]) simp
  next
    assume "\<exists>xs. set xs = cs \<and> he_storage h' = fst (evict_chunks Lc (ev_remove_fails e) xs (he_storage h))"
    with evict_index [OF that] cs(1) show ?thesis by (metis subset_trans)
  qed
qed


section \<open>The rotation over the pages\<close>

text \<open>The pages a sequence of turns looks at; every turn has its surroundings and the time its work took.\<close>

fun rotation ::
    "('c, ChunkId, byte list) lru \<Rightarrow> nat \<Rightarrow> nat \<Rightarrow> nat \<Rightarrow> (sweep_env \<times> nat) list \<Rightarrow> sweep_loop \<Rightarrow>
     ('c, 'w) HealingManager \<Rightarrow> ChunkId list list" where
  "rotation Lc page_size base_grace max_grace [] lp h = []"
| "rotation Lc page_size base_grace max_grace ((e, elapsed) # es) lp h =
     (case list_chunks_page (sl_cursor lp) page_size (he_storage h) of
        Panic \<Rightarrow> [] | Ret (page, _) \<Rightarrow> page) #
     (case sweep_turn Lc page_size base_grace max_grace e True elapsed lp h of
        (lp', h', _) \<Rightarrow> rotation Lc page_size base_grace max_grace es lp' h')"

definition unswept :: "sweep_loop \<Rightarrow> (ChunkId \<times> unit) list \<Rightarrow> ChunkId list" where
  "unswept lp ix = map fst (case sl_cursor lp of Some cur \<Rightarrow> filter (\<lambda>p. cur < fst p) ix | None \<Rightarrow> ix)"

lemma unswept_sorted: "bt_wf ix \<Longrightarrow> sorted_wrt (<) (unswept lp ix)"
  by (auto simp: unswept_def bt_wf_def sorted_wrt_map intro: sorted_wrt_filter split: option.split)

lemma page_top: "sorted_wrt (<) (xs :: 'a::linorder list) \<Longrightarrow> x \<in> set (take n xs) \<Longrightarrow> x \<le> last (take n xs)"
proof -
  assume s: "sorted_wrt (<) xs" and x: "x \<in> set (take n xs)"
  then obtain ys y where e: "take n xs = ys @ [y]" by (metis rev_exhaust empty_iff list.set(1))
  have "sorted_wrt (<) (take n xs)" using s by (rule sorted_wrt_take)
  with e x show ?thesis by (auto simp: sorted_wrt_append)
qed

lemma after_page:
  assumes s: "sorted_wrt (<) (xs :: 'a::linorder list)" and ne: "take n xs \<noteq> []"
  shows "filter (\<lambda>x. last (take n xs) < x) xs = drop n xs"
proof -
  have s2: "sorted_wrt (<) (take n xs @ drop n xs)" using s by simp
  have "last (take n xs) < x" if "x \<in> set (drop n xs)" for x
    using s2 that last_in_set [OF ne] unfolding sorted_wrt_append by blast
  moreover have "\<not> last (take n xs) < x" if "x \<in> set (take n xs)" for x using page_top [OF s that] by simp
  ultimately have "filter (\<lambda>x. last (take n xs) < x) (take n xs) @ filter (\<lambda>x. last (take n xs) < x) (drop n xs) = drop n xs"
    by (simp add: filter_empty_conv)
  then show ?thesis by (metis filter_append append_take_drop_id)
qed

lemma unswept_step:
  assumes wf: "bt_wf ix" and page: "page = take n (unswept lp ix)" "page \<noteq> []" and D: "D \<subseteq> set page"
    and cur: "sl_cursor lp' = Some (last page)"
  shows "unswept lp' (filter (\<lambda>p. fst p \<notin> D) ix) = drop n (unswept lp ix)"
proof -
  note s = unswept_sorted [OF wf, of lp]
  have out: "\<not> last page < x" if "x \<in> D" for x using page_top [OF s, of x n] D that page(1) by auto
  have "last page \<in> set (unswept lp ix)" using last_in_set [OF page(2)] page(1) by (metis in_set_takeD)
  then have above: "case sl_cursor lp of Some c \<Rightarrow> c < last page | None \<Rightarrow> True" by (auto simp: unswept_def split: option.splits)
  have "unswept lp' (filter (\<lambda>p. fst p \<notin> D) ix) = map fst (filter (\<lambda>p. last page < fst p) ix)"
    using out by (auto simp: unswept_def cur intro!: arg_cong [of _ _ "map fst"] filter_cong)
  also have "\<dots> = filter (\<lambda>x. last page < x) (unswept lp ix)"
    using above by (auto simp: unswept_def filter_map comp_def split: option.splits intro!: arg_cong [of _ _ "map fst"] filter_cong)
  also have "\<dots> = drop n (unswept lp ix)" unfolding page(1) by (rule after_page [OF s]) (use page in simp)
  finally show ?thesis .
qed

lemma page_eq:
  "st_index (he_storage h) = Some ix \<Longrightarrow>
     list_chunks_page (sl_cursor lp) n (he_storage h) = Ret (take n (unswept lp ix), he_storage h)"
  by (simp add: list_chunks_page_def with_index_def unswept_def)

lemma turn_step:
  assumes ix: "st_index (he_storage h) = Some ix" "bt_wf ix" and gate: "disk_orphan_sweep_cluster_gate_clear e h"
    and page: "take n (unswept lp ix) \<noteq> []" and turn: "sweep_turn Lc n base_grace max_grace e True elapsed lp h = (lp', h', pause)"
  shows "\<exists>ix'. st_index (he_storage h') = Some ix' \<and> bt_wf ix' \<and> unswept lp' ix' = drop n (unswept lp ix) \<and>
    he_cluster h' = he_cluster h \<and> he_local_started_at h' = he_local_started_at h"
proof -
  let ?page = "take n (unswept lp ix)"
  have d: "distinct ?page" using unswept_sorted [OF ix(2), of lp] by (simp add: strict_sorted_iff distinct_take)
  obtain h2 cands where r: "run_disk_orphan_sweep_over Lc e ?page h = (h2, cands)" by (cases "run_disk_orphan_sweep_over Lc e ?page h")
  from turn gate page have c: "h' = h2" "sl_cursor lp' = Some (last ?page)"
    by (simp_all add: sweep_turn_def page_eq [OF ix(1)] r split_beta Let_def) auto
  from sweep_frame(4) [OF r d ix(1)] obtain D where
    D: "D \<subseteq> set ?page" "st_index (he_storage h2) = Some (filter (\<lambda>p. fst p \<notin> D) ix)" by blast
  have "bt_wf (filter (\<lambda>p. fst p \<notin> D) ix)" using ix(2) by (simp add: bt_wf_def sorted_wrt_map sorted_wrt_filter)
  with unswept_step [OF ix(2) refl page D(1) c(2)] D(2) c(1) sweep_frame(1,2) [OF r d] show ?thesis by auto
qed

lemma gate_cong: "he_cluster h' = he_cluster h \<Longrightarrow> he_local_started_at h' = he_local_started_at h \<Longrightarrow>
    disk_orphan_sweep_cluster_gate_clear e h' = disk_orphan_sweep_cluster_gate_clear e h"
  by (simp add: disk_orphan_sweep_cluster_gate_clear_def)

text \<open>C32. The loop looks at every chunk file: starting at the beginning, the pages of \<open>k\<close> turns are, in
  order and without repetition, the first \<open>k * page_size\<close> entries of the index, whatever the turns
  delete; after \<open>\<lceil>n / page_size\<rceil>\<close> turns all \<open>n\<close> have been looked at.\<close>

theorem rotation_covers:
  assumes "st_index (he_storage h) = Some ix" and "bt_wf ix" and "0 < page_size" and "sl_cursor lp = None"
    and "\<forall>(e, elapsed) \<in> set es. disk_orphan_sweep_cluster_gate_clear e h"
    and "length es \<le> (length ix + page_size - 1) div page_size"
  shows "concat (rotation Lc page_size base_grace max_grace es lp h) = take (length es * page_size) (map fst ix)"
proof -
  have "length es = 0 \<or> (length es - 1) * page_size < length xs \<Longrightarrow> st_index (he_storage h) = Some ix \<Longrightarrow> bt_wf ix \<Longrightarrow>
     \<forall>(e, elapsed) \<in> set es. disk_orphan_sweep_cluster_gate_clear e h \<Longrightarrow> xs = unswept lp ix \<Longrightarrow>
     concat (rotation Lc page_size base_grace max_grace es lp h) = take (length es * page_size) xs" for xs
  proof (induction es arbitrary: lp h ix xs)
    case (Cons x es)
    obtain e elapsed where x: "x = (e, elapsed)" by (cases x)
    obtain lp' h' pause where turn: "sweep_turn Lc page_size base_grace max_grace e True elapsed lp h = (lp', h', pause)"
      by (cases "sweep_turn Lc page_size base_grace max_grace e True elapsed lp h")
    have ne: "take page_size (unswept lp ix) \<noteq> []" using Cons.prems(1,5) assms(3) by auto
    have gate: "disk_orphan_sweep_cluster_gate_clear e h" using Cons.prems(4) by (simp add: x)
    from turn_step [OF Cons.prems(2,3) gate ne turn] obtain ix' where
      ix': "st_index (he_storage h') = Some ix'" "bt_wf ix'" "unswept lp' ix' = drop page_size (unswept lp ix)"
        "he_cluster h' = he_cluster h" "he_local_started_at h' = he_local_started_at h" by blast
    have gates: "\<forall>(e, elapsed) \<in> set es. disk_orphan_sweep_cluster_gate_clear e h'"
      using Cons.prems(4) gate_cong [OF ix'(4,5)] by auto
    have len: "length es = 0 \<or> (length es - 1) * page_size < length (drop page_size xs)"
    proof (cases es)
      case (Cons y ys)
      with Cons.prems(1) show ?thesis by simp
    qed simp
    have "concat (rotation Lc page_size base_grace max_grace es lp' h') = take (length es * page_size) (drop page_size xs)"
      by (rule Cons.IH [OF len ix'(1,2) gates]) (simp add: ix'(3) Cons.prems(5))
    then show ?case
      using Cons.prems(5) by (simp add: x turn page_eq [OF Cons.prems(2)] take_add)
  qed simp
  moreover have "length es = 0 \<or> (length es - 1) * page_size < length (map fst ix)"
    using assms(3,6) by (cases "length es") (auto simp: less_eq_div_iff_mult_less_eq)
  moreover have "map fst ix = unswept lp ix" using assms(4) by (simp add: unswept_def)
  ultimately show ?thesis using assms(1,2,5) by metis
qed

section \<open>Examples\<close>

definition demo_members :: "128 word \<Rightarrow> ClusterManager" where
  "demo_members k =
     \<lparr>cm_local_node_id = NodeId k, cm_local_addr = (0, 0),
      cm_nodes = [(NodeId 1, new_NodeInfo 1000 (NodeId 1) (1, 1) None), (NodeId 2, new_NodeInfo 1000 (NodeId 2) (2, 2) None)],
      cm_hash_ring = new_ring 100, cm_node_capacities = [], cm_heartbeat_interval = 5, cm_failure_timeout = 30,
      cm_recovered = 0, cm_became_leader_at = None, cm_local_heal_bandwidth_mb = 0,
      cm_compaction_intents = [], cm_heartbeat_paused = False,
      cm_known_cluster_size = 2, cm_size_file = False, cm_size_on_disk = None\<rparr>"

definition demo_chunks :: ChunkState where
  "demo_chunks = \<lparr>ck_map = [], ck_to_file = [], ck_folds = {}, ck_gens = [], ck_rf = 3,
     ck_rejected_older = 0, ck_rejected_equal = 0, ck_rejected_newer = 0\<rparr>"

definition demo_heal :: "128 word \<Rightarrow> ChunkId set \<Rightarrow> (nat \<times> (ChunkId \<times> byte list) list, nat \<times> (ChunkId \<times> unit) list) HealingManager" where
  "demo_heal k tracked =
     \<lparr>he_storage = demo_store, he_metadata = new_MetadataStore True empty_db, he_chunks = demo_chunks,
      he_cluster = demo_members k, he_orphan_candidates = tracked, he_orphan_auth_cache = None,
      he_live_chunk_ids_cache = None, he_local_started_at = 0\<rparr>"

definition demo_sweep_env :: sweep_env where
  "demo_sweep_env =
     \<lparr>ev_now = 1000, ev_inst = 5000, ev_auth_info = (\<lambda>_. Some (400, {})),
      ev_confirm = (\<lambda>_ _. Some []), ev_live_set_cache_secs = None, ev_orphan_grace_secs = None, ev_live_read = True,
      ev_present_read = True, ev_recheck_read = True, ev_remove_fails = (\<lambda>_. False), ev_io = Committed\<rparr>"

lemma demo_nodes:
  "get_all_nodes n (demo_members k) = [new_NodeInfo 1000 (NodeId 1) (1, 1) None, new_NodeInfo 1000 (NodeId 2) (2, 2) None]"
  by (simp add: get_all_nodes_def demo_members_def hm_values_def hm_get_def)

lemma demo_local: "cm_local_node_id (demo_members k) = NodeId k"
  by (simp add: demo_members_def)

lemma demo_leader: "is_leader (demo_members k) \<longleftrightarrow> k = 1" "get_leader_addr (demo_members k) = Some (1, 1)"
  by (auto simp: is_leader_def leader_with_quorum_def get_leader_addr_def online_infos_def demo_members_def hm_values_def
      quorum_of_def new_NodeInfo_def less_eq_NodeId_def less_NodeId_def)

lemma demo_unreferenced: "unreferenced demo_sweep_env (demo_heal k tracked) demo_chunk"
  by (simp add: unreferenced_def demo_sweep_env_def demo_heal_def cached_live_chunk_ids_def live_chunk_ids_from_chunk_map_def
      demo_chunks_def new_MetadataStore_def empty_db_def live_chunk_ids_def live_locations_def list_all_chunk_locations_def
      looks_like_patch_token_def demo_chunk_def PATCH_TOKEN_MARKER_def)

lemma demo_age: "orphan_grace demo_sweep_env \<le> page_age demo_sweep_env (demo_heal k tracked) demo_chunk"
  by (simp add: orphan_grace_def page_age_def demo_sweep_env_def demo_heal_def get_chunk_mtime_def demo_store_fields hm_get_def)

lemma demo_grants: "k = 1 \<or> k = 2 \<Longrightarrow> grants demo_sweep_env (demo_heal k tracked) demo_chunk"
  by (auto simp: grants_def demo_heal_def demo_leader demo_nodes demo_sweep_env_def handle_get_pending_patch_chunk_ids_def
      all_pending_patch_chunk_ids_def all_patch_token_ids_def new_MetadataStore_def empty_db_def new_NodeInfo_def STABILITY_SECS_def)

lemma demo_fs: "hm_wf (st_fs (he_storage (demo_heal k tracked)))" "has_chunk (he_storage (demo_heal k tracked)) demo_chunk"
  by (simp_all add: demo_heal_def demo_store_fields hm_wf_def demo_has)


lemma demo_confirm:
  "snd (handle_confirm_chunks_live demo_sweep_env True (\<lambda>_. Option.bind (Some (demo_heal 2 {})) handle_get_pending_patch_chunk_ids) cs
     (demo_heal 1 {})) = Some []"
  by (simp add: handle_confirm_chunks_live_def cached_live_chunk_ids_def demo_sweep_env_def demo_heal_def demo_chunks_def
      new_MetadataStore_def empty_db_def live_chunk_ids_def live_locations_def list_all_chunk_locations_def hm_get_def
      all_pending_patch_chunk_ids_def all_patch_token_ids_def demo_nodes handle_get_pending_patch_chunk_ids_def Let_def new_NodeInfo_def
      demo_local)


theorem sweep_protection_ends_witness:
  "authorize_live_file_orphan_deletes (demo_sweep_env\<lparr>ev_auth_info := \<lambda>_. Some (400, {demo_chunk})\<rparr>) [demo_chunk]
     ((demo_heal 1 {})\<lparr>he_orphan_auth_cache := Some (4995, {})\<rparr>) =
     ((demo_heal 1 {})\<lparr>he_orphan_auth_cache := Some (4995, {})\<rparr>, Some [demo_chunk])"
  using sweep_protection_ends [of demo_sweep_env "(demo_heal 1 {})\<lparr>he_orphan_auth_cache := Some (4995, {})\<rparr>" "(9, 9)" True "\<lambda>_. None" None
      "[demo_chunk]" 4995 "{}" "\<lambda>_. Some (400, {demo_chunk})"]
  by (simp add: demo_heal_def demo_leader demo_sweep_env_def ORPHAN_AUTH_CACHE_TTL_def)

lemma demo_first_pass:
  "run_disk_orphan_sweep_over recency_lru demo_sweep_env [demo_chunk] (demo_heal 1 {}) =
     ((demo_heal 1 {demo_chunk})\<lparr>he_live_chunk_ids_cache := Some ({}, 5000)\<rparr>, [demo_chunk])"
  by (simp add: run_disk_orphan_sweep_over_def cached_live_chunk_ids_def demo_sweep_env_def demo_heal_def live_chunk_ids_from_chunk_map_def
      demo_chunks_def new_MetadataStore_def empty_db_def live_chunk_ids_def live_locations_def list_all_chunk_locations_def
      scan_page_def get_patch_states_present_batch_def reconcile_live_file_candidates_def get_chunk_mtime_def demo_store_fields hm_get_def
      looks_like_patch_token_def demo_chunk_def PATCH_TOKEN_MARKER_def Let_def)


theorem rotation_covers_witness:
  "concat (rotation recency_lru 1 0 0 [(demo_sweep_env, 0)] (new_sweep_loop 0)
     ((demo_heal 1 {})\<lparr>he_storage := demo_store\<lparr>st_index := Some [(demo_chunk, ())]\<rparr>\<rparr>)) = [demo_chunk]"
proof -
  let ?h = "(demo_heal 1 {})\<lparr>he_storage := demo_store\<lparr>st_index := Some [(demo_chunk, ())]\<rparr>\<rparr>"
  have "disk_orphan_sweep_cluster_gate_clear demo_sweep_env ?h"
    by (simp add: disk_orphan_sweep_cluster_gate_clear_def demo_heal_def demo_nodes new_NodeInfo_def demo_sweep_env_def
        time_since_became_leader_def SELF_RESTART_GRACE_SECS_def LEADER_CHANGE_GRACE_SECS_def) (simp add: demo_members_def)
  with rotation_covers [of ?h "[(demo_chunk, ())]" 1 "new_sweep_loop 0" "[(demo_sweep_env, 0)]" recency_lru 0 0] show ?thesis
    by (simp add: bt_wf_def new_sweep_loop_def)
qed

end
