(* ===== verification/Healing_Claims.thy ===== *)
theory Healing_Claims
  imports Healing Orphan_Sweep_Claims Metadata_Laws
begin

text \<open>
  What a heal may write into the routing table, that a fold's cancellation wins over a heal in flight,
  that trimming never goes below the replication factor, and where the bookkeeping of the queue and
  the guard against superseded generations fail to do what their comments say.
\<close>

section \<open>Healing one chunk\<close>

lemma push_targets_Inr:
  "push_targets e h c l base src ts = Inr rs \<Longrightarrow>
     length rs \<le> length ts \<and> (distinct ts \<longrightarrow> distinct rs) \<and>
     (\<forall>t \<in> set rs. t \<in> set ts \<and> (\<exists>i. get_node (he_cluster h) t = Some i \<and> hv_target_has e (ni_addr i)))"
proof (induction ts arbitrary: rs)
  case (Cons t ts)
  show ?case
  proof (cases "get_node (he_cluster h) t")
    case None
    with Cons.prems have "push_targets e h c l base src ts = Inr rs" by simp
    from Cons.IH [OF this] show ?thesis by auto
  next
    case (Some i)
    show ?thesis
    proof (cases "hv_push e (snd src) (ni_addr i)")
      case PushOk
      with Some Cons.prems obtain rs' where r: "push_targets e h c l base src ts = Inr rs'"
        "rs = (if hv_target_has e (ni_addr i) then t # rs' else rs')" by (auto split: sum.splits)
      from Cons.IH [OF r(1)] Some r(2) show ?thesis by auto
    next
      case PushNotFound
      with Some Cons.prems show ?thesis by (simp add: Let_def)
    next
      case PushFails
      with Some Cons.prems have "push_targets e h c l base src ts = Inr rs" by simp
      from Cons.IH [OF this] show ?thesis by auto
    qed
  qed
qed simp

lemma push_targets_Inl:
  "push_targets e h c l base src ts = Inl out \<Longrightarrow>
     out = put_outcome c (l\<lparr>cl_nodes := filter (\<lambda>n. n \<noteq> fst src) base\<rparr>) False \<or> out = delete_outcome c"
proof (induction ts)
  case (Cons t ts)
  then show ?case by (auto simp: Let_def split: option.splits push_answer.splits sum.splits if_splits)
qed simp

lemma resolve_nodes_fst: "fst ` set (resolve_nodes h ns) \<subseteq> set ns" "length (resolve_nodes h ns) \<le> length ns"
  "distinct ns \<Longrightarrow> distinct (map fst (resolve_nodes h ns))"
proof -
  have e: "map fst (resolve_nodes h ns) = filter (\<lambda>n. get_node (he_cluster h) n \<noteq> None) ns"
    by (induction ns) (auto simp: resolve_nodes_def map_filter_simps split: option.splits)
  have "set (map fst (resolve_nodes h ns)) \<subseteq> set ns" unfolding e by auto
  then show "fst ` set (resolve_nodes h ns) \<subseteq> set ns" by simp
  have "length (map fst (resolve_nodes h ns)) \<le> length ns" unfolding e by simp
  then show "length (resolve_nodes h ns) \<le> length ns" by simp
  show "distinct ns \<Longrightarrow> distinct (map fst (resolve_nodes h ns))" unfolding e by simp
qed

lemma heal_alive_facts:
  assumes "heal_alive c confirmed h = (alive, added)"
  shows "\<forall>n \<in> fst ` set alive. n \<in> set confirmed \<or> n = cm_local_node_id (he_cluster h) \<and> has_chunk (he_storage h) c"
    and "length alive \<le> length confirmed + 1" and "distinct confirmed \<Longrightarrow> distinct (map fst alive)"
proof -
  note R = resolve_nodes_fst(1) [of h confirmed] resolve_nodes_fst(2) [of h confirmed] resolve_nodes_fst(3) [of confirmed h]
  from assms consider (same) "alive = resolve_nodes h confirmed"
    | (local) a where "alive = resolve_nodes h confirmed @ [(cm_local_node_id (he_cluster h), a)]"
        "cm_local_node_id (he_cluster h) \<notin> fst ` set (resolve_nodes h confirmed)" "has_chunk (he_storage h) c"
    unfolding heal_alive_def Let_def
    by (cases "get_node (he_cluster h) (cm_local_node_id (he_cluster h))") (fastforce split: if_splits)+
  then show "\<forall>n \<in> fst ` set alive. n \<in> set confirmed \<or> n = cm_local_node_id (he_cluster h) \<and> has_chunk (he_storage h) c"
    and "length alive \<le> length confirmed + 1" and "distinct confirmed \<Longrightarrow> distinct (map fst alive)"
    using R by (cases; auto)+
qed

definition confirmed_holder :: "heal_env \<Rightarrow> ('c, 'w) Healer \<Rightarrow> ChunkId \<Rightarrow> NodeId list \<Rightarrow> NodeId \<Rightarrow> bool" where
  "confirmed_holder e h c confirmed n \<longleftrightarrow>
     n \<in> set confirmed \<or> n = cm_local_node_id (he_cluster h) \<and> has_chunk (he_storage h) c \<or>
     (\<exists>i. get_node (he_cluster h) n = Some i \<and> hv_target_has e (ni_addr i))"

lemma heal_transfer_put:
  assumes t: "heal_transfer key e c l alive h = Ret (h', Healed (Some out))" and p: "ho_location_put out = Some l'"
    and d: "distinct (map fst alive)" and len: "length alive \<le> he_rf h"
    and place: "distinct (placement_nodes (he_cluster h) (he_rf h + (he_rf h - length alive)))"
    and holders: "\<forall>n \<in> fst ` set alive. confirmed_holder e h c confirmed n"
  shows "distinct (cl_nodes l') \<and> length (cl_nodes l') \<le> he_rf h \<and> (\<forall>n \<in> set (cl_nodes l'). confirmed_holder e h c confirmed n) \<and>
    (\<exists>ns w. l' = l\<lparr>cl_nodes := ns, cl_written_at := w\<rparr> \<or> l' = l\<lparr>cl_chunk_id := c, cl_nodes := ns, cl_written_at := w\<rparr>)"
proof -
  let ?needed = "he_rf h - length alive"
  let ?cnt = "he_rf h + ?needed"
  obtain cands where cands: "get_nodes_with_capacity_awareness key (hv_now e) (he_cluster h) c ?cnt = Ret cands"
    using t by (cases "get_nodes_with_capacity_awareness key (hv_now e) (he_cluster h) c ?cnt") (simp_all add: heal_transfer_def Let_def)
  have "placement_nodes (he_cluster h) ?cnt \<noteq> []"
    using cands by (auto simp: get_nodes_with_capacity_awareness_def Let_def)
  from placement_choice [OF place this, of key "hv_now e" c] cands have dc: "distinct cands" by auto
  define targets where "targets = take ?needed (filter (\<lambda>n. n \<notin> set (map fst alive)) cands)"
  have td: "distinct targets" "set targets \<inter> set (map fst alive) = {}" "length targets \<le> ?needed"
    using dc set_take_subset [of ?needed "filter (\<lambda>n. n \<notin> set (map fst alive)) cands"] by (auto simp: targets_def)
  let ?src = "heal_source e alive h"
  have body: "(if targets = [] then Ret (h, Healed None)
     else case push_targets e h c l (map fst alive) ?src targets of
       Inl out \<Rightarrow> Ret (h, Healed (Some out))
     | Inr replicated \<Rightarrow>
         if replicated = [] then Ret (push_failed e c h, HealErr)
         else if is_healing_cancelled (hv_inst e) h c \<or> \<not> hv_source_has e (snd ?src) then Ret (h, Healed (Some (clear_only c)))
         else Ret (h\<lparr>he_push_failure := hm_remove c (he_push_failure h)\<rparr>,
                   Healed (Some (put_outcome c (l\<lparr>cl_chunk_id := c, cl_nodes := map fst alive @ replicated,
                                                cl_written_at := Some (hv_now_ms e)\<rparr>) True)))) = Ret (h', Healed (Some out))"
    using t unfolding heal_transfer_def Let_def targets_def by (simp only: cands outcome.case)
  show ?thesis
  proof (cases "push_targets e h c l (map fst alive) ?src targets")
    case (Inl o1)
    with body have "out = o1" by (auto split: if_splits)
    with push_targets_Inl [OF Inl] p have l': "l' = l\<lparr>cl_nodes := filter (\<lambda>n. n \<noteq> fst ?src) (map fst alive)\<rparr>"
      by (auto simp: put_outcome_def delete_outcome_def)
    then have "l' = l\<lparr>cl_nodes := filter (\<lambda>n. n \<noteq> fst ?src) (map fst alive), cl_written_at := cl_written_at l\<rparr>" by simp
    then have "\<exists>ns w. l' = l\<lparr>cl_nodes := ns, cl_written_at := w\<rparr> \<or> l' = l\<lparr>cl_chunk_id := c, cl_nodes := ns, cl_written_at := w\<rparr>" by blast
    moreover have "length (filter (\<lambda>n. n \<noteq> fst ?src) (map fst alive)) \<le> he_rf h"
      by (rule order_trans [OF length_filter_le]) (use len in simp)
    ultimately show ?thesis using l' d holders by (auto simp: distinct_filter)
  next
    case (Inr rs)
    with body p have l': "l' = l\<lparr>cl_chunk_id := c, cl_nodes := map fst alive @ rs, cl_written_at := Some (hv_now_ms e)\<rparr>"
      by (auto simp: put_outcome_def clear_only_def split: if_splits)
    note f = push_targets_Inr [OF Inr]
    have "distinct (map fst alive @ rs)" using d f td by auto
    moreover have "length (map fst alive @ rs) \<le> he_rf h" using conjunct1 [OF f] td(3) len by simp
    moreover have "\<forall>n \<in> set (map fst alive @ rs). confirmed_holder e h c confirmed n"
      using f holders by (auto simp: confirmed_holder_def)
    ultimately show ?thesis unfolding l' by auto
  qed
qed

text \<open>C33. A heal records only confirmed holders: when it rewrites the location of a chunk that had
  fewer than \<open>RF\<close> confirmed holders, every node of the new list was confirmed to hold the chunk (by the
  scan, by this node's own disk, or by the target after the push), no node twice and at most \<open>RF\<close> of
  them, the rest of the record except its time is kept, and the chunk is no patch token.\<close>

theorem heal_records_confirmed_holders:
  fixes key :: "64 word \<Rightarrow> nat \<Rightarrow> 'k::linorder"
  assumes heal: "do_heal_chunk_inner key e c confirmed h = Ret (h', Healed (Some out))" and put: "ho_location_put out = Some l'"
    and "server_reach blake3 v" and "he_cluster h = sv_cluster v" and "distinct confirmed" and "length confirmed < he_rf h"
  shows "\<not> looks_like_patch_token c \<and> distinct (cl_nodes l') \<and> length (cl_nodes l') \<le> he_rf h \<and>
    (\<forall>n \<in> set (cl_nodes l'). confirmed_holder e h c confirmed n) \<and>
    (\<exists>l ns w. get_chunk_location c (he_metadata h) = Some (Some l) \<and>
       (l' = l\<lparr>cl_nodes := ns, cl_written_at := w\<rparr> \<or> l' = l\<lparr>cl_chunk_id := c, cl_nodes := ns, cl_written_at := w\<rparr>))"
proof -
  have tok: "\<not> looks_like_patch_token c" using heal put by (auto simp: do_heal_chunk_inner_def clear_only_def)
  have nop: "\<not> (\<exists>st. get_patch_state c (he_metadata h) = Some (Some st))"
    using heal put tok by (auto simp: do_heal_chunk_inner_def clear_only_def split: if_splits)
  obtain l where l: "get_chunk_location c (he_metadata h) = Some (Some l)"
    using heal tok nop by (auto simp: do_heal_chunk_inner_def split: option.splits if_splits)
  obtain i where i: "cl_file_id l = Some i"
    using heal put tok nop l by (cases "cl_file_id l") (auto simp: do_heal_chunk_inner_def clear_only_def)
  obtain alive added where a: "heal_alive c confirmed h = (alive, added)" by (cases "heal_alive c confirmed h")
  note A = heal_alive_facts [OF a]
  have d: "distinct (map fst alive)" using A(3) assms(5) .
  have holders: "\<forall>n \<in> fst ` set alive. confirmed_holder e h c confirmed n" using A(1) by (auto simp: confirmed_holder_def)
  have len: "length alive \<le> he_rf h" using A(2) assms(6) by simp
  have place: "distinct (placement_nodes (he_cluster h) n)" for n
    using placement_nodes_facts(2) [OF server_reach_good [OF assms(3)]] assms(4) by simp
  from heal put tok nop l i a consider
      (reconcile) "l' = l\<lparr>cl_chunk_id := c, cl_nodes := map fst alive, cl_written_at := Some (hv_now_ms e)\<rparr>"
    | (transfer) "heal_transfer key e c l alive h = Ret (h', Healed (Some out))"
    by (auto simp: do_heal_chunk_inner_def clear_only_def delete_outcome_def put_outcome_def split: if_splits)
  then show ?thesis
  proof cases
    case reconcile
    with d len holders tok l show ?thesis by auto
  next
    case transfer
    from heal_transfer_put [OF this put d len place holders] tok l show ?thesis by blast
  qed
qed

section \<open>Cancellation\<close>

lemma map_of_fold_put:
  "map_of (fold (\<lambda>l. bt_insert (k l) (v l)) ls m) c =
     (case find (\<lambda>l. k l = c) (rev ls) of Some l \<Rightarrow> Some (v l) | None \<Rightarrow> map_of m c)"
proof (induction ls rule: rev_induct)
  case (snoc l ls)
  then show ?case by (simp add: map_of_bt_insert)
qed simp

lemma flush_add_cancelled:
  assumes "is_healing_cancelled inst h c" and "\<forall>l. ho_location_put out = Some l \<longrightarrow> cl_chunk_id l = ho_chunk_id out"
    and "\<forall>l \<in> set (fl_puts f) \<union> set (fl_broadcasts f). cl_chunk_id l \<noteq> c"
  shows "\<forall>l \<in> set (fl_puts (flush_add inst h out f)) \<union> set (fl_broadcasts (flush_add inst h out f)). cl_chunk_id l \<noteq> c"
  using assms by (auto simp: flush_add_def Let_def split: option.splits if_splits)

lemma flush_of_cancelled:
  assumes "is_healing_cancelled inst h c" and "\<forall>out \<in> set outs. \<forall>l. ho_location_put out = Some l \<longrightarrow> cl_chunk_id l = ho_chunk_id out"
  shows "\<forall>l \<in> set (fl_puts (flush_of inst h outs)) \<union> set (fl_broadcasts (flush_of inst h outs)). cl_chunk_id l \<noteq> c"
  using assms(2)
proof (induction outs rule: rev_induct)
  case (snoc out outs)
  from snoc have "\<forall>l \<in> set (fl_puts (flush_of inst h outs)) \<union> set (fl_broadcasts (flush_of inst h outs)). cl_chunk_id l \<noteq> c" by simp
  from flush_add_cancelled [OF assms(1) _ this, of out] snoc.prems show ?case by (simp add: flush_of_def)
qed (simp add: flush_of_def)

lemma flush_deletes: "set (fl_deletes (flush_of inst h outs)) \<subseteq> {c. \<exists>out \<in> set outs. ho_location_delete out = Some c}"
proof (induction outs rule: rev_induct)
  case (snoc out outs)
  have "set (fl_deletes (flush_of inst h (outs @ [out]))) \<subseteq> set (fl_deletes (flush_of inst h outs)) \<union> {c. ho_location_delete out = Some c}"
    by (auto simp: flush_of_def flush_add_def Let_def split: option.splits if_splits)
  with snoc show ?case by auto
qed (simp add: flush_of_def)

text \<open>C34. A fold's cancellation wins: while the cancellation of a chunk is younger than its time to live,
  no commit of finished heals, whatever they found, writes or broadcasts a location of that chunk; its
  record stays as it was, or is dropped if a heal found the chunk to be gone.\<close>

theorem cancelled_heal_discarded:
  assumes "hm_get (he_cancelled h) c = Some t" and "hv_inst e - t < CANCEL_TOMBSTONE_TTL"
    and "\<forall>out \<in> set outs. \<forall>l. ho_location_put out = Some l \<longrightarrow> cl_chunk_id l = ho_chunk_id out"
    and "flush_heal_outcomes e outs h = (h', sent)"
  shows "(\<forall>l \<in> set sent. cl_chunk_id l \<noteq> c) \<and>
    (map_of (db_chunks (ms_db (he_metadata h'))) c = map_of (db_chunks (ms_db (he_metadata h))) c \<or>
     map_of (db_chunks (ms_db (he_metadata h'))) c = None \<and> (\<exists>out \<in> set outs. ho_location_delete out = Some c))"
proof (cases "outs = []")
  case False
  have "is_healing_cancelled (hv_inst e) h c" using assms(1,2) by (simp add: is_healing_cancelled_def)
  from flush_of_cancelled [OF this assms(3)] have f: "\<forall>l \<in> set (fl_puts (flush_of (hv_inst e) h outs)). cl_chunk_id l \<noteq> c"
    "\<forall>l \<in> set (fl_broadcasts (flush_of (hv_inst e) h outs)). cl_chunk_id l \<noteq> c" by auto
  have "\<forall>l \<in> set sent. cl_chunk_id l \<noteq> c"
    using assms(4) False f(2) by (auto simp: flush_heal_outcomes_def Let_def split_beta split: if_splits)
  moreover have "find (\<lambda>l. cl_chunk_id l = c) (rev (fl_puts (flush_of (hv_inst e) h outs))) = None"
    using f(1) by (simp add: find_None_iff)
  then have u: "map_of (db_chunks (update_chunks (fl_puts (flush_of (hv_inst e) h outs)) (fl_deletes (flush_of (hv_inst e) h outs)) cs db)) c =
      (if c \<in> set (fl_deletes (flush_of (hv_inst e) h outs)) then None else map_of (db_chunks db) c)" for cs db
    by (simp add: update_chunks_def map_of_fold_bt_remove map_of_fold_put)
  have "he_metadata h' = he_metadata h \<or>
      he_metadata h' = fst (run_txn (hv_io e) (update_chunks (fl_puts (flush_of (hv_inst e) h outs))
        (fl_deletes (flush_of (hv_inst e) h outs)) (fl_clears (flush_of (hv_inst e) h outs))) (he_metadata h))"
    using assms(4) False by (auto simp: flush_heal_outcomes_def Let_def split_beta batch_update_chunk_locations_def)
  then have "map_of (db_chunks (ms_db (he_metadata h'))) c = map_of (db_chunks (ms_db (he_metadata h))) c \<or>
      map_of (db_chunks (ms_db (he_metadata h'))) c = None \<and> c \<in> set (fl_deletes (flush_of (hv_inst e) h outs))"
    by (elim disjE) (simp_all add: run_txn_def ms_db_commit u)
  ultimately show ?thesis using flush_deletes [of "hv_inst e" h outs] by blast
qed (use assms(4) in \<open>simp add: flush_heal_outcomes_def\<close>)

section \<open>Trimming\<close>

lemma trim_choice_facts:
  assumes "ns \<noteq> []" and "distinct ns"
  shows "trim_choice e ns h \<in> set ns" and "2 < length ns \<Longrightarrow> trim_choice e ns h \<notin> set (take 2 (sort ns))"
proof -
  let ?pair = "take 2 (sort ns)"
  let ?non = "filter (\<lambda>n. n \<notin> set ?pair) ns"
  let ?pool = "if ?non \<noteq> [] then ?non else ns"
  have ne: "?pool \<noteq> []" using assms(1) by simp
  have "trim_choice e ns h \<in> set ?pool"
  proof (cases "most_utilized_node (hv_now e) (he_cluster h) ?pool")
    case None
    with ne show ?thesis unfolding trim_choice_def Let_def by (simp only: option.case) (rule last_in_set)
  next
    case (Some n)
    then have "n \<in> set ?pool" unfolding most_utilized_node_def using min_by_key_Some by fast
    with Some show ?thesis unfolding trim_choice_def Let_def by (simp only: option.case)
  qed
  then show "trim_choice e ns h \<in> set ns" by (auto split: if_splits)
  assume l: "2 < length ns"
  have "\<not> set ns \<subseteq> set ?pair"
  proof
    assume "set ns \<subseteq> set ?pair"
    then have "card (set ns) \<le> card (set ?pair)" by (simp add: card_mono)
    also have "\<dots> \<le> 2" using card_length [of ?pair] by simp
    finally show False using l assms(2) by (simp add: distinct_card)
  qed
  then have "?non \<noteq> []" by (auto simp: filter_empty_conv)
  with \<open>trim_choice e ns h \<in> set ?pool\<close> show "trim_choice e ns h \<notin> set ?pair" by simp
qed


definition trim_of :: "heal_env \<Rightarrow> NodeId list \<Rightarrow> ('c, 'w) Healer \<Rightarrow> NodeId" where
  "trim_of e confirmed h = trim_choice e (map fst (resolve_nodes h confirmed)) h"

lemma length_filter_neq: "distinct xs \<Longrightarrow> x \<in> set xs \<Longrightarrow> length (filter (\<lambda>n. n \<noteq> x) xs) = length xs - 1"
  using distinct_remove1_removeAll [of xs x] length_remove1 [of x xs]
  by (simp add: removeAll_filter_not_eq) (metis (mono_tags, lifting) filter_cong)

lemma trim_choice_in_flight [simp]: "trim_choice e ns (h\<lparr>he_in_flight := s\<rparr>) = trim_choice e ns h"
  by (simp add: trim_choice_def)

lemma resolve_nodes_in_flight [simp]: "resolve_nodes (h\<lparr>he_in_flight := s\<rparr>) ns = resolve_nodes h ns"
  by (simp add: resolve_nodes_def)

lemma trim_shared:
  assumes "do_cleanup_excess_shared Lc e c confirmed h = (h', ok, Some l')" and "hv_io e = Committed"
  shows "\<exists>l. get_chunk_location c (he_metadata h) = Some (Some l) \<and> cl_nodes l' = filter (\<lambda>n. n \<noteq> trim_of e confirmed h) (cl_nodes l) \<and>
    get_chunk_location c (he_metadata h') = Some (Some l') \<and> he_alive_cache h' = he_alive_cache h \<and> he_pending h' = he_pending h \<and>
    he_cluster h' = he_cluster h \<and> he_rf h' = he_rf h \<and> he_rf h < length (resolve_nodes h confirmed)"
proof -
  let ?h = "h\<lparr>he_in_flight := insert c (he_in_flight h)\<rparr>"
  obtain h1 where i: "do_cleanup_excess_inner Lc e c confirmed ?h = (h1, ok, Some l')" and h': "h' = h1\<lparr>he_in_flight := he_in_flight h1 - {c}\<rparr>"
    using assms(1) by (auto simp: do_cleanup_excess_shared_def split: if_splits prod.splits)
  from i obtain l where l: "get_chunk_location c (he_metadata h) = Some (Some l)"
    by (auto simp: do_cleanup_excess_inner_def split: if_splits option.splits)
  with i have many: "he_rf h < length (resolve_nodes h confirmed)"
    and l': "l' = l\<lparr>cl_chunk_id := c, cl_nodes := filter (\<lambda>n. n \<noteq> trim_of e confirmed h) (cl_nodes l), cl_written_at := Some (hv_now_ms e)\<rparr>"
    and m: "he_metadata h1 = fst (put_chunk_location (hv_io e) l' (he_metadata h))"
    and rest: "he_alive_cache h1 = he_alive_cache h" "he_pending h1 = he_pending h" "he_cluster h1 = he_cluster h" "he_rf h1 = he_rf h"
    by (auto simp: do_cleanup_excess_inner_def Let_def split_beta trim_of_def split: if_splits option.splits)
  have "get_chunk_location c (he_metadata h1) = Some (Some l')"
    using assms(2) by (simp add: m l' put_chunk_location_def run_txn_def ms_db_commit get_chunk_location_def update_chunks_def map_of_bt_insert read_row_def)
  then show ?thesis using l l' many rest h' by auto
qed

text \<open>C36. A trim is repeated on the list of holders it has used up: it neither takes the chunk off the queue
  nor changes the cached list of holders. When the capacities the nodes report make another node the
  fullest before the next cycle, that cycle trims this node too, although exactly \<open>RF\<close> holders were left,
  and the record falls below the replication factor.\<close>

theorem repeated_trim_below_rf:
  assumes "do_cleanup_excess_shared Lc e c confirmed h = (h1, ok, Some l1)" and "hv_io e = Committed"
    and "hm_get (he_alive_cache h) c = Some confirmed" and "length confirmed = he_rf h + 1" and "distinct confirmed"
    and "get_chunk_location c (he_metadata h) = Some (Some l)" and "set (cl_nodes l) = set confirmed" and "distinct (cl_nodes l)"
    and "do_cleanup_excess_shared Lc e' c confirmed (h1\<lparr>he_cluster := s\<rparr>) = (h2, ok', Some l2)" and "hv_io e' = Committed"
    and "trim_of e' confirmed (h1\<lparr>he_cluster := s\<rparr>) \<noteq> trim_of e confirmed h" and "destructive_ok e' (h1\<lparr>he_cluster := s\<rparr>)"
  shows "he_pending h1 = he_pending h \<and> hm_get (he_alive_cache h1) c = Some confirmed \<and> length (cl_nodes l1) = he_rf h \<and>
    heal_status (destructive_ok e' (h1\<lparr>he_cluster := s\<rparr>)) (he_rf h1) confirmed = Some OverReplicated \<and>
    get_chunk_location c (he_metadata h2) = Some (Some l2) \<and> length (cl_nodes l2) < he_rf h"
proof -
  note T1 = trim_shared [OF assms(1,2)]
  note T2 = trim_shared [OF assms(9,10)]
  let ?t1 = "trim_of e confirmed h" and ?t2 = "trim_of e' confirmed (h1\<lparr>he_cluster := s\<rparr>)"
  have n1: "cl_nodes l1 = filter (\<lambda>n. n \<noteq> ?t1) (cl_nodes l)" using T1 assms(6) by auto
  have n2: "cl_nodes l2 = filter (\<lambda>n. n \<noteq> ?t2) (cl_nodes l1)" using T1 T2 by auto
  have in_confirmed: "trim_of e confirmed h \<in> set confirmed" if "he_rf h < length (resolve_nodes h confirmed)" for e and h :: "('a, 'b) Healer"
    using trim_choice_facts(1) [of "map fst (resolve_nodes h confirmed)" e h] resolve_nodes_fst(1) [of h confirmed]
      resolve_nodes_fst(3) [OF assms(5), of h] that unfolding trim_of_def by fastforce
  have t: "?t1 \<in> set (cl_nodes l)" "?t2 \<in> set (cl_nodes l)" using in_confirmed T1 T2 assms(7) by auto
  have len: "length (cl_nodes l) = he_rf h + 1"
    using distinct_card [OF assms(8)] distinct_card [OF assms(5)] assms(4,7) by simp
  have l1: "length (cl_nodes l1) = he_rf h" using length_filter_neq [OF assms(8) t(1)] len n1 by simp
  have "distinct (cl_nodes l1)" "?t2 \<in> set (cl_nodes l1)" using t(2) assms(8,11) n1 by auto
  from length_filter_neq [OF this] have "length (cl_nodes l2) < he_rf h" using l1 n2 \<open>?t2 \<in> set (cl_nodes l1)\<close> by (cases "cl_nodes l1") auto
  then show ?thesis using T1 T2 l1 assms(3,4,12) by (auto simp: heal_status_def)
qed

section \<open>The order of the work\<close>

lemma take_sort_key_least:
  assumes "y \<in> set xs" and "y \<notin> set (take n (sort_key f xs))"
  shows "length (take n (sort_key f xs)) = n \<and> (\<forall>x \<in> set (take n (sort_key f xs)). f x \<le> f y)"
proof -
  let ?s = "sort_key f xs"
  have y: "y \<in> set (drop n ?s)" using assms by (metis UnE append_take_drop_id set_append set_sort)
  have "sorted (map f (take n ?s @ drop n ?s))" by (simp only: append_take_drop_id sorted_sort_key)
  then have "\<forall>x \<in> set (map f (take n ?s)). \<forall>z \<in> set (map f (drop n ?s)). x \<le> z"
    unfolding map_append sorted_append by blast
  then have "\<forall>x \<in> set (take n ?s). f x \<le> f y" using y by simp
  moreover have "n \<le> length ?s" using y by (cases "n \<le> length ?s") auto
  ultimately show ?thesis by simp
qed

definition heal_age :: "heal_env \<Rightarrow> ('c, 'w) Healer \<Rightarrow> ChunkId \<Rightarrow> nat" where
  "heal_age e h c = effective_heal_priority_age (map_option (\<lambda>t. hv_inst e - t) (hm_get (he_requeue h) c))
     (map_option (\<lambda>t. hv_inst e - t) (hm_get (he_pending h) c))"


text \<open>The guard against healing superseded generations never fires: once the record of a file has been
  written, whatever chunk locations it came with, no chunk counts as a superseded generation of that
  file, so the heals the guard was added to stop go ahead.\<close>

theorem superseded_guard_dead:
  assumes "put_file Committed m s = (s', Some r)" and "r \<noteq> Deleted" and "he_metadata h = s'"
  shows "file_exists_by_id (fm_id m) (he_metadata h) \<and> \<not> superseded_generation e c (fm_id m) h"
proof -
  have "\<not> file_tombstoned (fm_id m) (ms_db s)"
    using assms(1,2) by (auto simp: put_file_def put_file_in_txn_def split: prod.splits if_splits)
  then have "\<exists>x. map_of (db_files (ms_db s')) (fm_id m) = Some (Good x) \<and> fm_chunk_locations x = []"
    using assms(1) by (auto simp: put_file_def put_file_in_txn_def ms_db_commit mark_dirty_def map_of_bt_insert Let_def split: prod.splits)
  then show ?thesis using assms(3) by (auto simp: superseded_generation_def get_file_def file_exists_by_id_def)
qed

section \<open>Examples\<close>

definition demo_location :: "NodeId list \<Rightarrow> ChunkLocation" where
  "demo_location ns = \<lparr>cl_chunk_id = demo_chunk, cl_nodes = ns, cl_size = 3, cl_checksum = [], cl_file_offset = Some 0,
     cl_written_at = Some 500, cl_client_write_seq = None, cl_file_id = Some (FileId 7)\<rparr>"

definition demo_healer :: "ClusterManager \<Rightarrow> NodeId list \<Rightarrow> nat \<Rightarrow>
    (nat \<times> (ChunkId \<times> byte list) list, nat \<times> (ChunkId \<times> unit) list) Healer" where
  "demo_healer cluster ns rf =
     \<lparr>he_storage = demo_store,
      he_metadata = new_MetadataStore True (empty_db\<lparr>db_files := [(FileId 7, Good (sample_file 1 []))], db_chunks := [(demo_chunk, Good (demo_location ns))]\<rparr>),
      he_chunks = demo_chunks, he_cluster = cluster, he_orphan_candidates = {}, he_orphan_auth_cache = None,
      he_live_chunk_ids_cache = None, he_local_started_at = 0,
      he_pending = [(demo_chunk, 100)], he_stalled = {}, he_in_flight = {}, he_cancelled = [], he_push_failure = [],
      he_urgent = {}, he_requeue = [], he_alive_cache = [], he_superseded = {}, he_delay_secs = 300, he_rf = rf, he_max_per_cycle = 0,
      he_hard_superseded = []\<rparr>"

definition demo_heal_env :: heal_env where
  "demo_heal_env = \<lparr>hv_now = 1000, hv_now_ms = 1000000, hv_inst = 5000, hv_io = Committed, hv_free = (\<lambda>_. True),
     hv_push = (\<lambda>_ _. PushOk), hv_target_has = (\<lambda>_. True), hv_source_has = (\<lambda>_. True), hv_trim = (\<lambda>_. True), hv_remove_fails = False\<rparr>"

lemma demo_healer_location [simp]:
  "get_chunk_location demo_chunk (he_metadata (demo_healer cl ns rf)) = Some (Some (demo_location ns))"
  by (simp add: demo_healer_def new_MetadataStore_def get_chunk_location_def read_row_def)

lemma demo_not_token: "\<not> looks_like_patch_token demo_chunk"
  by (simp add: looks_like_patch_token_def demo_chunk_def PATCH_TOKEN_MARKER_def)

lemma demo_pair_ring: "set (hr_nodes (cm_hash_ring (sv_cluster demo_pair))) = {NodeId 2, NodeId 3}"
  by (simp add: demo_pair_def demo_server_def handle_cluster_message_def handle_node_joined_def new_cluster_def
      get_node_def demo_info_def new_NodeInfo_def hm_get_def hm_insert_def hr.set_add new_ring_def insert_commute)

lemma demo_placement:
  "\<exists>cands. get_nodes_with_capacity_awareness key now (sv_cluster demo_pair) c 3 = Ret cands \<and>
     filter (\<lambda>n. n \<noteq> NodeId 2) cands = [NodeId 3]"
proof -
  let ?s = "sv_cluster demo_pair"
  note G = server_reach_good [OF demo_pair_reach]
  have d: "distinct (hr_nodes (cm_hash_ring ?s))" using G by (simp add: inv_defs ring_inv_def)
  have l2: "length (hr_nodes (cm_hash_ring ?s)) = 2" using distinct_card [OF d] by (simp add: demo_pair_ring)
  then have "length (filter (placeable ?s) (hr_nodes (cm_hash_ring ?s))) < 3"
    using length_filter_le [of "placeable ?s" "hr_nodes (cm_hash_ring ?s)"] by linarith
  note P = placement_nodes_facts(4) [OF G this] placement_nodes_facts(2) [OF G, of 3]
  from P(1) have ne: "placement_nodes ?s 3 \<noteq> []" using l2 by auto
  from placement_choice [OF P(2) ne, of key now c] P(1) l2 obtain cands where
    c: "get_nodes_with_capacity_awareness key now ?s c 3 = Ret cands" "distinct cands" "length cands = 2" "set cands \<subseteq> {NodeId 2, NodeId 3}"
    by (auto simp: demo_pair_ring)
  then obtain x y where "cands = [x, y]" by (auto simp: length_Suc_conv eval_nat_numeral)
  with c show ?thesis by auto
qed

theorem heal_records_confirmed_holders_witness:
  "\<exists>h' out l'. do_heal_chunk_inner bit_key demo_heal_env demo_chunk [NodeId 2] (demo_healer (sv_cluster demo_pair) [NodeId 2, NodeId 4] 2)
     = Ret (h', Healed (Some out)) \<and> ho_location_put out = Some l' \<and> cl_nodes l' = [NodeId 2, NodeId 3] \<and>
     (\<forall>n \<in> set (cl_nodes l'). confirmed_holder demo_heal_env (demo_healer (sv_cluster demo_pair) [NodeId 2, NodeId 4] 2) demo_chunk [NodeId 2] n)"
proof -
  let ?h = "demo_healer (sv_cluster demo_pair) [NodeId 2, NodeId 4] 2"
  let ?l = "(demo_location [NodeId 2, NodeId 3])\<lparr>cl_written_at := Some 1000000\<rparr>"
  obtain cands where c: "get_nodes_with_capacity_awareness bit_key 1000 (sv_cluster demo_pair) demo_chunk 3 = Ret cands"
    "filter (\<lambda>n. n \<noteq> NodeId 2) cands = [NodeId 3]" using demo_placement by blast
  have a: "heal_alive demo_chunk [NodeId 2] ?h = ([(NodeId 2, (2, 2))], False)"
    by (simp add: heal_alive_def resolve_nodes_def map_filter_simps demo_healer_def get_node_def demo_pair_simps hm_get_def new_NodeInfo_def)
  have t: "heal_transfer bit_key demo_heal_env demo_chunk (demo_location [NodeId 2, NodeId 4]) [(NodeId 2, (2, 2))] ?h
      = Ret (?h, Healed (Some (put_outcome demo_chunk ?l True)))"
    using c(1) [unfolded numeral_3_eq_3] c(2) by (simp add: heal_transfer_def Let_def heal_source_def is_healing_cancelled_def demo_healer_def demo_heal_env_def get_node_def
      demo_pair_simps hm_get_def hm_remove_def demo_info_def new_NodeInfo_def demo_location_def)
  have p: "get_patch_state demo_chunk (he_metadata ?h) \<noteq> Some (Some st)" for st
    by (simp add: demo_healer_def new_MetadataStore_def empty_db_def get_patch_state_def read_row_def)
  have s: "\<not> superseded_generation demo_heal_env demo_chunk (FileId 7) ?h" "file_exists_by_id (FileId 7) (he_metadata ?h)"
    by (simp_all add: superseded_generation_def get_file_def demo_healer_def new_MetadataStore_def sample_file_def file_exists_by_id_def)
  have r: "do_heal_chunk_inner bit_key demo_heal_env demo_chunk [NodeId 2] ?h = Ret (?h, Healed (Some (put_outcome demo_chunk ?l True)))"
    using t s p by (simp add: do_heal_chunk_inner_def demo_not_token a demo_location_def) (simp add: demo_healer_def)
  have "ho_location_put (put_outcome demo_chunk ?l True) = Some ?l" by (simp add: put_outcome_def)
  from heal_records_confirmed_holders [OF r this demo_pair_reach] this r show ?thesis
    by (auto simp: demo_healer_def demo_location_def)
qed

theorem cancelled_heal_discarded_witness:
  "\<exists>h' sent. flush_heal_outcomes demo_heal_env [put_outcome demo_chunk (demo_location [NodeId 1, NodeId 2]) True]
       (cancel_healing (demo_heal_env\<lparr>hv_inst := 4900\<rparr>) demo_chunk (demo_healer (demo_members 1) [NodeId 1] 2)) = (h', sent) \<and>
     (\<forall>l \<in> set sent. cl_chunk_id l \<noteq> demo_chunk)"
proof -
  let ?h = "cancel_healing (demo_heal_env\<lparr>hv_inst := 4900\<rparr>) demo_chunk (demo_healer (demo_members 1) [NodeId 1] 2)"
  obtain h' sent where f: "flush_heal_outcomes demo_heal_env [put_outcome demo_chunk (demo_location [NodeId 1, NodeId 2]) True] ?h = (h', sent)"
    by (cases "flush_heal_outcomes demo_heal_env [put_outcome demo_chunk (demo_location [NodeId 1, NodeId 2]) True] ?h")
  have "hm_get (he_cancelled ?h) demo_chunk = Some 4900"
    by (simp add: cancel_healing_def clear_pending_static_def Let_def demo_healer_def hm_get_def hm_insert_def)
  from cancelled_heal_discarded [OF this _ _ f] f show ?thesis
    by (simp add: demo_heal_env_def CANCEL_TOMBSTONE_TTL_def put_outcome_def demo_location_def)
qed


definition demo_caps :: "nat \<Rightarrow> nat \<Rightarrow> ClusterManager" where
  "demo_caps a b = (demo_members 5)\<lparr>cm_node_capacities := [(NodeId 1, \<lparr>nc_available = a, nc_total = 100, nc_last_updated = 1000\<rparr>),
     (NodeId 2, \<lparr>nc_available = b, nc_total = 100, nc_last_updated = 1000\<rparr>)]\<rparr>"

definition demo_excess :: "(nat \<times> (ChunkId \<times> byte list) list, nat \<times> (ChunkId \<times> unit) list) Healer" where
  "demo_excess = (demo_healer (demo_caps 10 20) [NodeId 1, NodeId 2] 1)\<lparr>he_alive_cache := [(demo_chunk, [NodeId 1, NodeId 2])]\<rparr>"

lemma demo_caps_resolve: "he_cluster h = demo_caps a b \<Longrightarrow> resolve_nodes h [NodeId 1, NodeId 2] = [(NodeId 1, (1, 1)), (NodeId 2, (2, 2))]"
  by (simp add: demo_caps_def resolve_nodes_def map_filter_simps get_node_def demo_members_def hm_get_def new_NodeInfo_def)

lemma demo_caps_trim: "he_cluster h = demo_caps a b \<Longrightarrow> a \<noteq> b \<Longrightarrow>
    trim_of demo_heal_env [NodeId 1, NodeId 2] h = (if a < b then NodeId 1 else NodeId 2)"
  by (simp add: trim_of_def demo_caps_resolve trim_choice_def most_utilized_node_def demo_caps_def hm_get_def demo_heal_env_def
      less_eq_NodeId_def u64_sub_def)

lemma demo_caps_trimmed:
  assumes "he_cluster h = demo_caps a b" "a \<noteq> b" "he_rf h = 1" "he_in_flight h = {}" "get_chunk_location demo_chunk (he_metadata h) = Some (Some l)"
  shows "\<exists>h' l'. do_cleanup_excess_shared recency_lru demo_heal_env demo_chunk [NodeId 1, NodeId 2] h = (h', True, Some l')"
proof -
  have e: "hv_trim demo_heal_env a" "hv_io demo_heal_env = Committed" for a by (simp_all add: demo_heal_env_def)
  have "cm_local_node_id (he_cluster h) = NodeId 5" using assms(1) by (simp add: demo_caps_def demo_members_def)
  moreover have "trim_choice demo_heal_env [NodeId 1, NodeId 2] h = (if a < b then NodeId 1 else NodeId 2)"
    using demo_caps_trim [OF assms(1,2)] demo_caps_resolve [OF assms(1)] by (simp add: trim_of_def)
  ultimately show ?thesis
    using e demo_caps_resolve [OF assms(1)] assms(3-5)
    by (simp add: do_cleanup_excess_shared_def do_cleanup_excess_inner_def demo_not_token Let_def put_chunk_location_def run_txn_def split_beta)
qed

theorem repeated_trim_below_rf_witness:
  "\<exists>h1 ok l1 h2 ok' l2. do_cleanup_excess_shared recency_lru demo_heal_env demo_chunk [NodeId 1, NodeId 2] demo_excess = (h1, ok, Some l1) \<and>
     do_cleanup_excess_shared recency_lru demo_heal_env demo_chunk [NodeId 1, NodeId 2] (h1\<lparr>he_cluster := demo_caps 30 20\<rparr>) = (h2, ok', Some l2) \<and>
     length (cl_nodes l2) < 1"
proof -
  have x: "he_cluster demo_excess = demo_caps 10 20" "he_rf demo_excess = 1" "he_in_flight demo_excess = {}"
    "get_chunk_location demo_chunk (he_metadata demo_excess) = Some (Some (demo_location [NodeId 1, NodeId 2]))"
    "hm_get (he_alive_cache demo_excess) demo_chunk = Some [NodeId 1, NodeId 2]"
    by (simp_all add: demo_excess_def hm_get_def) (simp_all add: demo_healer_def)
  have io: "hv_io demo_heal_env = Committed" by (simp add: demo_heal_env_def)
  obtain h1 ok l1 where a: "do_cleanup_excess_shared recency_lru demo_heal_env demo_chunk [NodeId 1, NodeId 2] demo_excess = (h1, ok, Some l1)"
    using demo_caps_trimmed [OF x(1) _ x(2-4)] by auto
  let ?h = "h1\<lparr>he_cluster := demo_caps 30 20\<rparr>"
  have "he_in_flight h1 = {}" using a x(3) by (auto simp: do_cleanup_excess_shared_def do_cleanup_excess_inner_def Let_def split_beta split: if_splits option.splits)
  with trim_shared [OF a io] x have y: "he_rf ?h = 1" "he_in_flight ?h = {}" "get_chunk_location demo_chunk (he_metadata ?h) = Some (Some l1)" by auto
  obtain h2 ok' l2 where b: "do_cleanup_excess_shared recency_lru demo_heal_env demo_chunk [NodeId 1, NodeId 2] ?h = (h2, ok', Some l2)"
    using demo_caps_trimmed [of ?h 30 20 l1] y by auto
  have t: "trim_of demo_heal_env [NodeId 1, NodeId 2] ?h \<noteq> trim_of demo_heal_env [NodeId 1, NodeId 2] demo_excess"
    using demo_caps_trim [of ?h 30 20] demo_caps_trim [OF x(1)] by simp
  have d: "destructive_ok demo_heal_env ?h"
    by (simp add: destructive_ok_def get_all_nodes_def demo_caps_def demo_members_def hm_values_def hm_get_def new_NodeInfo_def time_since_became_leader_def)
  from repeated_trim_below_rf [OF a io x(5) _ _ x(4) _ _ b io t d] a b x(2) show ?thesis by (auto simp: demo_location_def)
qed


theorem superseded_guard_dead_witness:
  "\<exists>s' r. put_file Committed (sample_file 5 [demo_location []]) (new_MetadataStore True empty_db) = (s', Some r) \<and>
     \<not> superseded_generation demo_heal_env (ChunkId [1]) (FileId 7) ((demo_healer (demo_members 1) [] 2)\<lparr>he_metadata := s'\<rparr>)"
proof -
  let ?m = "sample_file 5 [demo_location []]"
  obtain s' r where p: "put_file Committed ?m (new_MetadataStore True empty_db) = (s', Some r)" "r \<noteq> Deleted"
    by (auto simp: put_file_def put_file_in_txn_def Let_def new_MetadataStore_def empty_db_def file_tombstoned_def split_beta)
  from superseded_guard_dead [OF p, of "(demo_healer (demo_members 1) [] 2)\<lparr>he_metadata := s'\<rparr>"] p(1) show ?thesis
    by (simp add: sample_file_def new_FileMetadata_def)
qed

end
