(* ===== verification/Discovery_Claims.thy ===== *)
theory Discovery_Claims
  imports Discovery Healing_Claims
begin

text \<open>
  What a discovery pass does to the routing table: it purges a chunk only with proof that no node holds
  it, it keeps every node that has confirmed to hold a chunk, and where it drops one that has not been
  heard.
\<close>

section \<open>What the pass adds for one chunk\<close>

lemma add_extra_nodes_none: "add_extra_nodes v l a = (l, a)"
  by (auto simp: add_extra_nodes_def Let_def confirmed_alive_nodes_def asked_def filter_empty_conv)

definition chunk_puts :: "disco_env \<Rightarrow> disco_view \<Rightarrow> ChunkLocation \<Rightarrow> ('c, 'w) Healer \<Rightarrow> ChunkLocation list" where
  "chunk_puts e v l h =
     (if cl_chunk_id l \<in> dv_tokens v \<union> dv_losers v then []
      else da_puts (snd (prune_ghosts e v l (h, prune_removed v l empty_acc))))"

definition chunk_purged :: "disco_env \<Rightarrow> disco_view \<Rightarrow> ('c, 'w) Healer \<Rightarrow> ChunkLocation \<Rightarrow> bool" where
  "chunk_purged e v h l \<longleftrightarrow> cl_chunk_id l \<notin> dv_tokens v \<union> dv_losers v \<and> purged e v l h"

text \<open>The part of the state the classification of the chunks outside of \<open>S\<close> reads.\<close>

definition same_for :: "ChunkId set \<Rightarrow> ('c, 'w) Healer \<Rightarrow> ('c, 'w) Healer \<Rightarrow> bool" where
  "same_for S h h' \<longleftrightarrow> (\<forall>c. c \<notin> S \<longrightarrow> hm_get (he_pending h') c = hm_get (he_pending h) c) \<and>
     he_delay_secs h' = he_delay_secs h \<and> he_chunks h' = he_chunks h \<and>
     db_files (ms_db (he_metadata h')) = db_files (ms_db (he_metadata h)) \<and>
     db_chunks (ms_db (he_metadata h')) = db_chunks (ms_db (he_metadata h))"

lemma same_for_refl: "same_for S h h"
  by (simp add: same_for_def)

lemma same_for_trans: "same_for S h h1 \<Longrightarrow> same_for T h1 h2 \<Longrightarrow> same_for (S \<union> T) h h2"
  by (simp add: same_for_def)

lemma healing_rows_frame:
  "db_files (ms_db (fst (put_pending_healing io c n s))) = db_files (ms_db s)"
  "db_chunks (ms_db (fst (put_pending_healing io c n s))) = db_chunks (ms_db s)"
  "db_files (ms_db (fst (delete_pending_healing io c s))) = db_files (ms_db s)"
  "db_chunks (ms_db (fst (delete_pending_healing io c s))) = db_chunks (ms_db s)"
  "db_files (ms_db (fst (put_pending_healing_batch io es s))) = db_files (ms_db s)"
  "db_chunks (ms_db (fst (put_pending_healing_batch io es s))) = db_chunks (ms_db s)"
  by (simp_all add: put_pending_healing_def delete_pending_healing_def put_pending_healing_batch_def put_pending_healing_batch_in_txn_def
      run_txn_def ms_db_commit update_chunks_def)

lemma hm_get_ops:
  "hm_get (hm_insert k x m) k' = (if k' = k then Some x else hm_get m k')"
  "hm_get (hm_remove k m) k' = (if k' = k then None else hm_get m k')"
  by (simp_all add: hm_get_def hm_insert_def hm_remove_def AList.update_conv' AList.delete_conv')

lemma same_for_mark: "same_for {c} h (mark_pending e c h)" "same_for {c} h (fst (mark_pending_deferred e c d h))"
  by (auto simp: same_for_def mark_pending_def mark_pending_deferred_def healing_rows_frame hm_get_ops split: option.split)

lemma same_for_clear: "same_for {c} h (clear_pending e c h)"
  by (auto simp: same_for_def clear_pending_def clear_pending_static_def Let_def healing_rows_frame hm_get_ops)

lemma same_for_upd [simp]:
  "same_for S h (h'\<lparr>he_stalled := x\<rparr>) = same_for S h h'" "same_for S h (h'\<lparr>he_requeue := y\<rparr>) = same_for S h h'"
  "same_for S h (h'\<lparr>he_push_failure := z\<rparr>) = same_for S h h'"
  by (simp_all add: same_for_def)

lemma same_for_mark_deferred:
  assumes "same_for {c} h h1" and "mark_deferred e c (h1, a1) = (h2, a2)"
  shows "same_for {c} h h2 \<and> da_puts a2 = da_puts a1 \<and> da_deletes a2 = da_deletes a1 \<and> da_updates a2 = da_updates a1"
  using assms same_for_trans [OF assms(1) same_for_mark(2) [where c = c and h = h1 and e = "heal_env.truncate e" and d = "da_marks a1"]]
  by (auto simp: mark_deferred_def split: prod.splits)

lemma same_for_should_heal:
  assumes "same_for {c} h h1" and "should_heal e c marks h1 = ((h2, marks2), b)"
  shows "same_for {c} h h2"
  using assms same_for_trans [OF assms(1) same_for_mark(2) [where c = c and h = h1 and e = e and d = marks]]
  by (auto simp: should_heal_def split: option.splits)

lemma classify_under_frame:
  assumes "same_for {c} h h1" and "classify_under e c n alive (h1, a1) = (h2, a2)"
  shows "same_for {c} h h2 \<and> da_puts a2 = da_puts a1 \<and> da_deletes a2 = da_deletes a1 \<and> da_updates a2 = da_updates a1"
proof (cases "alive = [] \<or> heal_push_failure_backoff_active (hv_inst e) (h1\<lparr>he_stalled := he_stalled h1 - {c}\<rparr>) c")
  case True
  let ?h1 = "h1\<lparr>he_stalled := insert c (he_stalled h1), he_requeue := hm_insert c (hv_inst e) (he_requeue h1)\<rparr>"
    and ?h2 = "h1\<lparr>he_stalled := he_stalled h1 - {c}\<rparr>"
  have s: "same_for {c} h ?h1" "same_for {c} h ?h2" using assms(1) by simp_all
  have "mark_deferred e c (?h1, a1) = (h2, a2) \<or> mark_deferred e c (?h2, a1) = (h2, a2)"
    using True assms(2) by (cases "alive = []") (simp_all add: classify_under_def Let_def)
  then show ?thesis using same_for_mark_deferred [OF s(1)] same_for_mark_deferred [OF s(2)] by blast
next
  case False
  let ?h = "h1\<lparr>he_stalled := he_stalled h1 - {c}\<rparr>"
  obtain h3 marks b where s: "should_heal (heal_env.truncate e) c (da_marks a1) ?h = ((h3, marks), b)"
    by (cases "should_heal (heal_env.truncate e) c (da_marks a1) ?h") auto
  have h3: "same_for {c} h h3" using same_for_should_heal [OF _ s] assms(1) by simp
  have eq: "(if b then (h3, add_work c UnderReplicated alive (a1\<lparr>da_marks := marks\<rparr>))
      else if n < he_rf h3 then mark_deferred e c (h3, a1\<lparr>da_marks := marks\<rparr>) else (h3, a1\<lparr>da_marks := marks\<rparr>)) = (h2, a2)"
    using assms(2) False s by (cases b) (simp_all add: classify_under_def Let_def)
  show ?thesis
  proof (cases "\<not> b \<and> n < he_rf h3")
    case True
    with eq have "mark_deferred e c (h3, a1\<lparr>da_marks := marks\<rparr>) = (h2, a2)" by simp
    from same_for_mark_deferred [OF h3 this] show ?thesis by simp
  next
    case False
    with eq h3 show ?thesis by (auto simp: add_work_def split: if_splits)
  qed
qed

lemma classify_status_frame:
  assumes "same_for {cl_chunk_id l} h h1" and "classify_status e v l (h1, a1) = (h2, a2)"
  shows "same_for {cl_chunk_id l} h h2 \<and> da_puts a2 = da_puts a1 \<and> da_deletes a2 = da_deletes a1 \<and> da_updates a2 = da_updates a1"
proof -
  let ?c = "cl_chunk_id l" and ?alive = "confirmed_alive_nodes v l"
  have eq: "(if length ?alive < he_rf h1 then classify_under e ?c (length (cl_nodes l)) ?alive (h1, a1)
     else if length ?alive > he_rf h1 then
       if dv_destructive v then (case mark_deferred e ?c (h1, a1) of (h1, a2) \<Rightarrow> (h1, add_work ?c OverReplicated ?alive a2)) else (h1, a1)
     else if nodes_without_chunk v l = []
       then (h1\<lparr>he_push_failure := hm_remove ?c (he_push_failure h1)\<rparr>, a1\<lparr>da_healthy := da_healthy a1 @ [?c], da_clears := da_clears a1 @ [?c]\<rparr>)
       else (h1, a1)) = (h2, a2)"
    using assms(2) by (simp add: classify_status_def add_extra_nodes_none Let_def)
  obtain h3 a3 where m: "mark_deferred e ?c (h1, a1) = (h3, a3)" by (cases "mark_deferred e ?c (h1, a1)")
  note M = same_for_mark_deferred [OF assms(1) m]
  show ?thesis
  proof (cases "length ?alive < he_rf h1")
    case True
    with eq have "classify_under e ?c (length (cl_nodes l)) ?alive (h1, a1) = (h2, a2)" by simp
    from classify_under_frame [OF assms(1) this] show ?thesis .
  next
    case few: False
    show ?thesis
    proof (cases "length ?alive > he_rf h1 \<and> dv_destructive v")
      case True
      with eq few m have "h3 = h2" "add_work ?c OverReplicated ?alive a3 = a2" by simp_all
      from M this(2) [symmetric] show ?thesis unfolding \<open>h3 = h2\<close> by (simp add: add_work_def)
    next
      case False
      with eq few have "h1 = h2 \<and> a1 = a2 \<or> h1\<lparr>he_push_failure := hm_remove ?c (he_push_failure h1)\<rparr> = h2 \<and>
          a1\<lparr>da_healthy := da_healthy a1 @ [?c], da_clears := da_clears a1 @ [?c]\<rparr> = a2"
        by (simp split: if_splits)
      then show ?thesis
      proof
        assume "h1\<lparr>he_push_failure := hm_remove ?c (he_push_failure h1)\<rparr> = h2 \<and>
          a1\<lparr>da_healthy := da_healthy a1 @ [?c], da_clears := da_clears a1 @ [?c]\<rparr> = a2"
        then have r: "h2 = h1\<lparr>he_push_failure := hm_remove ?c (he_push_failure h1)\<rparr>"
          "a2 = a1\<lparr>da_healthy := da_healthy a1 @ [?c], da_clears := da_clears a1 @ [?c]\<rparr>" by simp_all
        show ?thesis unfolding r using assms(1) by simp
      qed (use assms(1) in simp)
    qed
  qed
qed

lemma prune_ghosts_frame:
  assumes "prune_ghosts e v l (h, prune_removed v l a) = (h1, a1)"
  shows "same_for {cl_chunk_id l} h h1 \<and> da_deletes a1 = da_deletes a \<and>
    da_puts a1 = da_puts a @ da_puts (snd (prune_ghosts e v l (h, prune_removed v l empty_acc))) \<and>
    (confirmed_alive_nodes v l = [] \<longrightarrow> h1 = h)"
  using assms same_for_mark(1) [of "cl_chunk_id l" h "heal_env.truncate e"]
  by (auto simp: prune_ghosts_def prune_removed_def put_update_def empty_acc_def Let_def same_for_refl split: if_splits)

text \<open>What the classification of a chunk adds, and what it leaves alone.\<close>

lemma classify_chunk_adds:
  assumes "classify_chunk e v l (h, a) = (h', a')"
  shows "same_for {cl_chunk_id l} h h' \<and> da_puts a' = da_puts a @ chunk_puts e v l h \<and>
    da_deletes a' = da_deletes a @ (if chunk_purged e v h l then [cl_chunk_id l] else [])"
proof (cases "cl_chunk_id l \<in> dv_tokens v \<union> dv_losers v")
  case True
  then show ?thesis using assms same_for_clear [of "cl_chunk_id l" h "heal_env.truncate e"]
    by (auto simp: classify_chunk_def Let_def chunk_puts_def chunk_purged_def)
next
  case False
  obtain h1 a1 where p: "prune_ghosts e v l (h, prune_removed v l a) = (h1, a1)"
    by (cases "prune_ghosts e v l (h, prune_removed v l a)")
  note P = prune_ghosts_frame [OF p]
  have same: "purged e v l h1 = purged e v l h"
    using P by (auto simp: purged_def purge_due_def)
  show ?thesis
  proof (cases "purged e v l h")
    case True
    with False same assms p have r: "h' = clear_pending (heal_env.truncate e) (cl_chunk_id l) h1" "a' = a1\<lparr>da_deletes := da_deletes a1 @ [cl_chunk_id l]\<rparr>"
      by (auto simp: classify_chunk_def Let_def)
    have "same_for {cl_chunk_id l} h h'"
      using same_for_trans [OF conjunct1 [OF P] same_for_clear, of "cl_chunk_id l" "heal_env.truncate e"] by (simp add: r)
    then show ?thesis using P True False by (simp add: r chunk_puts_def chunk_purged_def)
  next
    case no: False
    with False same assms p have "classify_status e v l (h1, a1) = (h', a')" by (auto simp: classify_chunk_def Let_def)
    from classify_status_frame [OF conjunct1 [OF P] this] P no False show ?thesis by (simp add: chunk_puts_def chunk_purged_def)
  qed
qed

lemma same_for_pending_due: "same_for S h h' \<Longrightarrow> c \<notin> S \<Longrightarrow> pending_due e c h' = pending_due e c h"
  by (simp add: same_for_def pending_due_def split: option.split)

lemma same_for_zero:
  "same_for S h h' \<Longrightarrow> classify_zero_replica_chunk c l h' = classify_zero_replica_chunk c l h"
proof -
  assume "same_for S h h'"
  then have f: "he_chunks h' = he_chunks h" "get_file i (he_metadata h') = get_file i (he_metadata h)" for i
    by (simp_all add: same_for_def get_file_def)
  show ?thesis by (simp only: classify_zero_replica_chunk_def f)
qed

lemma same_for_chunk:
  assumes "same_for S h h'" and "cl_chunk_id l \<notin> S"
  shows "chunk_puts e v l h' = chunk_puts e v l h" "chunk_purged e v h' l = chunk_purged e v h l"
proof -
  have d: "he_delay_secs h' = he_delay_secs h" and g: "hm_get (he_pending h') (cl_chunk_id l) = hm_get (he_pending h) (cl_chunk_id l)"
    using assms by (simp_all add: same_for_def)
  have "pending_due e (cl_chunk_id l) (mark_pending (heal_env.truncate e) (cl_chunk_id l) h') =
      pending_due e (cl_chunk_id l) (mark_pending (heal_env.truncate e) (cl_chunk_id l) h)"
    using d g by (auto simp: pending_due_def mark_pending_def hm_get_ops split: option.split)
  then show "chunk_puts e v l h' = chunk_puts e v l h"
    by (simp add: chunk_puts_def prune_ghosts_def Let_def)
  show "chunk_purged e v h' l = chunk_purged e v h l"
    using same_for_pending_due [OF assms] same_for_zero [OF assms(1)] d by (simp add: chunk_purged_def purged_def purge_due_def)
qed

lemma classify_all:
  assumes "fold (classify_chunk e v) ls (h, a) = (h', a')" and "distinct (map cl_chunk_id ls)"
  shows "same_for (cl_chunk_id ` set ls) h h' \<and> da_puts a' = da_puts a @ concat (map (\<lambda>l. chunk_puts e v l h) ls) \<and>
    da_deletes a' = da_deletes a @ map cl_chunk_id (filter (chunk_purged e v h) ls)"
  using assms
proof (induction ls arbitrary: h a)
  case (Cons l ls)
  obtain h1 a1 where c: "classify_chunk e v l (h, a) = (h1, a1)" by (cases "classify_chunk e v l (h, a)")
  note C = classify_chunk_adds [OF c]
  have "fold (classify_chunk e v) ls (h1, a1) = (h', a')" "distinct (map cl_chunk_id ls)" using Cons.prems c by simp_all
  note IH = Cons.IH [OF this]
  have "\<forall>x \<in> set ls. chunk_puts e v x h1 = chunk_puts e v x h \<and> chunk_purged e v h1 x = chunk_purged e v h x"
  proof (intro ballI)
    fix x assume "x \<in> set ls"
    then have "cl_chunk_id x \<in> cl_chunk_id ` set ls" by simp
    then have "cl_chunk_id x \<notin> {cl_chunk_id l}" using Cons.prems(2) by auto
    from same_for_chunk [OF conjunct1 [OF C] this, of e v] show "chunk_puts e v x h1 = chunk_puts e v x h \<and> chunk_purged e v h1 x = chunk_purged e v h x"
      by simp
  qed
  then have "map (\<lambda>x. chunk_puts e v x h1) ls = map (\<lambda>x. chunk_puts e v x h) ls"
    "filter (chunk_purged e v h1) ls = filter (chunk_purged e v h) ls" by (simp_all cong: filter_cong)
  moreover have "same_for (cl_chunk_id ` set (l # ls)) h h'"
    using same_for_trans [OF conjunct1 [OF C] conjunct1 [OF IH]] by simp
  ultimately show ?case using conjunct2 [OF IH] conjunct2 [OF C] by (simp cong: map_cong)
qed (simp add: same_for_refl)

section \<open>The routing table after a pass\<close>

definition keyed :: "MetadataStore \<Rightarrow> bool" where
  "keyed s \<longleftrightarrow> bt_wf (db_chunks (ms_db s)) \<and> (\<forall>(k, x) \<in> set (db_chunks (ms_db s)). \<forall>l. x = Good l \<longrightarrow> cl_chunk_id l = k)"

definition pass_view :: "disco_env \<Rightarrow> ('c, 'w) Healer \<Rightarrow> disco_view" where
  "pass_view e h = disco_view_of e h (deep_scan (map fst (he_pending h)) h)"

lemma sr_check_deep: "sr_check (deep_scan p h) = live_locations (he_metadata h)"
  by (simp add: deep_scan_def Let_def)

lemma stored_good: "Metadata_Store.good (Some x) = (case x of Good y \<Rightarrow> Some y | Corrupt \<Rightarrow> None)"
  by (cases x) simp_all

lemma map_filter_good_ids:
  "\<forall>(k, x) \<in> set rows. \<forall>l. x = Good l \<longrightarrow> cl_chunk_id l = k \<Longrightarrow>
   map cl_chunk_id (List.map_filter (\<lambda>p. Metadata_Store.good (Some (snd p))) rows) =
   map fst (filter (\<lambda>p. Metadata_Store.good (Some (snd p)) \<noteq> None) rows)"
  by (induction rows) (auto simp: map_filter_simps stored_good split: stored.splits)

lemma live_locations_distinct: "keyed s \<Longrightarrow> distinct (map cl_chunk_id (live_locations s))"
  unfolding keyed_def live_locations_def list_all_chunk_locations_def
  by (rule distinct_map_filter) (simp add: map_filter_good_ids bt_wf_distinct distinct_map_filter)

lemma live_locations_row:
  assumes "keyed s" and "l \<in> set (live_locations s)"
  shows "map_of (db_chunks (ms_db s)) (cl_chunk_id l) = Some (Good l)"
proof -
  from assms(2) obtain k where "(k, Good l) \<in> set (db_chunks (ms_db s))"
    by (auto simp: live_locations_def list_all_chunk_locations_def set_map_filter stored_good split: stored.splits)
      (metis stored.exhaust)
  then show ?thesis using assms(1) by (auto simp: keyed_def bt_wf_distinct intro!: map_of_is_SomeI)
qed

lemma pass_view_upd: "disco_view_of e (h\<lparr>he_superseded := x, he_hard_superseded := y\<rparr>) r = disco_view_of e h r"
proof -
  let ?h = "h\<lparr>he_superseded := x, he_hard_superseded := y\<rparr>"
  have "known_ids e ?h = known_ids e h" "online_members e ?h = online_members e h" "token_view e ?h = token_view e h"
    "destructive_ok (heal_env.truncate e) ?h = destructive_ok (heal_env.truncate e) h"
    by (simp_all add: known_ids_def online_members_def token_view_def destructive_ok_def)
  moreover from this have "node_chunk_presence e ?h = node_chunk_presence e h" "rpc_failed e ?h = rpc_failed e h"
    by (simp_all add: fun_eq_iff node_chunk_presence_def rpc_failed_def)
  ultimately show ?thesis by (simp add: disco_view_of_def)
qed

lemma same_for_list_local: "same_for {} h (list_local e ls h)"
  by (simp add: list_local_def Let_def same_for_def split: outcome.split prod.split)

lemma disco_flush_rows:
  assumes "disco_flush e orphans (h, a) = (h', sent)"
  shows "map_of (db_chunks (ms_db (he_metadata h'))) c =
    (if hv_io e = Committed then
       if c \<in> set (da_deletes a) then None
       else case find (\<lambda>p. cl_chunk_id p = c) (rev (da_puts a)) of
         Some p \<Rightarrow> Some (Good p)
       | None \<Rightarrow> map_of (db_chunks (ms_db (he_metadata h))) c
     else map_of (db_chunks (ms_db (he_metadata h))) c)"
proof -
  have "db_chunks (ms_db (he_metadata h')) =
      db_chunks (ms_db (fst (batch_update_chunk_locations (hv_io e) (da_puts a) (da_deletes a) (da_clears a @ orphans) (he_metadata h))))"
    using assms by (auto simp: disco_flush_def Let_def healing_rows_frame clear_pending_batch_def split: if_splits)
  then show ?thesis
    by (simp add: batch_update_chunk_locations_def run_txn_def ms_db_commit update_chunks_def map_of_fold_bt_remove map_of_fold_put)
qed

definition pass_runs :: "disco_env \<Rightarrow> bool" where
  "pass_runs e \<longleftrightarrow> dc_scan_read e \<and> dc_leader e \<and> dc_leader_rpcs e \<and> hv_io e = Committed"

lemma deep_pass_rows:
  assumes "run_discovery_pass e True h = (h', sent)" and "keyed (he_metadata h)"
  shows "map_of (db_chunks (ms_db (he_metadata h'))) c =
    (if \<not> pass_runs e then map_of (db_chunks (ms_db (he_metadata h))) c
     else if c \<in> cl_chunk_id ` {l \<in> set (live_locations (he_metadata h)). chunk_purged e (pass_view e h) h l} then None
     else case find (\<lambda>p. cl_chunk_id p = c) (rev (concat (map (\<lambda>l. chunk_puts e (pass_view e h) l h) (live_locations (he_metadata h))))) of
       Some p \<Rightarrow> Some (Good p)
     | None \<Rightarrow> map_of (db_chunks (ms_db (he_metadata h))) c)"
proof (cases "dc_scan_read e \<and> dc_leader e \<and> dc_leader_rpcs e")
  case False
  then show ?thesis using assms(1)
    by (auto simp: run_discovery_pass_def disco_scan_def pass_runs_def Let_def same_for_list_local [unfolded same_for_def] split: if_splits)
next
  case True
  let ?r = "deep_scan (map fst (he_pending h)) h"
  define h2 where "h2 = h\<lparr>he_superseded := set (sr_losers ?r), he_hard_superseded := fold (\<lambda>s. hm_insert (hs_loser s) s) (sr_hard ?r) []\<rparr>"
  define h3 where "h3 = list_local e (live_locations (he_metadata h)) h2"
  obtain h4 a where f: "fold (classify_chunk e (pass_view e h)) (live_locations (he_metadata h)) (h3, empty_acc) = (h4, a)"
    by (cases "fold (classify_chunk e (pass_view e h)) (live_locations (he_metadata h)) (h3, empty_acc)")
  have v: "disco_view_of e h2 ?r = pass_view e h" by (simp add: h2_def pass_view_def pass_view_upd)
  have "same_for {} h h2" by (simp add: h2_def same_for_def)
  from same_for_trans [OF this same_for_list_local [of h2 e "live_locations (he_metadata h)"]] have s3: "same_for {} h h3" by (simp add: h3_def)
  note C = classify_all [OF f live_locations_distinct [OF assms(2)]]
  have "chunk_puts e (pass_view e h) l h3 = chunk_puts e (pass_view e h) l h" "chunk_purged e (pass_view e h) h3 l = chunk_purged e (pass_view e h) h l" for l
    by (rule same_for_chunk [OF s3], simp)+
  then have acc: "da_puts a = concat (map (\<lambda>l. chunk_puts e (pass_view e h) l h) (live_locations (he_metadata h)))"
    "set (da_deletes a) = cl_chunk_id ` {l \<in> set (live_locations (he_metadata h)). chunk_purged e (pass_view e h) h l}"
    using C by (auto simp: empty_acc_def)
  have rows: "db_chunks (ms_db (he_metadata h4)) = db_chunks (ms_db (he_metadata h))"
    using C s3 by (simp add: same_for_def)
  obtain orphans where "disco_flush e orphans (h4, a) = (h', sent)"
    using assms(1) True unfolding run_discovery_pass_def disco_scan_def Let_def
    by (simp add: sr_check_deep h2_def [symmetric] h3_def [symmetric] v f)
  from disco_flush_rows [OF this, of c, unfolded rows acc] True show ?thesis by (simp add: pass_runs_def)
qed

lemma find_rev: "find P (rev xs) = (if filter P xs = [] then None else Some (last (filter P xs)))"
  by (induction xs rule: rev_induct) auto

lemma filter_concat_unique:
  assumes "distinct (map k ls)" and "l \<in> set ls" and "\<And>x p. p \<in> set (f x) \<Longrightarrow> k' p = k x"
  shows "filter (\<lambda>p. k' p = k l) (concat (map f ls)) = f l"
proof -
  have none: "filter (\<lambda>p. k' p = k l) (concat (map f xs)) = []" if "k l \<notin> k ` set xs" for xs
    using that assms(3) by (auto simp: filter_empty_conv) (metis imageI)
  have self: "filter (\<lambda>p. k' p = k l) (f l) = f l" using assms(3) by (simp add: filter_id_conv)
  obtain xs ys where s: "ls = xs @ l # ys" using assms(2) by (auto simp: in_set_conv_decomp)
  with assms(1) have "k l \<notin> k ` set xs" "k l \<notin> k ` set ys" by auto
  then show ?thesis by (simp add: s none self)
qed

lemma chunk_puts_facts:
  assumes "p \<in> set (chunk_puts e v l h)"
  shows "cl_chunk_id p = cl_chunk_id l" "set (confirmed_alive_nodes v l) \<subseteq> set (cl_nodes p)" "set (cl_nodes p) \<subseteq> set (cl_nodes l)"
    "\<exists>ns w. p = l\<lparr>cl_nodes := ns, cl_written_at := w\<rparr>"
proof -
  have "set (chunk_puts e v l h) \<subseteq> {l\<lparr>cl_nodes := filter (\<lambda>n. n \<notin> set (removed_node_ids v l)) (cl_nodes l)\<rparr>,
      l\<lparr>cl_nodes := filter (\<lambda>n. n \<notin> set (nodes_without_chunk v l)) (cl_nodes l), cl_written_at := Some (hv_now_ms e)\<rparr>}"
    by (simp add: chunk_puts_def prune_ghosts_def prune_removed_def put_update_def empty_acc_def Let_def)
  with assms consider "p = l\<lparr>cl_nodes := filter (\<lambda>n. n \<notin> set (removed_node_ids v l)) (cl_nodes l)\<rparr>"
    | "p = l\<lparr>cl_nodes := filter (\<lambda>n. n \<notin> set (nodes_without_chunk v l)) (cl_nodes l), cl_written_at := Some (hv_now_ms e)\<rparr>"
    by blast
  note c = this
  have "p = l\<lparr>cl_nodes := cl_nodes p, cl_written_at := cl_written_at p\<rparr>" using c by cases simp_all
  then show "\<exists>ns w. p = l\<lparr>cl_nodes := ns, cl_written_at := w\<rparr>" by blast
  from c show "cl_chunk_id p = cl_chunk_id l" by cases simp_all
  from c show "set (confirmed_alive_nodes v l) \<subseteq> set (cl_nodes p)"
    by cases (auto simp: confirmed_alive_nodes_def nodes_without_chunk_def removed_node_ids_def asked_def)
  from c show "set (cl_nodes p) \<subseteq> set (cl_nodes l)" by cases auto
qed

text \<open>The row of one chunk after the pass.\<close>

lemma deep_pass_row:
  assumes "run_discovery_pass e True h = (h', sent)" and "keyed (he_metadata h)"
    and "map_of (db_chunks (ms_db (he_metadata h))) c = Some (Good l)"
  shows "map_of (db_chunks (ms_db (he_metadata h'))) c =
    (if \<not> pass_runs e \<or> l \<notin> set (live_locations (he_metadata h)) then Some (Good l)
     else if chunk_purged e (pass_view e h) h l then None
     else Some (Good (last (l # chunk_puts e (pass_view e h) l h))))"
proof -
  let ?ls = "live_locations (he_metadata h)" and ?f = "\<lambda>l. chunk_puts e (pass_view e h) l h"
  have id: "cl_chunk_id l = c" using assms(2,3) by (auto simp: keyed_def dest!: map_of_SomeD)
  have uniq: "x = l" if "x \<in> set ?ls" "cl_chunk_id x = c" for x
    using live_locations_row [OF assms(2) that(1)] assms(3) that(2) by simp
  note rows = deep_pass_rows [OF assms(1,2), of c, unfolded find_rev]
  show ?thesis
  proof (cases "l \<in> set ?ls")
    case True
    from filter_concat_unique [where k = cl_chunk_id and k' = cl_chunk_id and f = ?f, OF live_locations_distinct [OF assms(2)] True chunk_puts_facts(1)]
    have "filter (\<lambda>p. cl_chunk_id p = c) (concat (map ?f ?ls)) = ?f l" by (simp add: id)
    moreover have "c \<in> cl_chunk_id ` {l \<in> set ?ls. chunk_purged e (pass_view e h) h l} \<longleftrightarrow> chunk_purged e (pass_view e h) h l"
    proof
      assume "c \<in> cl_chunk_id ` {l \<in> set ?ls. chunk_purged e (pass_view e h) h l}"
      then obtain x where "x \<in> set ?ls" "chunk_purged e (pass_view e h) h x" "cl_chunk_id x = c" by blast
      with uniq [of x] show "chunk_purged e (pass_view e h) h l" by blast
    qed (use True id in blast)
    ultimately show ?thesis using rows True assms(3) by simp
  next
    case False
    then have no: "cl_chunk_id x \<noteq> c" if "x \<in> set ?ls" for x using uniq [of x] that by blast
    then have "filter (\<lambda>p. cl_chunk_id p = c) (concat (map ?f ?ls)) = []"
      using chunk_puts_facts(1) [of _ e "pass_view e h" _ h] by (simp add: filter_empty_conv)
    moreover have "c \<notin> cl_chunk_id ` {l \<in> set ?ls. chunk_purged e (pass_view e h) h l}" using no by blast
    ultimately show ?thesis using rows False assms(3) by simp
  qed
qed

section \<open>Purging\<close>

lemma token_fold_complete:
  assumes "fold (\<lambda>n (tokens, complete). case f n of Some ts \<Rightarrow> (tokens \<union> ts, complete) | None \<Rightarrow> (tokens, False)) ns (t0, b) = (t, True)"
  shows "b \<and> t0 \<subseteq> t \<and> (\<forall>n \<in> set ns. \<exists>ts. f n = Some ts \<and> ts \<subseteq> t)"
  using assms
proof (induction ns arbitrary: t0 b)
  case (Cons n ns)
  then show ?case
  proof (cases "f n")
    case (Some ts)
    with Cons.prems have "fold (\<lambda>n (tokens, complete). case f n of Some ts \<Rightarrow> (tokens \<union> ts, complete) | None \<Rightarrow> (tokens, False)) ns (t0 \<union> ts, b) = (t, True)"
      by simp
    from Cons.IH [OF this] Some show ?thesis by auto
  qed (use Cons.prems Cons.IH [of t0 False] in auto)
qed simp

lemma token_view_complete:
  assumes "token_view e h = (t, True)"
  shows "dc_tokens_read e \<and> all_patch_token_ids (he_metadata h) \<subseteq> t \<and>
    (\<forall>n \<in> set (get_all_nodes (hv_now e) (he_cluster h)). ni_status n = Online) \<and>
    (\<forall>n \<in> set (get_all_nodes (hv_now e) (he_cluster h)). ni_id n \<noteq> cm_local_node_id (he_cluster h) \<longrightarrow>
       (\<exists>ts. dc_tokens e (ni_addr n) = Some ts \<and> ts \<subseteq> t))"
proof -
  let ?all = "get_all_nodes (hv_now e) (he_cluster h)"
  obtain t0 b where own: "(t0, b) = (if dc_tokens_read e then (all_patch_token_ids (he_metadata h), length (online_members e h) \<ge> length ?all) else ({}, False))"
    by (metis surj_pair)
  have "fold (\<lambda>n (tokens, complete). case dc_tokens e (ni_addr n) of Some ts \<Rightarrow> (tokens \<union> ts, complete) | None \<Rightarrow> (tokens, False))
      (filter (\<lambda>n. ni_id n \<noteq> cm_local_node_id (he_cluster h)) (online_members e h)) (t0, b) = (t, True)"
    using assms unfolding token_view_def Let_def own .
  note F = token_fold_complete [OF this]
  have r: "dc_tokens_read e" "all_patch_token_ids (he_metadata h) \<subseteq> t" "length (online_members e h) \<ge> length ?all"
    using own F by (auto split: if_splits)
  have "\<forall>n \<in> set ?all. ni_status n = Online"
    using r(3) length_filter_le [of "\<lambda>n. ni_status n = Online" ?all] length_filter_less [of _ ?all "\<lambda>n. ni_status n = Online"]
    by (fastforce simp: online_members_def)
  with r F show ?thesis by (auto simp: online_members_def)
qed

lemma presence_asked:
  assumes "node_chunk_presence e h ls n = Some s" and "cm_local_node_id (he_cluster h) \<in> ni_id ` set (online_members e h)"
  shows "n \<in> known_ids e h" "n \<in> ni_id ` set (online_members e h)" "\<not> rpc_failed e h ls n"
proof -
  show "n \<in> known_ids e h" using assms(1) by (auto simp: node_chunk_presence_def split: if_splits)
  show "n \<in> ni_id ` set (online_members e h)"
    using assms by (auto simp: node_chunk_presence_def find_Some_iff split: if_splits option.splits dest: nth_mem)
  show "\<not> rpc_failed e h ls n"
    using assms(1) by (auto simp: node_chunk_presence_def rpc_failed_def split: if_splits option.splits)
qed

lemma pass_view_simps:
  "dv_destructive (pass_view e h) = destructive_ok (heal_env.truncate e) h" "dv_known (pass_view e h) = known_ids e h"
  "dv_online (pass_view e h) = ni_id ` set (online_members e h)"
  "dv_presence (pass_view e h) = node_chunk_presence e h (live_locations (he_metadata h))"
  "dv_failed (pass_view e h) = rpc_failed e h (live_locations (he_metadata h))"
  "token_view e h = (dv_tokens (pass_view e h), dv_complete (pass_view e h))"
  by (simp_all add: pass_view_def disco_view_of_def sr_check_deep split_beta)

lemma confirmed_iff:
  assumes "cm_local_node_id (he_cluster h) \<in> ni_id ` set (online_members e h)"
    and "node_chunk_presence e h (live_locations (he_metadata h)) n = Some s"
  shows "n \<in> set (confirmed_alive_nodes (pass_view e h) l) \<longleftrightarrow> n \<in> set (cl_nodes l) \<and> cl_chunk_id l \<in> s"
  using presence_asked [OF assms(2,1)] assms(2)
  by (auto simp: confirmed_alive_nodes_def asked_def holds_def pass_view_simps)



section \<open>Pruning a node that was not heard\<close>

text \<open>C40. A node that answers with an error counts as a node without the chunk: when a listed online node
  answers \<open>HasChunks\<close> with anything but a list of booleans, while another one confirms the chunk and the
  delay has passed, the pass takes that node out of the record, although nothing says it lost the chunk.\<close>

theorem unusable_answer_prunes_holder:
  assumes "run_discovery_pass e True h = (h', sent)" and "keyed (he_metadata h)" and "pass_runs e"
    and "map_of (db_chunks (ms_db (he_metadata h))) c = Some (Good l)" and "l \<in> set (live_locations (he_metadata h))"
    and "c \<notin> dv_tokens (pass_view e h) \<union> dv_losers (pass_view e h)"
    and "n \<in> set (cl_nodes l)" and "n \<in> known_ids e h" and "n \<noteq> cm_local_node_id (he_cluster h)"
    and "find (\<lambda>i. ni_id i = n) (online_members e h) = Some i"
    and "dc_has e (ni_addr i) (node_assigned (live_locations (he_metadata h)) n) = HasUnexpected"
    and "m \<in> set (cl_nodes l)" and "node_chunk_presence e h (live_locations (he_metadata h)) m = Some s" and "c \<in> s"
    and "cm_local_node_id (he_cluster h) \<in> ni_id ` set (online_members e h)" and "pending_due e c h"
  shows "\<exists>l'. map_of (db_chunks (ms_db (he_metadata h'))) c = Some (Good l') \<and> n \<notin> set (cl_nodes l') \<and> m \<in> set (cl_nodes l')"
proof -
  let ?v = "pass_view e h"
  let ?p = "l\<lparr>cl_nodes := filter (\<lambda>n. n \<notin> set (nodes_without_chunk ?v l)) (cl_nodes l), cl_written_at := Some (hv_now_ms e)\<rparr>"
  have id: "cl_chunk_id l = c" using assms(2,4) by (auto simp: keyed_def dest!: map_of_SomeD)
  have con: "m \<in> set (confirmed_alive_nodes ?v l)" using confirmed_iff [OF assms(15,13)] assms(12,14) id by simp
  have on: "n \<in> ni_id ` set (online_members e h)" using assms(10) by (auto simp: find_Some_iff dest: nth_mem)
  have "node_chunk_presence e h (live_locations (he_metadata h)) n = None" "\<not> rpc_failed e h (live_locations (he_metadata h)) n"
    using assms(9-11) by (simp_all add: node_chunk_presence_def rpc_failed_def)
  then have ghost: "n \<in> set (nodes_without_chunk ?v l)"
    using assms(7,8) on by (simp add: nodes_without_chunk_def asked_def holds_def pass_view_simps)
  have "pending_due e c (mark_pending (heal_env.truncate e) c h)"
    using assms(16) by (auto simp: pending_due_def mark_pending_def split: option.splits)
  moreover have "nodes_without_chunk ?v l \<noteq> []" "confirmed_alive_nodes ?v l \<noteq> []" using con ghost by auto
  ultimately have "last (l # chunk_puts e ?v l h) = ?p"
    using assms(6) by (simp add: chunk_puts_def prune_ghosts_def prune_removed_def put_update_def empty_acc_def Let_def id)
  moreover have "\<not> chunk_purged e ?v h l" using con by (auto simp: chunk_purged_def purged_def purge_due_def)
  ultimately have "map_of (db_chunks (ms_db (he_metadata h'))) c = Some (Good ?p)"
    using deep_pass_row [OF assms(1,2,4)] assms(3,5) by simp
  moreover have "m \<notin> set (nodes_without_chunk ?v l)" using con by (auto simp: confirmed_alive_nodes_def nodes_without_chunk_def)
  ultimately show ?thesis using ghost assms(12) by auto
qed

section \<open>Examples\<close>

definition demo_disco :: "has_answer \<Rightarrow> disco_env" where
  "demo_disco answer = heal_env.extend demo_heal_env
     \<lparr>dc_scan_read = True, dc_exists_read = True, dc_leader = True, dc_leader_rpcs = True, dc_listing = True,
      dc_has = (\<lambda>_ _. answer), dc_tokens_read = True, dc_tokens = (\<lambda>_. Some {})\<rparr>"

definition demo_found :: "NodeId list \<Rightarrow> (nat \<times> (ChunkId \<times> byte list) list, nat \<times> (ChunkId \<times> unit) list) Healer" where
  "demo_found ns = (demo_healer (demo_members 1) ns 2)\<lparr>he_chunks := demo_chunks\<lparr>ck_map := [(FileId 7, [demo_location ns], 0)]\<rparr>\<rparr>"

lemma demo_disco_simps [simp]:
  "hv_now (demo_disco x) = 1000" "hv_now_ms (demo_disco x) = 1000000" "hv_inst (demo_disco x) = 5000" "hv_io (demo_disco x) = Committed"
  "dc_scan_read (demo_disco x)" "dc_leader (demo_disco x)" "dc_leader_rpcs (demo_disco x)" "dc_listing (demo_disco x)"
  "dc_has (demo_disco x) a cs = x" "dc_tokens_read (demo_disco x)" "dc_tokens (demo_disco x) a = Some {}"
  "heal_env.truncate (demo_disco x) = demo_heal_env"
  by (simp_all add: demo_disco_def demo_heal_env_def heal_env.extend_def heal_env.truncate_def)

lemma demo_found_simps:
  "map_of (db_chunks (ms_db (he_metadata (demo_found ns)))) demo_chunk = Some (Good (demo_location ns))" "keyed (he_metadata (demo_found ns))"
  "live_locations (he_metadata (demo_found ns)) = [demo_location ns]" "he_cluster (demo_found ns) = demo_members 1"
  "he_storage (demo_found ns) = demo_store" "he_delay_secs (demo_found ns) = 300" "hm_get (he_pending (demo_found ns)) demo_chunk = Some 100"
  "all_patch_token_ids (he_metadata (demo_found ns)) = {}"
  by (simp_all add: demo_found_def demo_healer_def new_MetadataStore_def keyed_def bt_wf_def demo_location_def live_locations_def
      list_all_chunk_locations_def map_filter_simps live_file_ids_def sample_file_def new_FileMetadata_def hm_get_def all_patch_token_ids_def empty_db_def)

lemma demo_found_members:
  "online_members (demo_disco x) (demo_found ns) = [new_NodeInfo 1000 (NodeId 1) (1, 1) None, new_NodeInfo 1000 (NodeId 2) (2, 2) None]"
  "known_ids (demo_disco x) (demo_found ns) = {NodeId 1, NodeId 2}" "pass_runs (demo_disco x)"
  by (simp_all add: online_members_def known_ids_def demo_found_simps demo_nodes new_NodeInfo_def pass_runs_def)

lemma demo_found_local: "cm_local_node_id (he_cluster (demo_found ns)) \<in> ni_id ` set (online_members (demo_disco x) (demo_found ns))"
  by (simp add: demo_found_members demo_found_simps demo_local new_NodeInfo_def)

lemma demo_found_tokens: "token_view (demo_disco x) (demo_found ns) = ({}, True)"
  unfolding token_view_def Let_def demo_found_members demo_found_simps demo_nodes demo_local by (simp add: new_NodeInfo_def)

lemma demo_found_remote:
  "node_chunk_presence (demo_disco (HasValues [b])) (demo_found [NodeId 2]) (live_locations (he_metadata (demo_found [NodeId 2]))) (NodeId 2)
     = Some (if b then {demo_chunk} else {})"
  unfolding node_chunk_presence_def demo_found_members demo_found_simps
  by (simp add: node_assigned_def demo_location_def demo_local new_NodeInfo_def values_of_def)

lemma demo_found_losers: "dv_losers (pass_view (demo_disco x) (demo_found ns)) = {}"
  by (simp add: pass_view_def disco_view_of_def split_beta deep_scan_def Let_def demo_found_simps slot_losers_def slot_winners_def slot_winner_add_def
      slot_of_def demo_location_def hm_insert_def)

lemma demo_found_view: "dv_tokens (pass_view (demo_disco x) (demo_found ns)) = {}" "dv_complete (pass_view (demo_disco x) (demo_found ns))"
  using pass_view_simps(6) [of "demo_disco x" "demo_found ns"] by (simp_all add: demo_found_tokens)

lemma demo_found_due: "pending_due (demo_disco x) demo_chunk (demo_found ns)"
  by (simp add: pending_due_def demo_found_simps)



theorem unusable_answer_prunes_holder_witness:
  "\<exists>h' sent l'. run_discovery_pass (demo_disco HasUnexpected) True (demo_found [NodeId 1, NodeId 2]) = (h', sent) \<and>
     map_of (db_chunks (ms_db (he_metadata h'))) demo_chunk = Some (Good l') \<and> NodeId 2 \<notin> set (cl_nodes l')"
proof -
  let ?e = "demo_disco HasUnexpected" and ?h = "demo_found [NodeId 1, NodeId 2]"
  obtain h' sent where r: "run_discovery_pass ?e True ?h = (h', sent)" by (cases "run_discovery_pass ?e True ?h")
  obtain cs st where "list_chunks demo_store = Ret (cs, st)" "demo_chunk \<in> set cs"
    using ok_list [OF reach_ok [OF recency.lru_cache_axioms demo_store_reach]] demo_wf demo_has by auto
  then have mine: "node_chunk_presence ?e ?h (live_locations (he_metadata ?h)) (NodeId 1) = Some (set cs)" "demo_chunk \<in> set cs"
    unfolding node_chunk_presence_def demo_found_members demo_found_simps
    by (simp_all add: node_assigned_def demo_location_def demo_local)
  have l: "NodeId 1 \<in> set (cl_nodes (demo_location [NodeId 1, NodeId 2]))" "NodeId 2 \<in> set (cl_nodes (demo_location [NodeId 1, NodeId 2]))"
    by (simp_all add: demo_location_def)
  have live: "demo_location [NodeId 1, NodeId 2] \<in> set (live_locations (he_metadata ?h))" by (simp add: demo_found_simps)
  have f: "find (\<lambda>i. ni_id i = NodeId 2) (online_members ?e ?h) = Some (new_NodeInfo 1000 (NodeId 2) (2, 2) None)"
    by (simp add: demo_found_members new_NodeInfo_def)
  have "demo_chunk \<notin> dv_tokens (pass_view ?e ?h) \<union> dv_losers (pass_view ?e ?h)" "NodeId 2 \<in> known_ids ?e ?h" "NodeId 2 \<noteq> cm_local_node_id (he_cluster ?h)"
    by (simp_all add: demo_found_losers demo_found_view demo_found_members demo_found_simps demo_local)
  from unusable_answer_prunes_holder [OF r demo_found_simps(2) demo_found_members(3) demo_found_simps(1) live this(1) l(2) this(2,3) f _ l(1) mine demo_found_local demo_found_due]
  show ?thesis using r by auto
qed

end
