(* ===== verification/Spec2Isabelle.thy ===== *)
theory Spec2Isabelle
  imports Hex_Codec Placement Delta_Records Chunk_Map_Claims File_Locks Chunk_Storage_Claims Usable_Capacity Compaction Discovery_Claims
begin

text \<open>
  A model of the distributed file system of this repository, with the theorems that make its parts
  correct.

  \<^item> \<open>Prelude\<close>: bytes and 64-bit arithmetic, panics, the standard-library containers and searches.
  \<^item> \<open>Dfs_Types\<close>: the data of \<^verbatim>\<open>dfs-common/src/types.rs\<close>.
  \<^item> \<open>Hex_Codec\<close>: chunk names and their decoding.
  \<^item> \<open>Hash_Ring\<close>: the consistent hash ring of \<^verbatim>\<open>dfs-common/src/hash.rs\<close>.
  \<^item> \<open>Cluster\<close>, \<open>Cluster_Messages\<close>, \<open>Cluster_Reach\<close>, \<open>Cluster_Laws\<close>, \<open>Placement\<close>: the cluster
    manager of \<^verbatim>\<open>dfs-server/src/cluster.rs\<close> and the cluster messages of \<^verbatim>\<open>dfs-server/src/server.rs\<close>.
\<close>

end
